(* ===== verification/Prelude.thy ===== *)
theory Prelude
  imports Main "HOL-Library.Word" "HOL-Library.Sublist"
begin

text \<open>
  Shared vocabulary of the development: how a C function that may end its process is written
  (\<open>outcome\<close>, \<open>prog\<close>), how calls that leave the program are answered and recorded
  (\<open>proc\<close>, \<open>sys\<close>), and the generic lemmas on them that the components share.

  A C function that can call \<open>exit\<close>, fail an \<open>assert\<close> or wait in the kernel is a function from
  a state to an outcome and a state.  The answers of the kernel, of vmnet and of the XPC broker
  are an input: the list \<open>answers\<close> of a \<open>proc\<close> holds one answer per call, in the order of the
  calls, and a theorem over every list of answers is a theorem over every behaviour of that
  code.  A call with no answer left never returns (\<open>Waiting\<close>).  Each call is recorded with its
  answer in \<open>history\<close>, oldest first.
\<close>

named_theorems prog_simps

section \<open>Errors and outcomes\<close>

text \<open>The \<open>errno\<close> values the sources compare with or print; the rest is \<open>E_other\<close>.\<close>

datatype errno = ENOBUFS | EINTR | ENOENT | ESRCH | EINVAL | ERANGE | ENOMEM | E_other nat

text \<open>A system call's return value: -1 with an \<open>errno\<close>, or any other value.\<close>

datatype sysret = Ret int | Fail errno

text \<open>
  How a function ends: it returns, the process exits with a status, an assertion fails, or it
  waits for an answer that does not come.
\<close>

datatype 'a outcome = Done 'a | Exited int | Aborted | Waiting

type_synonym ('s, 'a) prog = "'s \<Rightarrow> 'a outcome \<times> 's"

abbreviation (input) EXIT_SUCCESS :: int where "EXIT_SUCCESS \<equiv> 0"
abbreviation (input) EXIT_FAILURE :: int where "EXIT_FAILURE \<equiv> 1"

definition ret :: "'a \<Rightarrow> ('s, 'a) prog" where
  "ret x s = (Done x, s)"

definition exit_with :: "int \<Rightarrow> ('s, 'a) prog" where
  "exit_with c s = (Exited c, s)"

definition abort_prog :: "('s, 'a) prog" where
  "abort_prog s = (Aborted, s)"

definition bind :: "('s, 'a) prog \<Rightarrow> ('a \<Rightarrow> ('s, 'b) prog) \<Rightarrow> ('s, 'b) prog" where
  "bind m f s = (case m s of
      (Done x, t) \<Rightarrow> f x t
    | (Exited c, t) \<Rightarrow> (Exited c, t)
    | (Aborted, t) \<Rightarrow> (Aborted, t)
    | (Waiting, t) \<Rightarrow> (Waiting, t))"

definition seq :: "('s, 'a) prog \<Rightarrow> ('s, 'b) prog \<Rightarrow> ('s, 'b) prog" where
  "seq m n = bind m (\<lambda>_. n)"

definition gets :: "('s \<Rightarrow> 'a) \<Rightarrow> ('s, 'a) prog" where
  "gets f s = (Done (f s), s)"

definition modify :: "('s \<Rightarrow> 's) \<Rightarrow> ('s, unit) prog" where
  "modify f s = (Done (), f s)"

definition whenp :: "bool \<Rightarrow> ('s, unit) prog \<Rightarrow> ('s, unit) prog" where
  "whenp b m = (if b then m else ret ())"

lemmas prog_defs [prog_simps] =
  ret_def exit_with_def abort_prog_def bind_def seq_def gets_def modify_def whenp_def

lemma bind_ret_left [simp]: "bind (ret x) f = f x"
  by (rule ext) (simp add: prog_simps)

lemma bind_ret_right [simp]: "bind m ret = m"
  by (rule ext) (simp add: prog_simps split: outcome.splits prod.splits)

lemma bind_assoc: "bind (bind m f) g = bind m (\<lambda>x. bind (f x) g)"
  by (rule ext) (simp add: prog_simps split: outcome.splits prod.splits)

lemma bind_exit [simp]: "bind (exit_with c) f = exit_with c"
  by (rule ext) (simp add: prog_simps)

lemma bind_Done:
  "bind m f s = (Done y, t) \<longleftrightarrow> (\<exists>x u. m s = (Done x, u) \<and> f x u = (Done y, t))"
  by (auto simp: bind_def split: outcome.splits prod.splits)

lemma bind_Exited:
  "bind m f s = (Exited c, t) \<longleftrightarrow>
     m s = (Exited c, t) \<or> (\<exists>x u. m s = (Done x, u) \<and> f x u = (Exited c, t))"
  by (auto simp: bind_def split: outcome.splits prod.splits)

lemma seq_Done:
  "seq m n s = (Done y, t) \<longleftrightarrow> (\<exists>x u. m s = (Done x, u) \<and> n u = (Done y, t))"
  by (auto simp: seq_def bind_Done)

lemma seq_Exited:
  "seq m n s = (Exited c, t) \<longleftrightarrow>
     m s = (Exited c, t) \<or> (\<exists>x u. m s = (Done x, u) \<and> n u = (Exited c, t))"
  by (auto simp: seq_def bind_Exited)

text \<open>How each primitive ends: the rewriting rules that drive the proofs about programs.\<close>

named_theorems ends_simps

lemma ret_ends [ends_simps, simp]:
  "ret x s = (Done y, t) \<longleftrightarrow> x = y \<and> s = t" "ret x s \<noteq> (Exited c, t)"
  "ret x s \<noteq> (Aborted, t)" "ret x s \<noteq> (Waiting, t)"
  by (simp_all add: ret_def)

lemma exit_ends [ends_simps, simp]:
  "exit_with c s = (Exited d, t) \<longleftrightarrow> c = d \<and> s = t" "exit_with c s \<noteq> (Done y, t)"
  "exit_with c s \<noteq> (Aborted, t)" "exit_with c s \<noteq> (Waiting, t)"
  by (auto simp: exit_with_def)

lemma gets_ends [ends_simps, simp]:
  "gets f s = (Done y, t) \<longleftrightarrow> y = f s \<and> s = t" "gets f s \<noteq> (Exited c, t)"
  "gets f s \<noteq> (Aborted, t)" "gets f s \<noteq> (Waiting, t)"
  by (auto simp: gets_def)

lemma modify_ends [ends_simps, simp]:
  "modify f s = (Done y, t) \<longleftrightarrow> t = f s" "modify f s \<noteq> (Exited c, t)"
  "modify f s \<noteq> (Aborted, t)" "modify f s \<noteq> (Waiting, t)"
  by (auto simp: modify_def)

lemma whenp_ends [ends_simps]:
  "whenp b m s = (Done y, t) \<longleftrightarrow> (if b then m s = (Done y, t) else t = s)"
  "whenp b m s = (Exited c, t) \<longleftrightarrow> b \<and> m s = (Exited c, t)"
  by (auto simp: whenp_def)

lemmas prog_ends = bind_Done bind_Exited seq_Done seq_Exited whenp_ends

text \<open>A program that makes no waiting call and no assertion: it returns or it exits.\<close>

definition ends :: "('s, 'a) prog \<Rightarrow> bool" where
  "ends m \<longleftrightarrow> (\<forall>s. (\<exists>x t. m s = (Done x, t)) \<or> (\<exists>c t. m s = (Exited c, t)))"

lemma ends_basic [intro, simp]:
  "ends (ret x)" "ends (exit_with c)" "ends (gets f)" "ends (modify g)"
  by (auto simp: ends_def ret_def exit_with_def gets_def modify_def)

lemma ends_bind [intro]:
  assumes "ends m" and "\<And>x. ends (f x)"
  shows "ends (bind m f)"
  unfolding ends_def bind_Done bind_Exited
  using assms unfolding ends_def by metis

lemma ends_seq [intro]: "ends m \<Longrightarrow> ends n \<Longrightarrow> ends (seq m n)"
  unfolding seq_def by (rule ends_bind)

lemma ends_whenp [intro]: "ends m \<Longrightarrow> ends (whenp b m)"
  by (simp add: whenp_def)

lemma ends_if [intro]: "ends m \<Longrightarrow> ends n \<Longrightarrow> ends (if b then m else n)"
  by simp

lemma ends_option [intro]:
  "ends m \<Longrightarrow> (\<And>x. ends (f x)) \<Longrightarrow> ends (case v of None \<Rightarrow> m | Some x \<Rightarrow> f x)"
  by (simp split: option.split)

section \<open>Calls that leave the program\<close>

record ('c, 'r) proc =
  answers :: "'r list"
  history :: "('c \<times> 'r option) list"

definition sys :: "'c \<Rightarrow> (('c, 'r, 'z) proc_scheme, 'r) prog" where
  "sys c s = (case answers s of
      [] \<Rightarrow> (Waiting, s)
    | a # as \<Rightarrow> (Done a, s\<lparr>answers := as, history := history s @ [(c, Some a)]\<rparr>))"

text \<open>A call whose result, if any, the program ignores.\<close>

definition emit :: "'c \<Rightarrow> (('c, 'r, 'z) proc_scheme, unit) prog" where
  "emit c s = (Done (), s\<lparr>history := history s @ [(c, None)]\<rparr>)"

lemma sys_Nil [simp]: "answers s = [] \<Longrightarrow> sys c s = (Waiting, s)"
  by (simp add: sys_def)

lemma sys_Cons [simp]:
  "answers s = a # as \<Longrightarrow>
   sys c s = (Done a, s\<lparr>answers := as, history := history s @ [(c, Some a)]\<rparr>)"
  by (simp add: sys_def)

lemma sys_Done:
  "sys c s = (Done a, t) \<longleftrightarrow>
     (\<exists>as. answers s = a # as \<and> t = s\<lparr>answers := as, history := history s @ [(c, Some a)]\<rparr>)"
  by (auto simp: sys_def split: list.splits)

lemma emit_ends [ends_simps, simp]:
  "emit c s = (Done y, t) \<longleftrightarrow> t = s\<lparr>history := history s @ [(c, None)]\<rparr>"
  "emit c s \<noteq> (Exited n, t)" "emit c s \<noteq> (Aborted, t)" "emit c s \<noteq> (Waiting, t)"
  by (auto simp: emit_def)

lemma sys_not_Exited [simp]: "sys c s \<noteq> (Exited n, t)"
  by (simp add: sys_def split: list.splits)

lemma sys_not_Aborted [simp]: "sys c s \<noteq> (Aborted, t)"
  by (simp add: sys_def split: list.splits)

text \<open>Programs in which no assertion fails, on any state and with any answers.\<close>

named_theorems never_aborts

definition no_abort :: "('s, 'a) prog \<Rightarrow> bool" where
  "no_abort m \<longleftrightarrow> (\<forall>s t. m s \<noteq> (Aborted, t))"

lemma no_abortD: "no_abort m \<Longrightarrow> m s \<noteq> (Aborted, t)"
  by (simp add: no_abort_def)

lemma no_abort_basic [never_aborts]:
  "no_abort (ret x)" "no_abort (exit_with c)" "no_abort (gets f)" "no_abort (modify g)"
  "no_abort (sys q)" "no_abort (emit q)"
  by (simp_all add: no_abort_def)

lemma no_abort_bind [never_aborts]:
  "no_abort m \<Longrightarrow> (\<And>x. no_abort (f x)) \<Longrightarrow> no_abort (bind m f)"
  by (auto simp: no_abort_def bind_def split: prod.splits outcome.splits)

lemma no_abort_seq [never_aborts]: "no_abort m \<Longrightarrow> no_abort n \<Longrightarrow> no_abort (seq m n)"
  unfolding seq_def by (rule no_abort_bind)

lemma no_abort_whenp [never_aborts]: "no_abort m \<Longrightarrow> no_abort (whenp b m)"
  by (simp add: whenp_def no_abort_basic)

lemma bind_Aborted:
  "bind m f s = (Aborted, t) \<longleftrightarrow>
     m s = (Aborted, t) \<or> (\<exists>x u. m s = (Done x, u) \<and> f x u = (Aborted, t))"
  by (auto simp: bind_def split: outcome.splits prod.splits)

text \<open>The statuses a program may exit with.\<close>

named_theorems exit_codes

definition exits_in :: "int set \<Rightarrow> ('s, 'a) prog \<Rightarrow> bool" where
  "exits_in C m \<longleftrightarrow> (\<forall>s c t. m s = (Exited c, t) \<longrightarrow> c \<in> C)"

lemma exits_inD: "exits_in C m \<Longrightarrow> m s = (Exited c, t) \<Longrightarrow> c \<in> C"
  by (auto simp: exits_in_def)

lemma exits_in_basic [exit_codes]:
  "exits_in C (ret x)" "exits_in C abort_prog" "exits_in C (gets f)" "exits_in C (modify g)"
  "exits_in C (sys q)" "exits_in C (emit q)" "c \<in> C \<Longrightarrow> exits_in C (exit_with c)"
  by (auto simp: exits_in_def abort_prog_def)

lemma exits_in_bind [exit_codes]:
  "exits_in C m \<Longrightarrow> (\<And>x. exits_in C (f x)) \<Longrightarrow> exits_in C (bind m f)"
  unfolding exits_in_def bind_Exited by blast

lemma exits_in_seq [exit_codes]: "exits_in C m \<Longrightarrow> exits_in C n \<Longrightarrow> exits_in C (seq m n)"
  unfolding seq_def by (rule exits_in_bind)

lemma exits_in_whenp [exit_codes]: "exits_in C m \<Longrightarrow> exits_in C (whenp b m)"
  by (simp add: whenp_def exits_in_basic)

section \<open>Programs only extend the history\<close>

text \<open>
  \<open>preserves R m\<close>: the final state of \<open>m\<close> is related to its initial state by \<open>R\<close>, however \<open>m\<close>
  ends.  For a reflexive and transitive \<open>R\<close> it is closed under sequencing.
\<close>

definition preserves :: "('s \<Rightarrow> 's \<Rightarrow> bool) \<Rightarrow> ('s, 'a) prog \<Rightarrow> bool" where
  "preserves R m \<longleftrightarrow> (\<forall>s. R s (snd (m s)))"

lemma preservesD: "preserves R m \<Longrightarrow> m s = (x, t) \<Longrightarrow> R s t"
  unfolding preserves_def by (metis snd_conv)

locale step_order =
  fixes R :: "'s \<Rightarrow> 's \<Rightarrow> bool"
  assumes refl_step: "R s s"
    and trans_step: "R s t \<Longrightarrow> R t u \<Longrightarrow> R s u"
begin

lemma pres_ret [intro]: "preserves R (ret x)"
  by (simp add: preserves_def ret_def refl_step)

lemma pres_exit [intro]: "preserves R (exit_with c)"
  by (simp add: preserves_def exit_with_def refl_step)

lemma pres_gets [intro]: "preserves R (gets f)"
  by (simp add: preserves_def gets_def refl_step)

lemma pres_abort [intro]: "preserves R abort_prog"
  by (simp add: preserves_def abort_prog_def refl_step)

lemma pres_bind [intro]:
  assumes "preserves R m" and "\<And>x. preserves R (f x)"
  shows "preserves R (bind m f)"
  unfolding preserves_def
proof
  fix s
  obtain x t where m: "m s = (x, t)" by fastforce
  have st: "R s t" using assms(1) m by (rule preservesD)
  show "R s (snd (bind m f s))"
  proof (cases x)
    case (Done y)
    have "R t (snd (f y t))" using assms(2) by (simp add: preserves_def)
    with st m Done show ?thesis by (auto simp: bind_def intro: trans_step)
  next
    case (Exited c)
    with m st show ?thesis by (simp add: bind_def)
  next
    case Aborted
    with m st show ?thesis by (simp add: bind_def)
  next
    case Waiting
    with m st show ?thesis by (simp add: bind_def)
  qed
qed

lemma pres_seq [intro]: "preserves R m \<Longrightarrow> preserves R n \<Longrightarrow> preserves R (seq m n)"
  unfolding seq_def by (rule pres_bind)

lemma pres_whenp [intro]: "preserves R m \<Longrightarrow> preserves R (whenp b m)"
  by (simp add: whenp_def pres_ret)

end

text \<open>The order of a process's run: calls are appended, answers are taken from the front.\<close>

definition runs_on :: "('c, 'r, 'z) proc_scheme \<Rightarrow> ('c, 'r, 'z) proc_scheme \<Rightarrow> bool" where
  "runs_on s t \<longleftrightarrow> 
     (\<exists>new. history t = history s @ new \<and>
        answers s = List.map_filter snd new @ answers t)"

interpretation run_order: step_order runs_on
  by unfold_locales (auto simp: runs_on_def List.map_filter_def)

lemma runs_on_sys [intro]: "preserves runs_on (sys c)"
  by (auto simp: preserves_def sys_def runs_on_def List.map_filter_def split: list.splits)

lemma runs_on_emit [intro]: "preserves runs_on (emit c)"
  by (auto simp: preserves_def emit_def runs_on_def List.map_filter_def)

section \<open>Programs that take an answer\<close>

definition answers_down :: "('c, 'r, 'z) proc_scheme \<Rightarrow> ('c, 'r, 'z) proc_scheme \<Rightarrow> bool" where
  "answers_down s t \<longleftrightarrow> length (answers t) \<le> length (answers s)"

interpretation down_order: step_order answers_down
  by unfold_locales (auto simp: answers_down_def)

definition consumes :: "(('c, 'r, 'z) proc_scheme, 'a) prog \<Rightarrow> bool" where
  "consumes m \<longleftrightarrow> (\<forall>s x t. m s = (Done x, t) \<longrightarrow> length (answers t) < length (answers s))"

lemma down_sys [intro]: "preserves answers_down (sys c)"
  by (auto simp: preserves_def sys_def answers_down_def split: list.splits)

lemma down_emit [intro]: "preserves answers_down (emit c)"
  by (simp add: preserves_def emit_def answers_down_def)

lemma down_modify [intro]: "(\<And>s. answers (f s) = answers s) \<Longrightarrow> preserves answers_down (modify f)"
  by (simp add: preserves_def modify_def answers_down_def)

lemma consumes_sys [intro]: "consumes (sys c)"
  by (auto simp: consumes_def sys_Done)

lemma consumes_exit [intro]: "consumes (exit_with c)"
  by (simp add: consumes_def)

lemma consumes_bind_first:
  assumes "consumes m" and "\<And>x. preserves answers_down (f x)"
  shows "consumes (bind m f)"
  unfolding consumes_def bind_Done
proof (intro allI impI, elim exE conjE)
  fix s y t x u assume "m s = (Done x, u)" and "f x u = (Done y, t)"
  then have "length (answers u) < length (answers s)" "length (answers t) \<le> length (answers u)"
    using assms(1) preservesD[OF assms(2)] by (auto simp: consumes_def answers_down_def)
  then show "length (answers t) < length (answers s)" by simp
qed

lemma consumes_bind_second:
  assumes "preserves answers_down m" and "\<And>x. consumes (f x)"
  shows "consumes (bind m f)"
  unfolding consumes_def bind_Done
proof (intro allI impI, elim exE conjE)
  fix s y t x u assume "m s = (Done x, u)" and "f x u = (Done y, t)"
  then have "length (answers u) \<le> length (answers s)" "length (answers t) < length (answers u)"
    using assms(2) preservesD[OF assms(1)] by (auto simp: consumes_def answers_down_def)
  then show "length (answers t) < length (answers s)" by simp
qed

lemma consumes_seq_second:
  "preserves answers_down m \<Longrightarrow> consumes n \<Longrightarrow> consumes (seq m n)"
  unfolding seq_def by (rule consumes_bind_second)

section \<open>Loops whose rounds make calls\<close>

text \<open>
  \<open>while (1) { body }\<close>, where \<open>None\<close> is the end of a round and \<open>Some x\<close> leaves the loop.  A round
  that makes no call and does not leave would be repeated for ever, so it is an infinite wait;
  \<open>calling_loop\<close> below states that no round of a loop is like that, and each loop of the program
  is an instance.
\<close>

function repeat_until ::
  "(('c, 'r, 'z) proc_scheme, 'a option) prog \<Rightarrow> (('c, 'r, 'z) proc_scheme, 'a) prog" where
  "repeat_until body s =
     (case body s of
        (Done None, t) \<Rightarrow>
          if length (answers t) < length (answers s) then repeat_until body t else (Waiting, t)
      | (Done (Some x), t) \<Rightarrow> (Done x, t)
      | (Exited c, t) \<Rightarrow> (Exited c, t)
      | (Aborted, t) \<Rightarrow> (Aborted, t)
      | (Waiting, t) \<Rightarrow> (Waiting, t))"
  by pat_completeness auto

termination
  by (relation "measure (\<lambda>(b, s). length (answers s))") simp_all

declare repeat_until.simps [simp del]

text \<open>
  An invariant \<open>I\<close> of the rounds, and what it gives (\<open>Q\<close>) when the loop is left or a round ends
  the process.
\<close>

lemma repeat_until_rule:
  assumes run: "repeat_until body s = (r, t)" and init: "I s"
    and round: "\<And>s t. I s \<Longrightarrow> body s = (Done None, t) \<Longrightarrow> I t"
  shows "\<exists>u. I u \<and> (case r of
      Done x \<Rightarrow> body u = (Done (Some x), t)
    | Exited c \<Rightarrow> body u = (Exited c, t)
    | Aborted \<Rightarrow> body u = (Aborted, t)
    | Waiting \<Rightarrow> body u = (Waiting, t) \<or> body u = (Done None, t) \<and> \<not> length (answers t) < length (answers u))"
  using run init round
proof (induction body s rule: repeat_until.induct)
  case (1 body s)
  obtain o1 u where b: "body s = (o1, u)" by fastforce
  show ?case
  proof (cases o1)
    case (Done x)
    show ?thesis
    proof (cases x)
      case None
      have u: "body s = (Done None, u)" using b Done None by simp
      have Iu: "I u" using "1.prems"(3)[OF "1.prems"(2) u] .
      show ?thesis
      proof (cases "length (answers u) < length (answers s)")
        case True
        then have "repeat_until body u = (r, t)"
          using "1.prems"(1) u by (simp add: repeat_until.simps[of body s])
        then show ?thesis using "1.IH"[OF u[symmetric] refl refl True _ Iu] "1.prems"(3) by blast
      next
        case False
        then show ?thesis
          using "1.prems" u by (auto simp: repeat_until.simps[of body s] intro!: exI[of _ s])
      qed
    next
      case (Some y)
      then show ?thesis
        using 1 b Done by (auto simp: repeat_until.simps[of body s] intro!: exI[of _ s])
    qed
  qed (use 1 b in \<open>auto simp: repeat_until.simps[of body s] intro!: exI[of _ s]\<close>)
qed

locale calling_loop =
  fixes body :: "(('c, 'r, 'z) proc_scheme, 'a option) prog"
  assumes calls: "body s = (Done None, t) \<Longrightarrow> length (answers t) < length (answers s)"
begin

lemma unfold_loop:
  "repeat_until body s =
     bind body (\<lambda>x. case x of None \<Rightarrow> repeat_until body | Some y \<Rightarrow> ret y) s"
  using calls by (auto simp: repeat_until.simps[of body s] bind_def ret_def
      split: prod.splits outcome.splits option.splits)

lemma loop_Done:
  assumes "repeat_until body s = (Done x, t)" and "I s"
    and "\<And>s t. I s \<Longrightarrow> body s = (Done None, t) \<Longrightarrow> I t"
  obtains u where "I u" "body u = (Done (Some x), t)"
  using repeat_until_rule[where I = I, OF assms(1,2)] assms(3) that by simp blast

lemma loop_Exited:
  assumes "repeat_until body s = (Exited c, t)" and "I s"
    and "\<And>s t. I s \<Longrightarrow> body s = (Done None, t) \<Longrightarrow> I t"
  obtains u where "I u" "body u = (Exited c, t)"
  using repeat_until_rule[where I = I, OF assms(1,2)] assms(3) that by simp blast

lemma loop_Aborted:
  assumes "repeat_until body s = (Aborted, t)" and "I s"
    and "\<And>s t. I s \<Longrightarrow> body s = (Done None, t) \<Longrightarrow> I t"
  obtains u where "I u" "body u = (Aborted, t)"
  using repeat_until_rule[where I = I, OF assms(1,2)] assms(3) that by simp blast

text \<open>The loop waits only where a round waits.\<close>

lemma loop_Waiting:
  assumes "repeat_until body s = (Waiting, t)" and "I s"
    and "\<And>s t. I s \<Longrightarrow> body s = (Done None, t) \<Longrightarrow> I t"
  obtains u where "I u" "body u = (Waiting, t)"
  using repeat_until_rule[where I = I, OF assms(1,2)] assms(3) that calls by simp blast

end

lemma calling_loop_consumes: "consumes body \<Longrightarrow> calling_loop body"
  by unfold_locales (simp add: consumes_def)

section \<open>Triples\<close>

text \<open>
  From a state with \<open>P\<close>, \<open>m\<close> returns in a state with \<open>Q\<close> of its result, or it stops (exits, aborts
  or waits) in a state with \<open>E\<close>.
\<close>

definition triple ::
    "('s \<Rightarrow> bool) \<Rightarrow> ('s, 'a) prog \<Rightarrow> ('a \<Rightarrow> 's \<Rightarrow> bool) \<Rightarrow> ('s \<Rightarrow> bool) \<Rightarrow> bool" where
  "triple P m Q E \<longleftrightarrow> (\<forall>s r t. P s \<longrightarrow> m s = (r, t) \<longrightarrow> (case r of Done x \<Rightarrow> Q x t | _ \<Rightarrow> E t))"

lemma triple_Done: "triple P m Q E \<Longrightarrow> P s \<Longrightarrow> m s = (Done x, t) \<Longrightarrow> Q x t"
  by (fastforce simp: triple_def)

lemma triple_stop:
  "triple P m Q E \<Longrightarrow> P s \<Longrightarrow> m s = (r, t) \<Longrightarrow> (\<And>x. r \<noteq> Done x) \<Longrightarrow> E t"
  by (cases r) (fastforce simp: triple_def)+

named_theorems triples

lemma triple_ret [triples]: "(\<And>s. P s \<Longrightarrow> Q x s) \<Longrightarrow> triple P (ret x) Q E"
  by (simp add: triple_def ret_def)

lemma triple_exit [triples]: "(\<And>s. P s \<Longrightarrow> E s) \<Longrightarrow> triple P (exit_with c) Q E"
  by (simp add: triple_def exit_with_def)

lemma triple_abort [triples]: "(\<And>s. P s \<Longrightarrow> E s) \<Longrightarrow> triple P abort_prog Q E"
  by (simp add: triple_def abort_prog_def)

lemma triple_gets [triples]: "(\<And>s. P s \<Longrightarrow> Q (f s) s) \<Longrightarrow> triple P (gets f) Q E"
  by (simp add: triple_def gets_def)

lemma triple_modify [triples]: "(\<And>s. P s \<Longrightarrow> Q () (f s)) \<Longrightarrow> triple P (modify f) Q E"
  by (simp add: triple_def modify_def)

lemma triple_bind:
  assumes "triple P m R E" and "\<And>x. triple (R x) (f x) Q E"
  shows "triple P (bind m f) Q E"
  unfolding triple_def
proof (intro allI impI)
  fix s r t assume "P s" and run: "bind m f s = (r, t)"
  obtain r1 u where m: "m s = (r1, u)" by fastforce
  with assms(1) \<open>P s\<close> have "case r1 of Done x \<Rightarrow> R x u | _ \<Rightarrow> E u" by (auto simp: triple_def)
  then show "case r of Done x \<Rightarrow> Q x t | _ \<Rightarrow> E t"
    using run m assms(2) by (cases r1) (auto simp: bind_def triple_def)
qed

lemma triple_seq: "triple P m (\<lambda>_. R) E \<Longrightarrow> triple R n Q E \<Longrightarrow> triple P (seq m n) Q E"
  unfolding seq_def by (rule triple_bind)

lemma triple_weaken:
  "triple P' m Q' E' \<Longrightarrow> (\<And>s. P s \<Longrightarrow> P' s) \<Longrightarrow> (\<And>x s. Q' x s \<Longrightarrow> Q x s) \<Longrightarrow> (\<And>s. E' s \<Longrightarrow> E s) \<Longrightarrow>
   triple P m Q E"
  unfolding triple_def by (fastforce split: outcome.splits)

lemma triple_sys:
  assumes "\<And>s a as. P s \<Longrightarrow> answers s = a # as \<Longrightarrow>
      Q a (s\<lparr>answers := as, history := history s @ [(c, Some a)]\<rparr>)"
    and "\<And>s. P s \<Longrightarrow> E s"
  shows "triple P (sys c) Q E"
  using assms by (auto simp: triple_def sys_def split: list.splits)

lemma triple_emit:
  assumes "\<And>s. P s \<Longrightarrow> Q () (s\<lparr>history := history s @ [(c, None)]\<rparr>)"
  shows "triple P (emit c) Q E"
  using assms by (simp add: triple_def emit_def)

text \<open>A program that keeps an invariant, however it ends.\<close>

lemma triple_preserves: "triple I m (\<lambda>_. I) I \<longleftrightarrow> preserves (\<lambda>s t. I s \<longrightarrow> I t) m"
proof -
  have "(case r of Done x \<Rightarrow> I t | _ \<Rightarrow> I t) = I t" for r :: "'b outcome" and t
    by (cases r) simp_all
  then show ?thesis by (simp add: triple_def preserves_def) (metis prod.collapse snd_conv)
qed

lemma runs_on_modify [intro]:
  "(\<And>s. answers (f s) = answers s \<and> history (f s) = history s) \<Longrightarrow> preserves runs_on (modify f)"
  by (simp add: preserves_def modify_def runs_on_def List.map_filter_def)

lemma runs_on_history: "runs_on s t \<Longrightarrow> \<exists>g. history t = history s @ g"
  by (auto simp: runs_on_def)

lemma runs_on_answers: "runs_on s t \<Longrightarrow> list_all P (answers s) \<Longrightarrow> list_all P (answers t)"
  by (auto simp: runs_on_def)

interpretation keep_order: step_order "\<lambda>s t. I s \<longrightarrow> I t" for I
  by unfold_locales auto

lemma repeat_until_keeps:
  assumes "triple I body (\<lambda>_. I) I"
  shows "triple I (repeat_until body) (\<lambda>_. I) I"
  unfolding triple_def
proof (intro allI impI)
  fix s r t assume "I s" and run: "repeat_until body s = (r, t)"
  have round: "I v" if "I u" "body u = (x, v)" for u x v
    using assms that by (auto simp: triple_preserves preserves_def dest!: spec[of _ u])
  from repeat_until_rule[where I = I, OF run \<open>I s\<close>] round
  obtain u where "I u" "\<exists>x. body u = (x, t)" by (cases r) fastforce+
  with round have "I t" by blast
  then show "case r of Done x \<Rightarrow> I t | _ \<Rightarrow> I t" by (cases r) simp_all
qed

lemma preserves_repeat:
  assumes "step_order R" and "preserves R body"
  shows "preserves R (repeat_until body)"
  unfolding preserves_def
proof
  fix s
  have "triple (R s) body (\<lambda>_. R s) (R s)"
    unfolding triple_preserves
    using assms(2) step_order.trans_step[OF assms(1)] by (force simp: preserves_def)
  from repeat_until_keeps[OF this] show "R s (snd (repeat_until body s))"
    using step_order.refl_step[OF assms(1), of s] by (auto simp: triple_preserves preserves_def)
qed

text \<open>The calls a program makes.\<close>

definition calls_in :: "('c \<Rightarrow> bool) \<Rightarrow> ('c, 'r, 'z) proc_scheme \<Rightarrow> ('c, 'r, 'z) proc_scheme \<Rightarrow> bool" where
  "calls_in P s t \<longleftrightarrow> (\<exists>g. history t = history s @ g \<and> list_all (\<lambda>e. P (fst e)) g)"

interpretation calls_order: step_order "calls_in P" for P
  by unfold_locales (auto simp: calls_in_def)

lemma calls_sys: "P c \<Longrightarrow> preserves (calls_in P) (sys c)"
  by (auto simp: preserves_def sys_def calls_in_def split: list.splits)

lemma calls_emit: "P c \<Longrightarrow> preserves (calls_in P) (emit c)"
  by (auto simp: preserves_def emit_def calls_in_def)

lemma calls_modify: "(\<And>s. history (f s) = history s) \<Longrightarrow> preserves (calls_in P) (modify f)"
  by (simp add: preserves_def modify_def calls_in_def)

lemma repeat_until_no_abort [never_aborts]:
  assumes "no_abort body" shows "no_abort (repeat_until body)"
  unfolding no_abort_def
  using repeat_until_rule[where I = "\<lambda>_. True" and r = Aborted] no_abortD[OF assms] by fastforce

lemma repeat_until_exits_in [exit_codes]:
  assumes "exits_in C body" shows "exits_in C (repeat_until body)"
  unfolding exits_in_def
  using repeat_until_rule[where I = "\<lambda>_. True"] exits_inD[OF assms] by fastforce

section \<open>Transition systems\<close>

text \<open>The states that steps reach from an initial state, and the rule for their invariants.\<close>

definition reachable :: "('s \<Rightarrow> bool) \<Rightarrow> ('s \<Rightarrow> 's \<Rightarrow> bool) \<Rightarrow> 's \<Rightarrow> bool" where
  "reachable init step s \<longleftrightarrow> (\<exists>s0. init s0 \<and> step\<^sup>*\<^sup>* s0 s)"

lemma reachable_init: "init s \<Longrightarrow> reachable init step s"
  by (auto simp: reachable_def)

lemma reachable_step: "reachable init step s \<Longrightarrow> step s t \<Longrightarrow> reachable init step t"
  by (auto simp: reachable_def intro: rtranclp.rtrancl_into_rtrancl)

locale inductive_invariant =
  fixes init :: "'s \<Rightarrow> bool" and step :: "'s \<Rightarrow> 's \<Rightarrow> bool" and I :: "'s \<Rightarrow> bool"
  assumes inv_init: "init s \<Longrightarrow> I s"
    and inv_step: "I s \<Longrightarrow> step s t \<Longrightarrow> I t"
begin

lemma inv_steps: "step\<^sup>*\<^sup>* s t \<Longrightarrow> I s \<Longrightarrow> I t"
  by (induction rule: rtranclp_induct) (auto intro: inv_step)

lemma inv_reachable: "reachable init step s \<Longrightarrow> I s"
  by (auto simp: reachable_def intro: inv_steps inv_init)

end

section \<open>Lists and words\<close>

lemma sum_list_map_upt_Suc:
  "sum_list (map f [0..<Suc n]) = sum_list (map f [0..<n]) + (f n :: 'a :: comm_monoid_add)"
  by (simp add: add.commute)

text \<open>A C loop \<open>for (i = 0; i < n; i++)\<close> that updates entry \<open>i\<close> of an array.\<close>

definition for_each :: "nat \<Rightarrow> (nat \<Rightarrow> 'a \<Rightarrow> 'a) \<Rightarrow> 'a list \<Rightarrow> 'a list" where
  "for_each n f xs = fold (\<lambda>i xs. xs[i := f i (xs ! i)]) [0..<n] xs"

lemma length_for_each [simp]: "length (for_each n f xs) = length xs"
  by (induction n) (simp_all add: for_each_def)

lemma nth_for_each [simp]:
  "for_each n f xs ! j = (if j < n \<and> j < length xs then f j (xs ! j) else xs ! j)"
proof (induction n)
  case 0
  then show ?case by (simp add: for_each_def)
next
  case (Suc n)
  have s: "for_each (Suc n) f xs = (for_each n f xs)[n := f n (for_each n f xs ! n)]"
    by (simp add: for_each_def)
  show ?case
  proof (cases "j = n")
    case True
    then show ?thesis using Suc by (cases "n < length xs") (simp_all add: s list_update_beyond)
  next
    case False
    then show ?thesis using Suc by (auto simp: s)
  qed
qed

lemma nth_for_each_field:
  "(\<And>i x. g (f i x) = g x) \<Longrightarrow> g (for_each n f xs ! j) = g (xs ! j)"
  by simp

lemma nth_map_upt0 [simp]: "i < n \<Longrightarrow> map f [0..<n] ! i = f i"
  by simp

end
