(* ===== verification/Getopt.thy ===== *)
theory Getopt
  imports Prelude
begin

text \<open>
  \<open>getopt_long\<close> of the macOS C library and the option loop both programs build on it.

  The scanner's state is what \<open>getopt_long\<close> keeps between calls: the unread rest of a cluster of
  short options (\<open>place\<close>), the arguments from \<open>argv[optind]\<close> on (\<open>argv_rest\<close>) and the
  non-option arguments it skipped (\<open>nonopts\<close>), which it moves behind the options.  The loop
  \<open>getopt_loop\<close> is the shape both \<open>parse_options\<close> functions have: read \<open>argv[optind]\<close> for
  messages, call \<open>getopt_long\<close>, dispatch on the result.

  The locale \<open>option_table\<close> is the contract of a table of long options; the programs' two tables
  interpret it, and what it gives is that the text of a list of options is read back as that list.
\<close>

section \<open>The scanner\<close>

datatype has_arg = no_argument | required_argument

text \<open>The result of one call: an option's value with \<open>optarg\<close>, \<open>':'\<close>, \<open>'?'\<close> or -1.\<close>

datatype 'v getopt_ret =
    Opt 'v "string option"
  | Missing_argument
  | Bad_option
  | End_of_options

record getopt_state =
  place :: string
  argv_rest :: "string list"
  nonopts :: "string list"

type_synonym 'v long_options = "(string \<times> has_arg \<times> 'v) list"

text \<open>The exact name, or the only option the key abbreviates.\<close>

definition long_match :: "'v long_options \<Rightarrow> string \<Rightarrow> (has_arg \<times> 'v) option" where
  "long_match longs key =
     (case map_of longs key of
        Some m \<Rightarrow> Some m
      | None \<Rightarrow>
          (case filter (\<lambda>e. prefix key (fst e)) longs of
             [] \<Rightarrow> None
           | e # es \<Rightarrow> if list_all (\<lambda>e'. snd e' = snd e) es then Some (snd e) else None))"

text \<open>\<open>--name\<close>, \<open>--name=arg\<close> or \<open>--name arg\<close>; \<open>p\<close> is the text after the dashes.\<close>

definition parse_long ::
  "'v long_options \<Rightarrow> string \<Rightarrow> string list \<Rightarrow> 'v getopt_ret \<times> string list" where
  "parse_long longs p r =
     (let key = takeWhile (\<lambda>c. c \<noteq> CHR ''='') p;
          eq = dropWhile (\<lambda>c. c \<noteq> CHR ''='') p
      in case long_match longs key of
           None \<Rightarrow> (Bad_option, r)
         | Some (no_argument, v) \<Rightarrow> if eq = [] then (Opt v None, r) else (Bad_option, r)
         | Some (required_argument, v) \<Rightarrow>
             if eq \<noteq> [] then (Opt v (Some (tl eq)), r)
             else (case r of [] \<Rightarrow> (Missing_argument, r) | x # r' \<Rightarrow> (Opt v (Some x), r')))"

text \<open>A short option \<open>c\<close> of the argument \<open>a\<close>, with \<open>p\<close> the characters after it.\<close>

definition parse_short ::
  "string \<Rightarrow> (char \<Rightarrow> 'v) \<Rightarrow> char \<Rightarrow> string \<Rightarrow> string \<Rightarrow> string list \<Rightarrow>
   'v getopt_ret \<times> string \<times> string list" where
  "parse_short shorts code c p a r =
     (let oli = dropWhile (\<lambda>x. x \<noteq> c) shorts
      in if c = CHR '':'' \<or> oli = [] then
           (Bad_option, p, if p = [] then r else a # r)
         else if tl oli = [] \<or> hd (tl oli) \<noteq> CHR '':'' then
           (Opt (code c) None, p, if p = [] then r else a # r)
         else if p \<noteq> [] then (Opt (code c) (Some p), [], r)
         else (case r of
                 [] \<Rightarrow> (Missing_argument, [], r)
               | x # r' \<Rightarrow> (Opt (code c) (Some x), [], r')))"

definition parse_place ::
  "string \<Rightarrow> 'v long_options \<Rightarrow> (char \<Rightarrow> 'v) \<Rightarrow> string list \<Rightarrow> string \<Rightarrow> string \<Rightarrow> string list \<Rightarrow>
   'v getopt_ret \<times> getopt_state" where
  "parse_place shorts longs code non p a r =
     (if hd p = CHR ''-'' then
        (let (v, r') = parse_long longs (tl p) r
         in (v, \<lparr>place = [], argv_rest = r', nonopts = non\<rparr>))
      else
        (let (v, p', r') = parse_short shorts code (hd p) (tl p) a r
         in (v, \<lparr>place = p', argv_rest = r', nonopts = non\<rparr>)))"

text \<open>Skip non-options (\<open>-\<close> is one), stop at \<open>--\<close>; at the end the skipped ones come first.\<close>

fun getopt_scan ::
  "string \<Rightarrow> 'v long_options \<Rightarrow> (char \<Rightarrow> 'v) \<Rightarrow> string list \<Rightarrow> string list \<Rightarrow>
   'v getopt_ret \<times> getopt_state" where
  "getopt_scan shorts longs code non [] =
     (End_of_options, \<lparr>place = [], argv_rest = non, nonopts = []\<rparr>)"
| "getopt_scan shorts longs code non (a # r) =
     (if a = [] \<or> hd a \<noteq> CHR ''-'' \<or> tl a = [] then
        getopt_scan shorts longs code (non @ [a]) r
      else if a = ''--'' then
        (End_of_options, \<lparr>place = [], argv_rest = non @ r, nonopts = []\<rparr>)
      else parse_place shorts longs code non (tl a) a r)"

definition getopt_long ::
  "string \<Rightarrow> 'v long_options \<Rightarrow> (char \<Rightarrow> 'v) \<Rightarrow> getopt_state \<Rightarrow> 'v getopt_ret \<times> getopt_state" where
  "getopt_long shorts longs code st =
     (case (place st, argv_rest st) of
        (c # p, a # r) \<Rightarrow> parse_place shorts longs code (nonopts st) (c # p) a r
      | _ \<Rightarrow> getopt_scan shorts longs code (nonopts st) (argv_rest st))"

text \<open>What is left to read: \<open>getopt_long\<close> makes it smaller whenever it returns an option.\<close>

definition unread :: "getopt_state \<Rightarrow> nat" where
  "unread st =
     (if place st = [] \<or> argv_rest st = []
      then sum_list (map (\<lambda>a. Suc (length a)) (argv_rest st))
      else length (place st) + sum_list (map (\<lambda>a. Suc (length a)) (tl (argv_rest st))))"

lemma parse_long_shorter:
  "parse_long longs p r = (v, r') \<Longrightarrow> \<exists>pre. r = pre @ r'"
  by (auto simp: parse_long_def Let_def split: option.splits has_arg.splits if_splits list.splits)

lemma parse_place_unread:
  assumes "parse_place shorts longs code non p a r = (v, st)" and "p \<noteq> []"
  shows "unread st < length p + sum_list (map (\<lambda>a. Suc (length a)) r)"
proof (cases "hd p = CHR ''-''")
  case True
  then obtain r' where "parse_long longs (tl p) r = (v, r')"
    and st: "st = \<lparr>place = [], argv_rest = r', nonopts = non\<rparr>"
    using assms(1) by (auto simp: parse_place_def split: prod.splits)
  then obtain pre where "r = pre @ r'" by (auto dest: parse_long_shorter)
  then show ?thesis using st assms(2) by (cases p) (auto simp: unread_def)
next
  case False
  then show ?thesis using assms
    by (cases p)
      (auto simp: parse_place_def parse_short_def Let_def unread_def
         split: prod.splits if_splits list.splits)
qed

lemma getopt_scan_unread:
  "getopt_scan shorts longs code non r = (v, st) \<Longrightarrow> v \<noteq> End_of_options \<Longrightarrow>
   unread st < sum_list (map (\<lambda>a. Suc (length a)) r)"
proof (induction shorts longs code non r rule: getopt_scan.induct)
  case (2 shorts longs code non a r)
  then show ?case
    by (cases a) (auto split: if_splits dest!: parse_place_unread)
qed simp

lemma getopt_long_unread:
  assumes "getopt_long shorts longs code st = (v, st')" and "v \<noteq> End_of_options"
  shows "unread st' < unread st"
proof (cases "place st = [] \<or> argv_rest st = []")
  case True
  then have "getopt_scan shorts longs code (nonopts st) (argv_rest st) = (v, st')"
    using assms(1) by (auto simp: getopt_long_def split: list.splits)
  then show ?thesis using assms(2) True
    by (auto simp: unread_def[of st] dest!: getopt_scan_unread)
next
  case False
  then obtain c p a r where "place st = c # p" "argv_rest st = a # r"
    by (meson neq_Nil_conv)
  then show ?thesis using assms(1)
    by (auto simp: getopt_long_def unread_def[of st] dest!: parse_place_unread)
qed

section \<open>The option loop\<close>

text \<open>
  \<open>optname = argv[optind]\<close> is \<open>None\<close> for the NULL after the last argument.  The handler is the
  \<open>switch\<close> of the loop.  The result is the arguments from \<open>argv[optind]\<close> on after the loop.
\<close>

definition optname_of :: "getopt_state \<Rightarrow> string option" where
  "optname_of st = (case argv_rest st of [] \<Rightarrow> None | a # _ \<Rightarrow> Some a)"

function getopt_loop ::
  "string \<Rightarrow> 'v long_options \<Rightarrow> (char \<Rightarrow> 'v) \<Rightarrow>
   (string option \<Rightarrow> 'v getopt_ret \<Rightarrow> ('s, unit) prog) \<Rightarrow> getopt_state \<Rightarrow> ('s, string list) prog" where
  "getopt_loop shorts longs code handle st s =
     (case getopt_long shorts longs code st of
        (v, st') \<Rightarrow>
          if v = End_of_options then (Done (argv_rest st'), s)
          else (case handle (optname_of st) v s of
                  (Done _, s') \<Rightarrow> getopt_loop shorts longs code handle st' s'
                | (Exited c, s') \<Rightarrow> (Exited c, s')
                | (Aborted, s') \<Rightarrow> (Aborted, s')
                | (Waiting, s') \<Rightarrow> (Waiting, s')))"
  by pat_completeness auto
termination
  by (relation "measure (\<lambda>(_, _, _, _, st, _). unread st)")
    (auto dest: getopt_long_unread[OF sym])

declare getopt_loop.simps [simp del]

definition argv_state :: "string list \<Rightarrow> getopt_state" where
  "argv_state args = \<lparr>place = [], argv_rest = args, nonopts = []\<rparr>"

text \<open>
  An invariant that every handled option keeps holds when the loop returns, and when it exits
  the exit is a handler's, from a state with the invariant.
\<close>

definition keeps :: "('s \<Rightarrow> bool) \<Rightarrow> (string option \<Rightarrow> 'v getopt_ret \<Rightarrow> ('s, unit) prog) \<Rightarrow> bool" where
  "keeps I handle \<longleftrightarrow> (\<forall>n v s s'. I s \<longrightarrow> handle n v s = (Done (), s') \<longrightarrow> I s')"

lemma keepsI: "(\<And>n v s s'. I s \<Longrightarrow> handle n v s = (Done (), s') \<Longrightarrow> I s') \<Longrightarrow> keeps I handle"
  by (simp add: keeps_def)

lemma getopt_loop_invariant:
  "getopt_loop shorts longs code handle st s = (Done args, t) \<Longrightarrow> keeps I handle \<Longrightarrow> I s \<Longrightarrow> I t"
proof (induction shorts longs code handle st s rule: getopt_loop.induct)
  case (1 shorts longs code handle st s)
  show ?case
  proof (cases "fst (getopt_long shorts longs code st) = End_of_options")
    case True
    then show ?thesis using "1.prems"
      by (subst (asm) getopt_loop.simps) (auto split: prod.splits)
  next
    case False
    obtain v st' where g: "getopt_long shorts longs code st = (v, st')" by fastforce
    with "1.prems" False obtain s' where h: "handle (optname_of st) v s = (Done (), s')"
      and l: "getopt_loop shorts longs code handle st' s' = (Done args, t)"
      by (subst (asm) getopt_loop.simps) (auto split: prod.splits outcome.splits)
    have "I s'" using h "1.prems"(2,3) by (auto simp: keeps_def)
    then show ?thesis using "1.IH" g False h l "1.prems"(2) by auto
  qed
qed

lemma getopt_loop_exit:
  "getopt_loop shorts longs code handle st s = (Exited c, t) \<Longrightarrow> keeps I handle \<Longrightarrow> I s \<Longrightarrow>
   \<exists>n v u. I u \<and> v \<noteq> End_of_options \<and> handle n v u = (Exited c, t)"
proof (induction shorts longs code handle st s rule: getopt_loop.induct)
  case (1 shorts longs code handle st s)
  obtain v st' where g: "getopt_long shorts longs code st = (v, st')" by fastforce
  have v: "v \<noteq> End_of_options"
    using "1.prems"(1) g by (subst (asm) getopt_loop.simps) auto
  show ?case
  proof (cases "\<exists>t'. handle (optname_of st) v s = (Exited c, t')")
    case True
    then show ?thesis using "1.prems" g v
      by (subst (asm) getopt_loop.simps) (auto split: if_splits, blast)
  next
    case False
    with "1.prems" g v obtain s' where h: "handle (optname_of st) v s = (Done (), s')"
      and l: "getopt_loop shorts longs code handle st' s' = (Exited c, t)"
      by (subst (asm) getopt_loop.simps) (auto split: prod.splits outcome.splits)
    have "I s'" using h "1.prems"(2,3) by (auto simp: keeps_def)
    then show ?thesis using "1.IH" g v h l "1.prems"(2) by auto
  qed
qed

lemma getopt_loop_ends:
  assumes "\<And>n v. ends (handle n v)"
  shows "(\<exists>x t. getopt_loop shorts longs code handle st s = (Done x, t)) \<or>
    (\<exists>c t. getopt_loop shorts longs code handle st s = (Exited c, t))"
  using assms
proof (induction shorts longs code handle st s rule: getopt_loop.induct)
  case (1 shorts longs code handle st s)
  obtain v st' where g: "getopt_long shorts longs code st = (v, st')" by fastforce
  have "ends (handle (optname_of st) v)" by (rule "1.prems")
  then consider (returns) u where "handle (optname_of st) v s = (Done (), u)"
    | (exits) c u where "handle (optname_of st) v s = (Exited c, u)"
    unfolding ends_def by (metis old.unit.exhaust)
  then show ?case
  proof cases
    case returns
    show ?thesis
    proof (cases "v = End_of_options")
      case True
      then show ?thesis using g by (simp add: getopt_loop.simps[of shorts longs code handle st s])
    next
      case False
      then show ?thesis using g returns "1.IH"[OF g[symmetric] False returns[symmetric] refl]
        "1.prems" by (simp add: getopt_loop.simps[of shorts longs code handle st s])
    qed
  next
    case exits
    then show ?thesis using g by (simp add: getopt_loop.simps[of shorts longs code handle st s])
  qed
qed

lemma ends_getopt_loop:
  assumes "\<And>n v. ends (handle n v)"
  shows "ends (getopt_loop shorts longs code handle st)"
  unfolding ends_def by (intro allI getopt_loop_ends assms)

text \<open>
  What the scanner reads off a command line, without handling it: the results of the calls of
  \<open>getopt_long\<close> up to the end of the options.
\<close>

function getopt_results ::
  "string \<Rightarrow> 'v long_options \<Rightarrow> (char \<Rightarrow> 'v) \<Rightarrow> getopt_state \<Rightarrow> 'v getopt_ret list" where
  "getopt_results shorts longs code st =
     (case getopt_long shorts longs code st of
        (v, st') \<Rightarrow> if v = End_of_options then [] else v # getopt_results shorts longs code st')"
  by pat_completeness auto

termination
  by (relation "measure (\<lambda>(shorts, longs, code, st). unread st)")
    (auto dest: getopt_long_unread[OF sym])

declare getopt_results.simps [simp del]

text \<open>
  The loop ends as the first result says that is not accepted; when all are, it returns with their
  effects in order.
\<close>

lemma getopt_loop_outcome:
  assumes good: "\<And>n v s. ok v \<Longrightarrow> v \<noteq> End_of_options \<Longrightarrow> \<exists>t. handle n v s = (Done (), t) \<and> f t = g v (f s)"
    and bad: "\<And>n v s. \<not> ok v \<Longrightarrow> v \<noteq> End_of_options \<Longrightarrow> \<exists>t. handle n v s = (Exited (ec v), t)"
  shows "case find (\<lambda>v. \<not> ok v) (getopt_results shorts longs code st) of
      None \<Rightarrow> \<exists>r t. getopt_loop shorts longs code handle st s = (Done r, t) \<and>
        f t = fold g (getopt_results shorts longs code st) (f s)
    | Some v \<Rightarrow> \<exists>t. getopt_loop shorts longs code handle st s = (Exited (ec v), t)"
proof (induction shorts longs code st arbitrary: s rule: getopt_results.induct)
  case (1 shorts longs code st)
  obtain v st' where v: "getopt_long shorts longs code st = (v, st')" by fastforce
  note unfolds = getopt_loop.simps[of shorts longs code handle st s] getopt_results.simps[of shorts longs code st]
  show ?case
  proof (cases "v = End_of_options")
    case True
    then show ?thesis by (simp add: unfolds v)
  next
    case False
    show ?thesis
    proof (cases "ok v")
      case True
      then obtain t where t: "handle (optname_of st) v s = (Done (), t)" "f t = g v (f s)"
        using good False by blast
      show ?thesis using "1.IH"[OF v[symmetric] False, of t] True False t
        by (simp add: unfolds v split: option.splits)
    next
      case bd: False
      with bad False obtain t where "handle (optname_of st) v s = (Exited (ec v), t)" by blast
      then show ?thesis using bd False by (simp add: unfolds v)
    qed
  qed
qed

section \<open>Tables of long options\<close>

text \<open>An option as a caller writes it: \<open>--n\<close>, \<open>--n a\<close> or \<open>--n=a\<close>.\<close>

datatype item = Flag string | Sep string string | Eq string string

fun item_args :: "item \<Rightarrow> string list" where
  "item_args (Flag n) = [''--'' @ n]"
| "item_args (Sep n a) = [''--'' @ n, a]"
| "item_args (Eq n a) = [''--'' @ n @ ''='' @ a]"

fun item_arg :: "item \<Rightarrow> string option" where
  "item_arg (Flag n) = None"
| "item_arg (Sep n a) = Some a"
| "item_arg (Eq n a) = Some a"

fun item_val :: "'v long_options \<Rightarrow> item \<Rightarrow> 'v option" where
  "item_val longs (Flag n) =
     (case map_of longs n of Some (no_argument, v) \<Rightarrow> Some v | _ \<Rightarrow> None)"
| "item_val longs (Sep n a) =
     (case map_of longs n of Some (required_argument, v) \<Rightarrow> Some v | _ \<Rightarrow> None)"
| "item_val longs (Eq n a) =
     (case map_of longs n of Some (required_argument, v) \<Rightarrow> Some v | _ \<Rightarrow> None)"

definition item_name :: "item \<Rightarrow> string" where
  "item_name it = hd (item_args it)"

text \<open>The handler applied to a list of options, in order.\<close>

fun run_items ::
  "'v long_options \<Rightarrow> (string option \<Rightarrow> 'v getopt_ret \<Rightarrow> ('s, unit) prog) \<Rightarrow> item list \<Rightarrow>
   ('s, string list) prog" where
  "run_items longs handle [] = ret []"
| "run_items longs handle (it # its) =
     bind (handle (Some (item_name it)) (Opt (the (item_val longs it)) (item_arg it)))
       (\<lambda>_. run_items longs handle its)"

locale option_table =
  fixes shorts :: string and longs :: "'v long_options" and code :: "char \<Rightarrow> 'v"
  assumes names: "(n, m) \<in> set longs \<Longrightarrow> n \<noteq> [] \<and> CHR ''='' \<notin> set n"
begin

lemma map_of_name: "map_of longs n = Some m \<Longrightarrow> n \<noteq> [] \<and> CHR ''='' \<notin> set n"
  using names map_of_SomeD by fastforce

lemma key_split:
  assumes "map_of longs n = Some m"
  shows "takeWhile (\<lambda>c. c \<noteq> CHR ''='') n = n" and "dropWhile (\<lambda>c. c \<noteq> CHR ''='') n = []"
    and "takeWhile (\<lambda>c. c \<noteq> CHR ''='') (n @ CHR ''='' # a) = n"
    and "dropWhile (\<lambda>c. c \<noteq> CHR ''='') (n @ CHR ''='' # a) = CHR ''='' # a"
proof -
  have "\<forall>c\<in>set n. c \<noteq> CHR ''=''" using map_of_name[OF assms] by metis
  then show "takeWhile (\<lambda>c. c \<noteq> CHR ''='') n = n" "dropWhile (\<lambda>c. c \<noteq> CHR ''='') n = []"
    "takeWhile (\<lambda>c. c \<noteq> CHR ''='') (n @ CHR ''='' # a) = n"
    "dropWhile (\<lambda>c. c \<noteq> CHR ''='') (n @ CHR ''='' # a) = CHR ''='' # a"
    by (simp_all add: takeWhile_eq_all_conv dropWhile_eq_Nil_conv
        takeWhile_append2 dropWhile_append2)
qed

text \<open>One option is read with one call, and nothing of the next is.\<close>

lemma getopt_item:
  assumes "item_val longs it = Some v"
  shows "getopt_long shorts longs code (argv_state (item_args it @ rest)) =
     (Opt v (item_arg it), argv_state rest)"
proof (cases it)
  case (Flag n)
  with assms have m: "map_of longs n = Some (no_argument, v)"
    by (auto split: option.splits has_arg.splits)
  then show ?thesis using map_of_name[OF m]
    by (simp add: Flag argv_state_def getopt_long_def parse_place_def parse_long_def
        long_match_def key_split[OF m])
next
  case (Sep n a)
  with assms have m: "map_of longs n = Some (required_argument, v)"
    by (auto split: option.splits has_arg.splits)
  then show ?thesis using map_of_name[OF m]
    by (simp add: Sep argv_state_def getopt_long_def parse_place_def parse_long_def
        long_match_def key_split[OF m])
next
  case (Eq n a)
  with assms have m: "map_of longs n = Some (required_argument, v)"
    by (auto split: option.splits has_arg.splits)
  then show ?thesis using map_of_name[OF m]
    by (simp add: Eq argv_state_def getopt_long_def parse_place_def parse_long_def
        long_match_def key_split[OF m])
qed

lemma results_items:
  "list_all (\<lambda>it. item_val longs it \<noteq> None) its \<Longrightarrow>
   getopt_results shorts longs code (argv_state (concat (map item_args its))) =
     map (\<lambda>it. Opt (the (item_val longs it)) (item_arg it)) its"
proof (induction its)
  case Nil
  then show ?case by (subst getopt_results.simps) (simp add: argv_state_def getopt_long_def)
next
  case (Cons it its)
  then obtain v where v: "item_val longs it = Some v" by auto
  show ?case using Cons by (subst getopt_results.simps) (simp add: getopt_item[OF v] v)
qed

text \<open>The loop over the text of a list of options handles exactly these options.\<close>

lemma getopt_items:
  "list_all (\<lambda>it. item_val longs it \<noteq> None) its \<Longrightarrow>
   getopt_loop shorts longs code handle (argv_state (concat (map item_args its))) s =
     run_items longs handle its s"
proof (induction its arbitrary: s)
  case Nil
  then show ?case
    by (subst getopt_loop.simps) (simp add: argv_state_def getopt_long_def ret_def)
next
  case (Cons it its)
  then obtain v where v: "item_val longs it = Some v" by auto
  have n: "optname_of (argv_state (item_args it @ r)) = Some (item_name it)" for r
    by (cases it) (simp_all add: optname_of_def argv_state_def item_name_def)
  show ?case using Cons
    by (subst getopt_loop.simps)
      (auto simp: getopt_item[OF v] n v bind_def split: prod.splits outcome.splits)
qed

end

end
