(* ===== verification/Libc.thy ===== *)
theory Libc
  imports Prelude
begin

text \<open>
  The parts of the C library the programs use: number parsing and printing (\<open>strtol\<close>, \<open>atoi\<close>,
  the \<open>printf\<close> conversions), string splitting (\<open>strsep\<close>, \<open>strncpy\<close>) and \<open>getopt_long\<close>, each
  as it behaves on macOS, the only platform of the programs.  A C string is its characters before
  the NUL, so \<open>*end == 0\<close> is "the rest is empty".
\<close>

section \<open>Numbers\<close>

definition isspace :: "char \<Rightarrow> bool" where
  "isspace c \<longleftrightarrow> c \<in> set [CHR '' '', CHR 0x09, CHR 0x0A, CHR 0x0B, CHR 0x0C, CHR 0x0D]"

definition isdigit :: "char \<Rightarrow> bool" where
  "isdigit c \<longleftrightarrow> (48::nat) \<le> of_char c \<and> (of_char c :: nat) \<le> 57"

definition digit_val :: "char \<Rightarrow> int" where
  "digit_val c = int (of_char c) - 48"

definition digit_char :: "nat \<Rightarrow> char" where
  "digit_char n = char_of (48 + n)"

definition digits_val :: "string \<Rightarrow> int" where
  "digits_val ds = foldl (\<lambda>v c. 10 * v + digit_val c) 0 ds"

definition INT_MAX :: int where "INT_MAX = 2147483647"
definition LONG_MAX :: int where "LONG_MAX = 9223372036854775807"
definition LONG_MIN :: int where "LONG_MIN = -9223372036854775808"

text \<open>\<open>strtol(s, &end, 10)\<close>: the value, the text from \<open>end\<close> on, and \<open>errno\<close> if it is set.\<close>

definition strtol :: "string \<Rightarrow> int \<times> string \<times> errno option" where
  "strtol s =
     (let t = dropWhile isspace s;
          neg = (t \<noteq> [] \<and> hd t = CHR ''-'');
          u = (if t \<noteq> [] \<and> (hd t = CHR ''-'' \<or> hd t = CHR ''+'') then tl t else t);
          ds = takeWhile isdigit u;
          v = (if neg then - digits_val ds else digits_val ds);
          end = dropWhile isdigit u
      in if ds = [] then (0, s, Some EINVAL)
         else if v > LONG_MAX then (LONG_MAX, end, Some ERANGE)
         else if v < LONG_MIN then (LONG_MIN, end, Some ERANGE)
         else (v, end, None))"

text \<open>\<open>atoi\<close>: \<open>(int) strtol(s, NULL, 10)\<close>, the long truncated to 32 bits.\<close>

definition atoi :: "string \<Rightarrow> int" where
  "atoi s = sint (word_of_int (fst (strtol s)) :: 32 word)"

fun dec :: "nat \<Rightarrow> string" where
  "dec n = (if n < 10 then [digit_char n] else dec (n div 10) @ [digit_char (n mod 10)])"

declare dec.simps [simp del]

text \<open>\<open>%d\<close>, \<open>%lld\<close> and, for a non-negative value, \<open>%llu\<close>.\<close>

definition fmt_d :: "int \<Rightarrow> string" where
  "fmt_d n = (if n < 0 then CHR ''-'' # dec (nat (- n)) else dec (nat n))"

text \<open>\<open>%0wd\<close> and, with \<open>show_plus\<close>, \<open>%+0wd\<close>: the sign counts toward the width.\<close>

definition fmt_0d :: "bool \<Rightarrow> nat \<Rightarrow> int \<Rightarrow> string" where
  "fmt_0d show_plus w n =
     (let sign = (if n < 0 then ''-'' else if show_plus then ''+'' else '''');
          ds = dec (nat \<bar>n\<bar>)
      in sign @ replicate (w - length sign - length ds) (CHR ''0'') @ ds)"

lemma of_char_digit_char [simp]:
  "n < 10 \<Longrightarrow> (of_char (digit_char n) :: nat) = 48 + n"
  by (simp add: digit_char_def)

lemma isdigit_digit_char [simp]: "n < 10 \<Longrightarrow> isdigit (digit_char n)"
  by (simp add: isdigit_def)

lemma digit_val_digit_char [simp]: "n < 10 \<Longrightarrow> digit_val (digit_char n) = int n"
  by (simp add: digit_val_def)

lemma digits_val_Nil [simp]: "digits_val [] = 0"
  by (simp add: digits_val_def)

lemma digits_val_append [simp]: "digits_val (ds @ [d]) = 10 * digits_val ds + digit_val d"
  by (simp add: digits_val_def)

lemma dec_nonempty [simp]: "dec n \<noteq> []"
  by (subst dec.simps) simp

lemma dec_isdigit: "c \<in> set (dec n) \<Longrightarrow> isdigit c"
proof (induction n rule: dec.induct)
  case (1 n)
  then show ?case
    by (subst (asm) dec.simps) (auto split: if_splits)
qed

lemma digits_val_dec [simp]: "digits_val (dec n) = int n"
proof (induction n rule: dec.induct)
  case (1 n)
  show ?case
  proof (cases "n < 10")
    case True
    then show ?thesis using digits_val_append[of "[]"] by (subst dec.simps) simp
  next
    case False
    with 1 show ?thesis by (subst dec.simps) (simp, presburger)
  qed
qed

lemma takeWhile_dec [simp]: "takeWhile isdigit (dec n @ c # r) = dec n @ takeWhile isdigit (c # r)"
  by (rule takeWhile_append2) (rule dec_isdigit)

lemma takeWhile_dec_end [simp]: "takeWhile isdigit (dec n) = dec n"
  by (simp add: takeWhile_eq_all_conv dec_isdigit)

lemma dropWhile_dec_end [simp]: "dropWhile isdigit (dec n) = []"
  by (simp add: dropWhile_eq_Nil_conv dec_isdigit)

lemma dropWhile_dec [simp]: "dropWhile isdigit (dec n @ c # r) = dropWhile isdigit (c # r)"
  by (rule dropWhile_append2) (rule dec_isdigit)

lemma isdigit_not_special:
  "isdigit c \<Longrightarrow> c \<noteq> CHR ''-'' \<and> c \<noteq> CHR ''+'' \<and> c \<noteq> CHR ''.'' \<and> \<not> isspace c"
  by (auto simp: isdigit_def isspace_def)

lemma dec_hd: "\<exists>c r. dec n = c # r \<and> isdigit c"
  by (metis dec_nonempty dec_isdigit list.set_intros(1) neq_Nil_conv)

lemma strtol_digits:
  assumes "ds \<noteq> []" and "\<forall>c\<in>set ds. isdigit c" and "r \<noteq> [] \<longrightarrow> \<not> isdigit (hd r)"
    and "digits_val ds \<le> LONG_MAX" and "0 \<le> digits_val ds"
  shows "strtol (ds @ r) = (digits_val ds, r, None)"
proof -
  obtain c cs where ds: "ds = c # cs" and c: "isdigit c"
    using assms(1,2) by (cases ds) auto
  have tw: "takeWhile isdigit (ds @ r) = ds" and dw: "dropWhile isdigit (ds @ r) = r"
    using assms(2,3) by (cases r; simp add: takeWhile_eq_all_conv dropWhile_append takeWhile_append)+
  have sp: "dropWhile isspace (ds @ r) = ds @ r"
    using isdigit_not_special[OF c] by (simp add: ds)
  show ?thesis
    using assms(4,5) tw dw isdigit_not_special[OF c]
    unfolding strtol_def Let_def sp
    by (simp add: ds LONG_MIN_def)
qed

text \<open>Printing a number that fits a \<open>long\<close> and reading it back gives the number.\<close>

lemma strtol_dec [simp]: "int n \<le> LONG_MAX \<Longrightarrow> strtol (dec n) = (int n, [], None)"
  using strtol_digits[of "dec n" "[]"] by (simp add: dec_isdigit)

lemma strtol_dec_append:
  "int n \<le> LONG_MAX \<Longrightarrow> \<not> isdigit c \<Longrightarrow> strtol (dec n @ c # r) = (int n, c # r, None)"
  using strtol_digits[of "dec n" "c # r"] by (simp add: dec_isdigit)

lemma atoi_dec [simp]: "int n \<le> INT_MAX \<Longrightarrow> atoi (dec n) = int n"
proof -
  assume n: "int n \<le> INT_MAX"
  then have "fst (strtol (dec n)) = int n"
    by (simp add: INT_MAX_def LONG_MAX_def)
  then show ?thesis using n
    unfolding atoi_def sint_sbintrunc'
    by (simp add: INT_MAX_def signed_take_bit_int_eq_self)
qed

lemma strtol_value_range: "strtol s = (v, e, x) \<Longrightarrow> LONG_MIN \<le> v \<and> v \<le> LONG_MAX"
  by (auto simp: strtol_def Let_def LONG_MIN_def LONG_MAX_def split: if_splits)

section \<open>Strings\<close>

text \<open>\<open>strsep(&s, d)\<close> for one delimiter: the token and the new \<open>s\<close>, \<open>None\<close> for NULL.\<close>

definition strsep :: "char \<Rightarrow> string option \<Rightarrow> string option \<times> string option" where
  "strsep d s = (case s of
      None \<Rightarrow> (None, None)
    | Some t \<Rightarrow>
        if d \<in> set t
        then (Some (takeWhile (\<lambda>c. c \<noteq> d) t), Some (tl (dropWhile (\<lambda>c. c \<noteq> d) t)))
        else (Some t, None))"

lemma strsep_None [simp]: "strsep d None = (None, None)"
  by (simp add: strsep_def)

lemma strsep_last [simp]: "d \<notin> set t \<Longrightarrow> strsep d (Some t) = (Some t, None)"
  by (simp add: strsep_def)

lemma strsep_token [simp]: "d \<notin> set t \<Longrightarrow> strsep d (Some (t @ d # r)) = (Some t, Some r)"
proof -
  assume "d \<notin> set t"
  then have "\<forall>c\<in>set t. c \<noteq> d" by metis
  then show ?thesis by (simp add: strsep_def takeWhile_append2 dropWhile_append2)
qed

lemma dot_notin_dec [simp]: "CHR ''.'' \<notin> set (dec n)"
  using dec_isdigit isdigit_not_special by blast

section \<open>Time\<close>

text \<open>\<open>struct tm\<close>: years count from 1900, months from 0.\<close>

record tm =
  tm_year :: int
  tm_mon :: int
  tm_mday :: int
  tm_hour :: int
  tm_min :: int
  tm_sec :: int
  tm_gmtoff :: int

end
