(* ===== verification/Vmnet.thy ===== *)
theory Vmnet
  imports Libc
begin

text \<open>
  The vocabulary of the vmnet framework and of XPC that \<open>programs/helper.c\<close> uses: return codes
  and their names, operation modes, XPC values and dictionaries, and the network information
  that \<open>vmnet_network_get_*\<close> gives.  The framework's own behaviour is not modelled: its answers
  are parameters of the functions that use them.
\<close>

datatype vmnet_return =
    VMNET_SUCCESS | VMNET_FAILURE | VMNET_MEM_FAILURE | VMNET_INVALID_ARGUMENT
  | VMNET_SETUP_INCOMPLETE | VMNET_INVALID_ACCESS | VMNET_PACKET_TOO_BIG
  | VMNET_BUFFER_EXHAUSTED | VMNET_TOO_MANY_PACKETS | VMNET_unlisted nat

fun host_strerror :: "vmnet_return \<Rightarrow> string" where
  "host_strerror VMNET_SUCCESS = ''VMNET_SUCCESS''"
| "host_strerror VMNET_FAILURE = ''VMNET_FAILURE''"
| "host_strerror VMNET_MEM_FAILURE = ''VMNET_MEM_FAILURE''"
| "host_strerror VMNET_INVALID_ARGUMENT = ''VMNET_INVALID_ARGUMENT''"
| "host_strerror VMNET_SETUP_INCOMPLETE = ''VMNET_SETUP_INCOMPLETE''"
| "host_strerror VMNET_INVALID_ACCESS = ''VMNET_INVALID_ACCESS''"
| "host_strerror VMNET_PACKET_TOO_BIG = ''VMNET_PACKET_TOO_BIG''"
| "host_strerror VMNET_BUFFER_EXHAUSTED = ''VMNET_BUFFER_EXHAUSTED''"
| "host_strerror VMNET_TOO_MANY_PACKETS = ''VMNET_TOO_MANY_PACKETS''"
| "host_strerror (VMNET_unlisted _) = ''(unknown status)''"

text \<open>
  The modes of \<open>operating_modes_t\<close>.  None of them is 0, so the sources use 0 for "no mode was
  given"; that is \<open>None\<close> here.
\<close>

datatype operating_mode = VMNET_HOST_MODE | VMNET_SHARED_MODE | VMNET_BRIDGED_MODE

fun mode_name :: "operating_mode option \<Rightarrow> string" where
  "mode_name (Some VMNET_SHARED_MODE) = ''shared''"
| "mode_name (Some VMNET_BRIDGED_MODE) = ''bridged''"
| "mode_name (Some VMNET_HOST_MODE) = ''host''"
| "mode_name None = ''unknown''"

definition bool_str :: "bool \<Rightarrow> string" where
  "bool_str b = (if b then ''true'' else ''false'')"

text \<open>A 16-byte \<open>uuid_t\<close>.\<close>

type_synonym uuid = "8 word list"

definition uuid_is_null :: "uuid \<Rightarrow> bool" where
  "uuid_is_null u \<longleftrightarrow> list_all (\<lambda>b. b = 0) u"

definition uuid_null :: uuid where
  "uuid_null = replicate 16 0"

text \<open>The XPC types the sources test for; other types are skipped by every use.\<close>

datatype xpc =
    XPC_UINT64 "64 word"
  | XPC_INT64 "64 word"
  | XPC_STRING string
  | XPC_UUID uuid
  | XPC_BOOL bool
  | XPC_other

type_synonym xpc_dict = "(string \<times> xpc) list"

text \<open>\<open>struct network\<close>.\<close>

record network =
  subnet :: string
  mask_str :: string
  ipv6_prefix :: string
  prefix_len :: "8 word"

end
