(* ===== verification/Options.thy ===== *)
theory Options
  imports Getopt Libc Vmnet
begin

text \<open>
  \<open>programs/options.h\<close> and \<open>programs/options.c\<close>: the command line of vmnet-helper.

  \<open>parse_options\<close> runs in the state \<open>cli\<close>: the \<open>struct options\<close> it fills, the global \<open>verbose\<close>
  and what was printed to stdout.  Messages to stderr are not part of the state.  The process's
  environment (\<open>getenv\<close>, \<open>getuid\<close>, \<open>getgid\<close>), the address and UUID parsers, the list of shared
  interfaces and the version strings of the build are the parameter \<open>env\<close>.

  A parser \<open>parse_x(arg, &field)\<close> returns the value it would store.
\<close>

section \<open>State\<close>

record options =
  opt_fd :: int
  opt_socket :: "string option"
  opt_operation_mode :: "operating_mode option"
  opt_interface_id :: uuid
  opt_start_address :: "string option"
  opt_end_address :: "string option"
  opt_subnet_mask :: "string option"
  opt_shared_interface :: "string option"
  opt_network_name :: "string option"
  opt_enable_isolation :: bool
  opt_enable_tso :: bool
  opt_enable_checksum_offload :: bool
  opt_uid :: "32 word"
  opt_gid :: "32 word"
  opt_stats_interval :: int

text \<open>The \<open>static struct options options = {.fd = -1}\<close> of the helper.\<close>

definition options_init :: options where
  "options_init = \<lparr>opt_fd = -1, opt_socket = None, opt_operation_mode = None,
     opt_interface_id = uuid_null, opt_start_address = None, opt_end_address = None,
     opt_subnet_mask = None, opt_shared_interface = None, opt_network_name = None,
     opt_enable_isolation = False, opt_enable_tso = False,
     opt_enable_checksum_offload = False, opt_uid = 0, opt_gid = 0, opt_stats_interval = 0\<rparr>"

record cli =
  cli_options :: options
  cli_verbose :: bool
  cli_stdout :: string

definition cli_init :: cli where
  "cli_init = \<lparr>cli_options = options_init, cli_verbose = False, cli_stdout = []\<rparr>"

record env =
  inet_aton :: "string \<Rightarrow> bool"
  uuid_parse :: "string \<Rightarrow> uuid option"
  getenv :: "string \<Rightarrow> string option"
  getuid :: "32 word"
  getgid :: "32 word"
  shared_interface_list :: "string list option"
  git_version :: string
  git_commit :: string

definition set_opt :: "(options \<Rightarrow> options) \<Rightarrow> (cli, unit) prog" where
  "set_opt f = modify (\<lambda>c. c\<lparr>cli_options := f (cli_options c)\<rparr>)"

definition put_stdout :: "string \<Rightarrow> (cli, unit) prog" where
  "put_stdout t = modify (\<lambda>c. c\<lparr>cli_stdout := cli_stdout c @ t\<rparr>)"

section \<open>The option table\<close>

text \<open>A short option is its character; the others are the enumeration above \<open>CHAR_MAX\<close>.\<close>

datatype helper_opt =
    Short char
  | OPT_OPERATION_MODE
  | OPT_SHARED_INTERFACE
  | OPT_START_ADDRESS
  | OPT_END_ADDRESS
  | OPT_SUBNET_MASK
  | OPT_ENABLE_TSO
  | OPT_ENABLE_CHECKSUM_OFFLOAD
  | OPT_ENABLE_ISOLATION
  | OPT_LIST_SHARED_INTERFACES
  | OPT_NETWORK
  | OPT_STATS_INTERVAL
  | OPT_VERSION

definition short_options :: string where
  "short_options = '':f:s:i:vh''"

definition long_options :: "helper_opt long_options" where
  "long_options =
    [(''fd'',                      required_argument, Short (CHR ''f'')),
     (''socket'',                  required_argument, Short (CHR ''s'')),
     (''interface-id'',            required_argument, Short (CHR ''i'')),
     (''operation-mode'',          required_argument, OPT_OPERATION_MODE),
     (''shared-interface'',        required_argument, OPT_SHARED_INTERFACE),
     (''start-address'',           required_argument, OPT_START_ADDRESS),
     (''end-address'',             required_argument, OPT_END_ADDRESS),
     (''subnet-mask'',             required_argument, OPT_SUBNET_MASK),
     (''enable-tso'',              no_argument,       OPT_ENABLE_TSO),
     (''enable-checksum-offload'', no_argument,       OPT_ENABLE_CHECKSUM_OFFLOAD),
     (''enable-isolation'',        no_argument,       OPT_ENABLE_ISOLATION),
     (''list-shared-interfaces'',  no_argument,       OPT_LIST_SHARED_INTERFACES),
     (''network'',                 required_argument, OPT_NETWORK),
     (''stats-interval'',          required_argument, OPT_STATS_INTERVAL),
     (''verbose'',                 no_argument,       Short (CHR ''v'')),
     (''version'',                 no_argument,       OPT_VERSION),
     (''help'',                    no_argument,       Short (CHR ''h''))]"

interpretation helper_table: option_table short_options long_options Short
  by unfold_locales (auto simp: long_options_def)

section \<open>Argument parsers\<close>

definition usage :: "int \<Rightarrow> ('s, 'a) prog" where
  "usage code = exit_with code"

definition parse_fd :: "string \<Rightarrow> ('s, int) prog" where
  "parse_fd arg =
     (case strtol arg of
        (value, end, errno) \<Rightarrow>
          if errno \<noteq> None then usage 1
          else if end \<noteq> [] \<or> value < 0 \<or> value > INT_MAX then usage 1
          else ret value)"

text \<open>\<open>sizeof(address.sun_path)\<close> is 104 on macOS.\<close>

definition sizeof_sun_path :: nat where "sizeof_sun_path = 104"

definition parse_socket :: "string \<Rightarrow> ('s, string option) prog" where
  "parse_socket arg =
     (let max_len = sizeof_sun_path - 1
      in if length arg > max_len then usage 1 else ret (Some arg))"

text \<open>\<open>UID_MAX\<close> of \<open>sys/syslimits.h\<close>.\<close>

definition UID_MAX :: int where "UID_MAX = 2147483647"

definition parse_id :: "string \<Rightarrow> ('s, 32 word) prog" where
  "parse_id arg =
     (case strtol arg of
        (value, end, errno) \<Rightarrow>
          if errno \<noteq> None then usage 1
          else if end \<noteq> [] \<or> value < 0 \<or> value > UID_MAX then usage 1
          else ret (word_of_int value))"

definition parse_stats_interval :: "string \<Rightarrow> ('s, int) prog" where
  "parse_stats_interval arg =
     (case strtol arg of
        (value, end, errno) \<Rightarrow>
          if errno \<noteq> None \<or> end \<noteq> [] \<or> value < 1 \<or> value > INT_MAX
          then exit_with EXIT_FAILURE
          else ret value)"

definition parse_interface_id :: "env \<Rightarrow> string \<Rightarrow> ('s, uuid) prog" where
  "parse_interface_id e arg =
     (case uuid_parse e arg of None \<Rightarrow> exit_with EXIT_FAILURE | Some u \<Rightarrow> ret u)"

definition parse_operation_mode :: "string \<Rightarrow> ('s, operating_mode option) prog" where
  "parse_operation_mode arg =
     (if arg = ''shared'' then ret (Some VMNET_SHARED_MODE)
      else if arg = ''bridged'' then ret (Some VMNET_BRIDGED_MODE)
      else if arg = ''host'' then ret (Some VMNET_HOST_MODE)
      else exit_with EXIT_FAILURE)"

definition parse_address :: "env \<Rightarrow> string \<Rightarrow> ('s, string option) prog" where
  "parse_address e arg =
     (if \<not> inet_aton e arg then exit_with EXIT_FAILURE else ret (Some arg))"

definition list_shared_interfaces :: "env \<Rightarrow> (cli, unit) prog" where
  "list_shared_interfaces e =
     (case shared_interface_list e of
        None \<Rightarrow> exit_with EXIT_FAILURE
      | Some names \<Rightarrow>
          seq (put_stdout (concat (map (\<lambda>n. n @ ''\<newline>'') names))) (exit_with 0))"

definition validate_network_options :: "options \<Rightarrow> (cli, unit) prog" where
  "validate_network_options opts =
     (let options_set = of_bool (opt_start_address opts \<noteq> None) +
            of_bool (opt_end_address opts \<noteq> None) + (of_bool (opt_subnet_mask opts \<noteq> None) :: int)
      in if options_set \<noteq> 0 \<and> options_set \<noteq> 3 then exit_with EXIT_FAILURE else ret ())"

section \<open>parse_options\<close>

text \<open>\<open>optarg\<close>, which \<open>getopt_long\<close> sets for every option that takes an argument.\<close>

definition optarg :: "string option \<Rightarrow> string" where
  "optarg a = (case a of Some x \<Rightarrow> x | None \<Rightarrow> [])"

text \<open>The \<open>switch\<close> of the loop.  \<open>optname\<close> is used in messages only.\<close>

fun handle_option ::
  "env \<Rightarrow> string option \<Rightarrow> helper_opt getopt_ret \<Rightarrow> (cli, unit) prog" where
  "handle_option e optname (Opt (Short c) a) =
     (if c = CHR ''h'' then usage 0
      else if c = CHR ''f'' then
        bind (parse_fd (optarg a)) (\<lambda>x. set_opt (\<lambda>p. p\<lparr>opt_fd := x\<rparr>))
      else if c = CHR ''s'' then
        bind (parse_socket (optarg a)) (\<lambda>x. set_opt (\<lambda>p. p\<lparr>opt_socket := x\<rparr>))
      else if c = CHR ''i'' then
        bind (parse_interface_id e (optarg a)) (\<lambda>x. set_opt (\<lambda>p. p\<lparr>opt_interface_id := x\<rparr>))
      else if c = CHR ''v'' then modify (\<lambda>s. s\<lparr>cli_verbose := True\<rparr>)
      else exit_with EXIT_FAILURE)"
| "handle_option e optname (Opt OPT_OPERATION_MODE a) =
     bind (parse_operation_mode (optarg a)) (\<lambda>x. set_opt (\<lambda>p. p\<lparr>opt_operation_mode := x\<rparr>))"
| "handle_option e optname (Opt OPT_SHARED_INTERFACE a) =
     set_opt (\<lambda>p. p\<lparr>opt_shared_interface := Some (optarg a)\<rparr>)"
| "handle_option e optname (Opt OPT_START_ADDRESS a) =
     bind (parse_address e (optarg a)) (\<lambda>x. set_opt (\<lambda>p. p\<lparr>opt_start_address := x\<rparr>))"
| "handle_option e optname (Opt OPT_END_ADDRESS a) =
     bind (parse_address e (optarg a)) (\<lambda>x. set_opt (\<lambda>p. p\<lparr>opt_end_address := x\<rparr>))"
| "handle_option e optname (Opt OPT_SUBNET_MASK a) =
     bind (parse_address e (optarg a)) (\<lambda>x. set_opt (\<lambda>p. p\<lparr>opt_subnet_mask := x\<rparr>))"
| "handle_option e optname (Opt OPT_ENABLE_TSO a) =
     set_opt (\<lambda>p. p\<lparr>opt_enable_tso := True\<rparr>)"
| "handle_option e optname (Opt OPT_ENABLE_CHECKSUM_OFFLOAD a) =
     set_opt (\<lambda>p. p\<lparr>opt_enable_checksum_offload := True\<rparr>)"
| "handle_option e optname (Opt OPT_ENABLE_ISOLATION a) =
     set_opt (\<lambda>p. p\<lparr>opt_enable_isolation := True\<rparr>)"
| "handle_option e optname (Opt OPT_LIST_SHARED_INTERFACES a) = list_shared_interfaces e"
| "handle_option e optname (Opt OPT_NETWORK a) =
     set_opt (\<lambda>p. p\<lparr>opt_network_name := Some (optarg a)\<rparr>)"
| "handle_option e optname (Opt OPT_STATS_INTERVAL a) =
     bind (parse_stats_interval (optarg a)) (\<lambda>x. set_opt (\<lambda>p. p\<lparr>opt_stats_interval := x\<rparr>))"
| "handle_option e optname (Opt OPT_VERSION a) =
     seq (put_stdout (''version: '' @ git_version e @ ''\<newline>commit: '' @ git_commit e @ ''\<newline>''))
       (exit_with 0)"
| "handle_option e optname Missing_argument = exit_with EXIT_FAILURE"
| "handle_option e optname Bad_option = exit_with EXIT_FAILURE"
| "handle_option e optname End_of_options = ret ()"

text \<open>The checks after the loop, in the order of the code.\<close>

definition check_conflicts :: "options \<Rightarrow> (cli, unit) prog" where
  "check_conflicts p =
     (if opt_operation_mode p \<noteq> None then exit_with EXIT_FAILURE
      else if opt_shared_interface p \<noteq> None then exit_with EXIT_FAILURE
      else if opt_start_address p \<noteq> None then exit_with EXIT_FAILURE
      else if opt_end_address p \<noteq> None then exit_with EXIT_FAILURE
      else if opt_subnet_mask p \<noteq> None then exit_with EXIT_FAILURE
      else ret ())"

definition check_mode :: "options \<Rightarrow> (cli, unit) prog" where
  "check_mode p =
     (case opt_operation_mode p of
        Some VMNET_SHARED_MODE \<Rightarrow> validate_network_options p
      | Some VMNET_HOST_MODE \<Rightarrow> validate_network_options p
      | Some VMNET_BRIDGED_MODE \<Rightarrow>
          if opt_shared_interface p = None then exit_with EXIT_FAILURE
          else if opt_enable_isolation p then exit_with EXIT_FAILURE
          else ret ()
      | None \<Rightarrow> ret ())"

definition apply_defaults :: "(cli, unit) prog" where
  "apply_defaults =
     bind (gets cli_options) (\<lambda>p.
       if opt_network_name p \<noteq> None then check_conflicts p
       else
         seq (whenp (opt_operation_mode p = None)
                (set_opt (\<lambda>p. p\<lparr>opt_operation_mode := Some VMNET_SHARED_MODE\<rparr>)))
             (bind (gets cli_options) check_mode))"

definition check_fd_socket :: "(cli, unit) prog" where
  "check_fd_socket =
     bind (gets cli_options) (\<lambda>p.
       if opt_fd p = -1 \<and> opt_socket p = None then usage 1
       else if opt_fd p \<noteq> -1 \<and> opt_socket p \<noteq> None then usage 1
       else ret ())"

definition resolve_uid :: "env \<Rightarrow> (cli, unit) prog" where
  "resolve_uid e =
     bind (gets cli_options) (\<lambda>p.
       whenp (opt_uid p = 0)
         (case getenv e ''SUDO_UID'' of
            Some sudo_uid \<Rightarrow> bind (parse_id sudo_uid) (\<lambda>x. set_opt (\<lambda>p. p\<lparr>opt_uid := x\<rparr>))
          | None \<Rightarrow> set_opt (\<lambda>p. p\<lparr>opt_uid := getuid e\<rparr>)))"

definition resolve_gid :: "env \<Rightarrow> (cli, unit) prog" where
  "resolve_gid e =
     bind (gets cli_options) (\<lambda>p.
       whenp (opt_gid p = 0)
         (case getenv e ''SUDO_GID'' of
            Some sudo_gid \<Rightarrow> bind (parse_id sudo_gid) (\<lambda>x. set_opt (\<lambda>p. p\<lparr>opt_gid := x\<rparr>))
          | None \<Rightarrow> set_opt (\<lambda>p. p\<lparr>opt_gid := getgid e\<rparr>)))"

text \<open>\<open>args\<close> is \<open>argv\<close> without the program's name: \<open>optind\<close> starts at 1.\<close>

definition parse_options :: "env \<Rightarrow> string list \<Rightarrow> (cli, unit) prog" where
  "parse_options e args =
     seq (getopt_loop short_options long_options Short (handle_option e) (argv_state args))
    (seq apply_defaults
    (seq check_fd_socket
    (seq (resolve_uid e) (resolve_gid e))))"

section \<open>What a parsed command line promises\<close>

text \<open>The two abstract choices a command line makes: the transport and the network.\<close>

datatype transport = Over_fd int | Over_socket string

datatype net_config =
    Broker_network string
  | Bridged_network string
  | Own_network operating_mode bool "(string \<times> string \<times> string) option"

definition abs_transport :: "options \<Rightarrow> transport option" where
  "abs_transport p =
     (case opt_socket p of
        None \<Rightarrow> if 0 \<le> opt_fd p then Some (Over_fd (opt_fd p)) else None
      | Some path \<Rightarrow> if opt_fd p = -1 then Some (Over_socket path) else None)"

definition abs_addresses :: "options \<Rightarrow> (string \<times> string \<times> string) option option" where
  "abs_addresses p =
     (case (opt_start_address p, opt_end_address p, opt_subnet_mask p) of
        (None, None, None) \<Rightarrow> Some None
      | (Some a, Some b, Some m) \<Rightarrow> Some (Some (a, b, m))
      | _ \<Rightarrow> None)"

definition abs_network :: "options \<Rightarrow> net_config option" where
  "abs_network p =
     (case opt_network_name p of
        Some n \<Rightarrow>
          if opt_operation_mode p = None \<and> opt_shared_interface p = None \<and>
             abs_addresses p = Some None
          then Some (Broker_network n) else None
      | None \<Rightarrow>
          (case opt_operation_mode p of
             None \<Rightarrow> None
           | Some VMNET_BRIDGED_MODE \<Rightarrow>
               if opt_enable_isolation p then None
               else map_option Bridged_network (opt_shared_interface p)
           | Some m \<Rightarrow> map_option (Own_network m (opt_enable_isolation p)) (abs_addresses p)))"

text \<open>The ranges every handled option keeps.\<close>

definition fields_ok :: "env \<Rightarrow> options \<Rightarrow> bool" where
  "fields_ok e p \<longleftrightarrow>
     (opt_fd p = -1 \<or> 0 \<le> opt_fd p \<and> opt_fd p \<le> INT_MAX) \<and>
     (\<forall>path. opt_socket p = Some path \<longrightarrow> length path < sizeof_sun_path) \<and>
     (\<forall>a. opt_start_address p = Some a \<longrightarrow> inet_aton e a) \<and>
     (\<forall>a. opt_end_address p = Some a \<longrightarrow> inet_aton e a) \<and>
     (\<forall>a. opt_subnet_mask p = Some a \<longrightarrow> inet_aton e a) \<and>
     0 \<le> opt_stats_interval p \<and> opt_stats_interval p \<le> INT_MAX"

text \<open>
  The contract of the number parsers: the whole argument is one decimal number, as \<open>strtol\<close>
  reads it, in the parser's range; anything else exits with a failure.
\<close>

locale number_parser =
  fixes parse :: "string \<Rightarrow> ('s, 'v) prog" and conv :: "int \<Rightarrow> 'v" and lo hi :: int
  assumes parse_eq: "parse arg s =
      (case strtol arg of (v, r, e) \<Rightarrow>
         if e = None \<and> r = [] \<and> lo \<le> v \<and> v \<le> hi then (Done (conv v), s) else (Exited 1, s))"
begin

lemma accepts:
  "parse arg s = (Done x, t) \<longleftrightarrow>
     t = s \<and> (\<exists>v. strtol arg = (v, [], None) \<and> lo \<le> v \<and> v \<le> hi \<and> x = conv v)"
  by (auto simp: parse_eq split: prod.splits if_splits)

lemma rejects:
  "parse arg s = (Exited c, t) \<longleftrightarrow>
     t = s \<and> c = 1 \<and> \<not> (\<exists>v. strtol arg = (v, [], None) \<and> lo \<le> v \<and> v \<le> hi)"
  by (auto simp: parse_eq split: prod.splits if_splits)

lemma reads_dec:
  "lo \<le> int n \<Longrightarrow> int n \<le> hi \<Longrightarrow> int n \<le> LONG_MAX \<Longrightarrow> parse (dec n) s = (Done (conv (int n)), s)"
  by (simp add: parse_eq)

end

interpretation fd_parser: number_parser parse_fd id 0 INT_MAX
  by unfold_locales
    (auto simp: parse_fd_def usage_def exit_with_def ret_def split: prod.splits)

interpretation id_parser: number_parser parse_id word_of_int 0 UID_MAX
  by unfold_locales
    (auto simp: parse_id_def usage_def exit_with_def ret_def split: prod.splits)

interpretation stats_parser: number_parser parse_stats_interval id 1 INT_MAX
  by unfold_locales
    (auto simp: parse_stats_interval_def exit_with_def ret_def split: prod.splits)

lemma parse_socket_ends:
  "parse_socket arg s = (Done x, t) \<longleftrightarrow> t = s \<and> x = Some arg \<and> length arg < sizeof_sun_path"
  "parse_socket arg s = (Exited c, t) \<longleftrightarrow> t = s \<and> c = 1 \<and> \<not> length arg < sizeof_sun_path"
  by (auto simp: parse_socket_def usage_def Let_def sizeof_sun_path_def)

lemma parse_interface_id_ends:
  "parse_interface_id e arg s = (Done u, t) \<longleftrightarrow> t = s \<and> uuid_parse e arg = Some u"
  "parse_interface_id e arg s = (Exited c, t) \<longleftrightarrow> t = s \<and> c = 1 \<and> uuid_parse e arg = None"
  by (auto simp: parse_interface_id_def split: option.splits)

lemma parse_operation_mode_ends:
  "parse_operation_mode arg s = (Done m, t) \<longleftrightarrow> t = s \<and> m \<noteq> None \<and> mode_name m = arg"
  "parse_operation_mode arg s = (Exited c, t) \<longleftrightarrow>
     t = s \<and> c = 1 \<and> arg \<notin> {''shared'', ''bridged'', ''host''}"
  by (cases m rule: mode_name.cases; auto simp: parse_operation_mode_def)
    (auto simp: parse_operation_mode_def)

lemma parse_address_ends:
  "parse_address e arg s = (Done x, t) \<longleftrightarrow> t = s \<and> x = Some arg \<and> inet_aton e arg"
  "parse_address e arg s = (Exited c, t) \<longleftrightarrow> t = s \<and> c = 1 \<and> \<not> inet_aton e arg"
  by (auto simp: parse_address_def)

lemma set_opt_ends:
  "set_opt f s = (Done y, t) \<longleftrightarrow> t = s\<lparr>cli_options := f (cli_options s)\<rparr>"
  "set_opt f s \<noteq> (Exited c, t)"
  by (auto simp: set_opt_def)

lemma usage_ends:
  "usage n s \<noteq> (Done y, t)" "usage n s = (Exited c, t) \<longleftrightarrow> c = n \<and> t = s"
  by (auto simp: usage_def)

lemma put_stdout_ends:
  "put_stdout x s = (Done y, t) \<longleftrightarrow> t = s\<lparr>cli_stdout := cli_stdout s @ x\<rparr>"
  "put_stdout x s \<noteq> (Exited c, t)"
  by (auto simp: put_stdout_def)

lemma list_shared_interfaces_ends:
  "list_shared_interfaces e s \<noteq> (Done y, t)"
  "list_shared_interfaces e s = (Exited c, t) \<Longrightarrow> c = 0 \<or> c = 1"
  by (auto simp: list_shared_interfaces_def prog_ends put_stdout_ends split: option.splits)

lemmas option_ends =
  fd_parser.accepts fd_parser.rejects id_parser.accepts id_parser.rejects
  stats_parser.accepts stats_parser.rejects parse_socket_ends parse_interface_id_ends
  parse_operation_mode_ends parse_address_ends set_opt_ends put_stdout_ends usage_ends
  list_shared_interfaces_ends(1)

lemma fields_ok_init: "fields_ok e options_init"
  by (simp add: fields_ok_def options_init_def INT_MAX_def)

lemma handle_option_fields:
  "keeps (\<lambda>c. fields_ok e (cli_options c)) (handle_option e)"
proof (rule keepsI)
  fix n v s s'
  assume "fields_ok e (cli_options s)" and "handle_option e n v s = (Done (), s')"
  then show "fields_ok e (cli_options s')"
    by (cases "(e, n, v)" rule: handle_option.cases)
      (auto simp: prog_ends option_ends fields_ok_def split: if_splits)
qed

lemma handle_option_ids:
  "keeps (\<lambda>c. opt_uid (cli_options c) = u \<and> opt_gid (cli_options c) = g) (handle_option e)"
proof (rule keepsI)
  fix n v s s'
  assume "opt_uid (cli_options s) = u \<and> opt_gid (cli_options s) = g"
    and "handle_option e n v s = (Done (), s')"
  then show "opt_uid (cli_options s') = u \<and> opt_gid (cli_options s') = g"
    by (cases "(e, n, v)" rule: handle_option.cases)
      (auto simp: prog_ends option_ends split: if_splits)
qed

text \<open>The checks after the loop decide exactly the two abstractions.\<close>

definition with_default_mode :: "options \<Rightarrow> options" where
  "with_default_mode p =
     (if opt_network_name p = None \<and> opt_operation_mode p = None
      then p\<lparr>opt_operation_mode := Some VMNET_SHARED_MODE\<rparr> else p)"

lemma validate_network_options_ends:
  "validate_network_options p s = (Done (), t) \<longleftrightarrow> t = s \<and> abs_addresses p \<noteq> None"
  "validate_network_options p s = (Exited c, t) \<longleftrightarrow> t = s \<and> c = 1 \<and> abs_addresses p = None"
  by (auto simp: validate_network_options_def abs_addresses_def Let_def split: option.splits)

lemma abs_addresses_none:
  "abs_addresses p = Some None \<longleftrightarrow>
     opt_start_address p = None \<and> opt_end_address p = None \<and> opt_subnet_mask p = None"
  by (auto simp: abs_addresses_def split: option.splits)

lemma abs_network_broker:
  assumes "opt_network_name p = Some n"
  shows "abs_network p = None \<longleftrightarrow>
     \<not> (opt_operation_mode p = None \<and> opt_shared_interface p = None \<and>
        opt_start_address p = None \<and> opt_end_address p = None \<and> opt_subnet_mask p = None)"
  using assms by (simp add: abs_network_def abs_addresses_none)

lemma abs_network_mode:
  assumes "opt_network_name p = None" and "opt_operation_mode p = Some m"
  shows "abs_network p = None \<longleftrightarrow>
     (if m = VMNET_BRIDGED_MODE then opt_enable_isolation p \<or> opt_shared_interface p = None
      else abs_addresses p = None)"
  using assms by (cases m) (simp_all add: abs_network_def)

lemma check_conflicts_ends:
  assumes "opt_network_name p = Some n"
  shows "check_conflicts p s = (Done (), t) \<longleftrightarrow> t = s \<and> abs_network p \<noteq> None"
    and "check_conflicts p s = (Exited c, t) \<longleftrightarrow> t = s \<and> c = 1 \<and> abs_network p = None"
  unfolding check_conflicts_def abs_network_broker[OF assms] by auto

lemma check_mode_ends:
  assumes "opt_network_name p = None" and "opt_operation_mode p = Some m"
  shows "check_mode p s = (Done (), t) \<longleftrightarrow> t = s \<and> abs_network p \<noteq> None"
    and "check_mode p s = (Exited c, t) \<longleftrightarrow> t = s \<and> c = 1 \<and> abs_network p = None"
  unfolding check_mode_def abs_network_mode[OF assms] assms(2)
  by (cases m; auto simp: validate_network_options_ends)+

lemma default_mode_simps:
  "opt_network_name (with_default_mode p) = opt_network_name p"
  "opt_network_name p = Some n \<Longrightarrow> with_default_mode p = p"
  "opt_network_name p = None \<Longrightarrow> \<exists>m. opt_operation_mode (with_default_mode p) = Some m"
  by (auto simp: with_default_mode_def)

lemma default_mode_step:
  assumes "opt_network_name (cli_options s) = None"
  shows "whenp (opt_operation_mode (cli_options s) = None)
      (set_opt (\<lambda>p. p\<lparr>opt_operation_mode := Some VMNET_SHARED_MODE\<rparr>)) s =
    (Done (), s\<lparr>cli_options := with_default_mode (cli_options s)\<rparr>)"
  using assms by (simp add: prog_simps set_opt_def with_default_mode_def)

lemma apply_defaults_ends:
  fixes s :: cli
  defines "u \<equiv> s\<lparr>cli_options := with_default_mode (cli_options s)\<rparr>"
  shows "apply_defaults s = (Done (), t) \<longleftrightarrow> t = u \<and> abs_network (cli_options u) \<noteq> None"
    and "apply_defaults s = (Exited c, t) \<longleftrightarrow>
      t = u \<and> c = 1 \<and> abs_network (cli_options u) = None"
proof -
  have "apply_defaults s =
      (if opt_network_name (cli_options s) \<noteq> None then check_conflicts (cli_options s) s
       else check_mode (cli_options u) u)"
    by (simp add: apply_defaults_def bind_def gets_def seq_def default_mode_step u_def)
  then show "apply_defaults s = (Done (), t) \<longleftrightarrow> t = u \<and> abs_network (cli_options u) \<noteq> None"
    and "apply_defaults s = (Exited c, t) \<longleftrightarrow>
      t = u \<and> c = 1 \<and> abs_network (cli_options u) = None"
    using default_mode_simps[of "cli_options s"]
    by (cases "opt_network_name (cli_options s)";
        auto simp: u_def check_conflicts_ends check_mode_ends)+
qed

lemma check_fd_socket_ends:
  assumes "opt_fd (cli_options s) = -1 \<or> 0 \<le> opt_fd (cli_options s)"
  shows "check_fd_socket s = (Done (), t) \<longleftrightarrow> t = s \<and> abs_transport (cli_options s) \<noteq> None"
    and "check_fd_socket s = (Exited c, t) \<longleftrightarrow>
      t = s \<and> c = 1 \<and> abs_transport (cli_options s) = None"
  using assms
  by (auto simp: check_fd_socket_def prog_ends usage_ends abs_transport_def split: option.splits)

text \<open>The user to drop to: \<open>SUDO_UID\<close> when it is set, else the real user; \<open>None\<close> if invalid.\<close>

definition env_id :: "string option \<Rightarrow> 32 word \<Rightarrow> 32 word option" where
  "env_id var real =
     (case var of
        None \<Rightarrow> Some real
      | Some x \<Rightarrow>
          (case strtol x of (v, r, e) \<Rightarrow>
             if e = None \<and> r = [] \<and> 0 \<le> v \<and> v \<le> UID_MAX then Some (word_of_int v) else None))"

lemma resolve_uid_ends:
  assumes "opt_uid (cli_options s) = 0"
  shows "resolve_uid e s = (Done (), t) \<longleftrightarrow>
      (\<exists>u. env_id (getenv e ''SUDO_UID'') (getuid e) = Some u \<and>
           t = s\<lparr>cli_options := (cli_options s)\<lparr>opt_uid := u\<rparr>\<rparr>)"
    and "resolve_uid e s = (Exited c, t) \<longleftrightarrow>
      t = s \<and> c = 1 \<and> env_id (getenv e ''SUDO_UID'') (getuid e) = None"
  using assms
  by (auto simp: resolve_uid_def prog_ends option_ends env_id_def
      split: option.splits prod.splits if_splits)

lemma resolve_gid_ends:
  assumes "opt_gid (cli_options s) = 0"
  shows "resolve_gid e s = (Done (), t) \<longleftrightarrow>
      (\<exists>u. env_id (getenv e ''SUDO_GID'') (getgid e) = Some u \<and>
           t = s\<lparr>cli_options := (cli_options s)\<lparr>opt_gid := u\<rparr>\<rparr>)"
    and "resolve_gid e s = (Exited c, t) \<longleftrightarrow>
      t = s \<and> c = 1 \<and> env_id (getenv e ''SUDO_GID'') (getgid e) = None"
  using assms
  by (auto simp: resolve_gid_def prog_ends option_ends env_id_def
      split: option.splits prod.splits if_splits)

lemma abs_transport_cong:
  "opt_fd p = opt_fd q \<Longrightarrow> opt_socket p = opt_socket q \<Longrightarrow> abs_transport p = abs_transport q"
  by (simp add: abs_transport_def cong: option.case_cong)

lemma abs_network_cong:
  "opt_network_name p = opt_network_name q \<Longrightarrow> opt_operation_mode p = opt_operation_mode q \<Longrightarrow>
   opt_shared_interface p = opt_shared_interface q \<Longrightarrow>
   opt_enable_isolation p = opt_enable_isolation q \<Longrightarrow>
   opt_start_address p = opt_start_address q \<Longrightarrow> opt_end_address p = opt_end_address q \<Longrightarrow>
   opt_subnet_mask p = opt_subnet_mask q \<Longrightarrow> abs_network p = abs_network q"
  by (simp add: abs_network_def abs_addresses_def cong: option.case_cong operating_mode.case_cong)

lemma abs_transport_frame [simp]:
  "abs_transport (p\<lparr>opt_uid := u\<rparr>) = abs_transport p"
  "abs_transport (p\<lparr>opt_gid := g\<rparr>) = abs_transport p"
  "abs_transport (with_default_mode p) = abs_transport p"
  by (rule abs_transport_cong; simp add: with_default_mode_def)+

lemma abs_network_frame [simp]:
  "abs_network (p\<lparr>opt_uid := u\<rparr>) = abs_network p"
  "abs_network (p\<lparr>opt_gid := g\<rparr>) = abs_network p"
  by (rule abs_network_cong; simp)+

lemma default_mode_frame [simp]:
  "opt_uid (with_default_mode p) = opt_uid p"
  "opt_gid (with_default_mode p) = opt_gid p"
  "opt_fd (with_default_mode p) = opt_fd p"
  by (simp_all add: with_default_mode_def)

lemma fields_ok_frame [simp]:
  "fields_ok e (p\<lparr>opt_uid := u\<rparr>) = fields_ok e p"
  "fields_ok e (p\<lparr>opt_gid := g\<rparr>) = fields_ok e p"
  "fields_ok e (with_default_mode p) = fields_ok e p"
  by (simp_all add: fields_ok_def with_default_mode_def)

lemmas fields_ok_fd = fields_ok_def[THEN iffD1, THEN conjunct1]

text \<open>After the loop: what \<open>parse_options\<close> makes of the options \<open>p\<close> the loop gathered.\<close>

definition finish_options :: "env \<Rightarrow> options \<Rightarrow> options option" where
  "finish_options e p =
     (case (env_id (getenv e ''SUDO_UID'') (getuid e), env_id (getenv e ''SUDO_GID'') (getgid e)) of
        (Some u, Some g) \<Rightarrow>
          if abs_network (with_default_mode p) \<noteq> None \<and> abs_transport p \<noteq> None
          then Some ((with_default_mode p)\<lparr>opt_uid := u, opt_gid := g\<rparr>) else None
      | _ \<Rightarrow> None)"

lemma after_loop_ends:
  fixes s :: cli
  assumes "fields_ok e (cli_options s)"
    and "opt_uid (cli_options s) = 0" and "opt_gid (cli_options s) = 0"
  defines "rest \<equiv> seq apply_defaults (seq check_fd_socket (seq (resolve_uid e) (resolve_gid e)))"
  shows "rest s = (Done (), t) \<longleftrightarrow>
      (\<exists>q. finish_options e (cli_options s) = Some q \<and> t = s\<lparr>cli_options := q\<rparr>)"
    and "rest s = (Exited c, t) \<Longrightarrow> c = 1 \<and> finish_options e (cli_options s) = None"
  using assms(2,3) fields_ok_fd[OF assms(1)] unfolding rest_def
  by (auto simp: prog_ends apply_defaults_ends check_fd_socket_ends resolve_uid_ends
      resolve_gid_ends finish_options_def split: option.splits)

lemma loop_fields:
  assumes "getopt_loop short_options long_options Short (handle_option e) st s = (Done r, t)"
    and "fields_ok e (cli_options s)"
    and "opt_uid (cli_options s) = 0" and "opt_gid (cli_options s) = 0"
  shows "fields_ok e (cli_options t)" and "opt_uid (cli_options t) = 0"
    and "opt_gid (cli_options t) = 0"
  using getopt_loop_invariant[OF assms(1) handle_option_fields assms(2)]
    getopt_loop_invariant[OF assms(1) handle_option_ids[of 0 0]] assms(3,4) by simp_all

lemma init_fields [simp]:
  "fields_ok e (cli_options cli_init)" "opt_uid (cli_options cli_init) = 0"
  "opt_gid (cli_options cli_init) = 0"
  by (simp_all add: cli_init_def fields_ok_init) (simp_all add: options_init_def)

lemma parse_options_Done:
  "parse_options e args cli_init = (Done (), c) \<longleftrightarrow>
     (\<exists>r t q. getopt_loop short_options long_options Short (handle_option e)
                (argv_state args) cli_init = (Done r, t) \<and>
        finish_options e (cli_options t) = Some q \<and> c = t\<lparr>cli_options := q\<rparr>)"
proof -
  have "seq apply_defaults (seq check_fd_socket (seq (resolve_uid e) (resolve_gid e))) t =
      (Done (), c) \<longleftrightarrow>
      (\<exists>q. finish_options e (cli_options t) = Some q \<and> c = t\<lparr>cli_options := q\<rparr>)"
    if "getopt_loop short_options long_options Short (handle_option e)
          (argv_state args) cli_init = (Done r, t)" for r t
    using loop_fields[OF that] by (intro after_loop_ends(1)) simp_all
  then show ?thesis
    unfolding parse_options_def seq_Done[of "getopt_loop _ _ _ _ _"] by metis
qed

lemma finish_options_ok:
  assumes "finish_options e p = Some q" and "fields_ok e p"
  shows "abs_transport q \<noteq> None" and "abs_network q \<noteq> None" and "fields_ok e q"
  using assms by (auto simp: finish_options_def split: option.splits if_splits)

lemma finish_options_ids:
  assumes "finish_options e p = Some q"
  shows "env_id (getenv e ''SUDO_UID'') (getuid e) = Some (opt_uid q)"
    and "env_id (getenv e ''SUDO_GID'') (getgid e) = Some (opt_gid q)"
  using assms by (auto simp: finish_options_def split: option.splits if_splits)

lemma parsed_options:
  assumes "parse_options e args cli_init = (Done (), c)"
  shows "abs_transport (cli_options c) \<noteq> None \<and> abs_network (cli_options c) \<noteq> None \<and>
    fields_ok e (cli_options c)"
proof -
  from assms obtain r t q
    where l: "getopt_loop short_options long_options Short (handle_option e)
        (argv_state args) cli_init = (Done r, t)"
      and f: "finish_options e (cli_options t) = Some q" and c: "c = t\<lparr>cli_options := q\<rparr>"
    unfolding parse_options_Done by blast
  have "fields_ok e (cli_options t)" using loop_fields(1)[OF l] by simp
  with finish_options_ok[OF f] show ?thesis by (simp add: c)
qed

text \<open>
  C14: A command line that is accepted names exactly one transport and exactly one
  network: one of a descriptor and a socket path that fits \<open>sun_path\<close>; and either a broker
  network with no other network option, a bridged network with its interface and no isolation,
  or a shared or host network with all three addresses or none.  Every numeric field is in its
  range and every address is one \<open>inet_aton\<close> accepts.
\<close>

theorem parse_options_valid:
  assumes "parse_options e args cli_init = (Done (), c)"
  shows "abs_transport (cli_options c) \<noteq> None \<and> abs_network (cli_options c) \<noteq> None \<and>
    fields_ok e (cli_options c)"
  using assms by (rule parsed_options)

text \<open>The environment of the examples: addresses of digits and dots, UUIDs of 36 characters.\<close>

definition sample_env :: env where
  "sample_env = \<lparr>inet_aton = list_all (\<lambda>c. isdigit c \<or> c = CHR ''.''),
     uuid_parse = (\<lambda>s. if length s = 36 then Some (replicate 16 1) else None),
     getenv = (\<lambda>_. None), getuid = 501, getgid = 20,
     shared_interface_list = Some [''en0'', ''en10''],
     git_version = ''v0.12.0'', git_commit = ''abc''\<rparr>"

theorem parse_options_valid_witness:
  "\<exists>c. parse_options sample_env [''--socket'', ''/tmp/s'', ''--operation-mode=host''] cli_init =
     (Done (), c) \<and> abs_transport (cli_options c) = Some (Over_socket ''/tmp/s'') \<and>
     fields_ok sample_env (cli_options c)"
proof -
  let ?r = "parse_options sample_env [''--socket'', ''/tmp/s'', ''--operation-mode=host''] cli_init"
  have "fst ?r = Done ()" by code_simp
  then have r: "?r = (Done (), snd ?r)" by (metis prod.collapse)
  have "abs_transport (cli_options (snd ?r)) = Some (Over_socket ''/tmp/s'')" by code_simp
  with r parse_options_valid[OF r] show ?thesis by blast
qed

lemma parsers_end [simp]:
  "ends (parse_fd x)" "ends (parse_id x)" "ends (parse_stats_interval x)" "ends (parse_socket x)"
  "ends (parse_interface_id e x)" "ends (parse_operation_mode x)" "ends (parse_address e x)"
  "ends (set_opt f)" "ends (put_stdout x)" "ends (usage n)"
  by (auto simp: parse_fd_def parse_id_def parse_stats_interval_def parse_socket_def
      parse_interface_id_def parse_operation_mode_def parse_address_def set_opt_def
      put_stdout_def usage_def Let_def split: prod.split)

lemma list_shared_interfaces_end [simp]: "ends (list_shared_interfaces e)"
  unfolding list_shared_interfaces_def by (intro ends_option ends_seq) simp_all

lemma handle_option_ends: "ends (handle_option e n v)"
  by (cases "(e, n, v)" rule: handle_option.cases) auto

lemma after_loop_end:
  "ends (seq apply_defaults (seq check_fd_socket (seq (resolve_uid e) (resolve_gid e))))"
  unfolding apply_defaults_def check_fd_socket_def resolve_uid_def resolve_gid_def
    check_conflicts_def check_mode_def validate_network_options_def Let_def
  by (intro ends_seq ends_bind ends_whenp ends_if ends_option parsers_end ends_basic)
    (auto split: operating_mode.split)

lemma ends_parse_options: "ends (parse_options e args)"
  unfolding parse_options_def
  by (intro ends_seq[OF ends_getopt_loop after_loop_end] handle_option_ends)

subsection \<open>A reference for the command line\<close>

text \<open>The options of a command line, read but not handled.\<close>

definition command_line :: "string list \<Rightarrow> helper_opt getopt_ret list" where
  "command_line args = getopt_results short_options long_options Short (argv_state args)"

definition number_in :: "int \<Rightarrow> int \<Rightarrow> string \<Rightarrow> bool" where
  "number_in lo hi x \<longleftrightarrow> (\<exists>n \<in> {lo..hi}. strtol x = (n, [], None))"

text \<open>Which options are accepted, for their value alone.\<close>

fun option_ok :: "env \<Rightarrow> helper_opt getopt_ret \<Rightarrow> bool" where
  "option_ok e (Opt (Short c) a) \<longleftrightarrow>
     c = CHR ''v'' \<or> c = CHR ''f'' \<and> number_in 0 INT_MAX (optarg a) \<or>
     c = CHR ''s'' \<and> length (optarg a) < sizeof_sun_path \<or>
     c = CHR ''i'' \<and> uuid_parse e (optarg a) \<noteq> None"
| "option_ok e (Opt OPT_OPERATION_MODE a) \<longleftrightarrow> optarg a \<in> {''shared'', ''bridged'', ''host''}"
| "option_ok e (Opt OPT_START_ADDRESS a) \<longleftrightarrow> inet_aton e (optarg a)"
| "option_ok e (Opt OPT_END_ADDRESS a) \<longleftrightarrow> inet_aton e (optarg a)"
| "option_ok e (Opt OPT_SUBNET_MASK a) \<longleftrightarrow> inet_aton e (optarg a)"
| "option_ok e (Opt OPT_STATS_INTERVAL a) \<longleftrightarrow> number_in 1 INT_MAX (optarg a)"
| "option_ok e (Opt OPT_LIST_SHARED_INTERFACES a) \<longleftrightarrow> False"
| "option_ok e (Opt OPT_VERSION a) \<longleftrightarrow> False"
| "option_ok e (Opt v a) \<longleftrightarrow> True"
| "option_ok e v \<longleftrightarrow> False"

text \<open>The options that print something and end the process with success.\<close>

fun informs :: "env \<Rightarrow> helper_opt getopt_ret \<Rightarrow> bool" where
  "informs e (Opt (Short c) a) \<longleftrightarrow> c = CHR ''h''"
| "informs e (Opt OPT_LIST_SHARED_INTERFACES a) \<longleftrightarrow> shared_interface_list e \<noteq> None"
| "informs e (Opt OPT_VERSION a) \<longleftrightarrow> True"
| "informs e v \<longleftrightarrow> False"

definition mode_named :: "string \<Rightarrow> operating_mode option" where
  "mode_named x = map_of [(''shared'', VMNET_SHARED_MODE), (''bridged'', VMNET_BRIDGED_MODE), (''host'', VMNET_HOST_MODE)] x"

text \<open>What an accepted option sets.\<close>

fun set_from :: "env \<Rightarrow> helper_opt getopt_ret \<Rightarrow> options \<Rightarrow> options" where
  "set_from e (Opt (Short c) a) p =
     (if c = CHR ''f'' then p\<lparr>opt_fd := fst (strtol (optarg a))\<rparr>
      else if c = CHR ''s'' then p\<lparr>opt_socket := Some (optarg a)\<rparr>
      else if c = CHR ''i'' then p\<lparr>opt_interface_id := the (uuid_parse e (optarg a))\<rparr> else p)"
| "set_from e (Opt OPT_OPERATION_MODE a) p = p\<lparr>opt_operation_mode := mode_named (optarg a)\<rparr>"
| "set_from e (Opt OPT_SHARED_INTERFACE a) p = p\<lparr>opt_shared_interface := Some (optarg a)\<rparr>"
| "set_from e (Opt OPT_START_ADDRESS a) p = p\<lparr>opt_start_address := Some (optarg a)\<rparr>"
| "set_from e (Opt OPT_END_ADDRESS a) p = p\<lparr>opt_end_address := Some (optarg a)\<rparr>"
| "set_from e (Opt OPT_SUBNET_MASK a) p = p\<lparr>opt_subnet_mask := Some (optarg a)\<rparr>"
| "set_from e (Opt OPT_ENABLE_TSO a) p = p\<lparr>opt_enable_tso := True\<rparr>"
| "set_from e (Opt OPT_ENABLE_CHECKSUM_OFFLOAD a) p = p\<lparr>opt_enable_checksum_offload := True\<rparr>"
| "set_from e (Opt OPT_ENABLE_ISOLATION a) p = p\<lparr>opt_enable_isolation := True\<rparr>"
| "set_from e (Opt OPT_NETWORK a) p = p\<lparr>opt_network_name := Some (optarg a)\<rparr>"
| "set_from e (Opt OPT_STATS_INTERVAL a) p = p\<lparr>opt_stats_interval := fst (strtol (optarg a))\<rparr>"
| "set_from e v p = p"

lemma number_in_iff: "number_in lo hi x \<longleftrightarrow> (\<exists>n. strtol x = (n, [], None) \<and> lo \<le> n \<and> n \<le> hi)"
  by (auto simp: number_in_def)

lemma handle_option_ok:
  assumes "option_ok e v" and "v \<noteq> End_of_options"
  shows "\<exists>t. handle_option e n v s = (Done (), t) \<and> cli_options t = set_from e v (cli_options s)"
  using assms
  by (cases "(e, n, v)" rule: handle_option.cases)
     (auto simp: prog_ends option_ends number_in_iff mode_named_def parse_operation_mode_def split: if_splits)

lemma handle_option_bad:
  assumes "\<not> option_ok e v" and "v \<noteq> End_of_options"
  shows "\<exists>t. handle_option e n v s = (Exited (if informs e v then 0 else 1), t)"
  using assms
  by (cases "(e, n, v)" rule: handle_option.cases)
     (auto simp: prog_ends option_ends number_in_iff parse_operation_mode_def list_shared_interfaces_def
       split: option.splits)

lemma options_outcome:
  "case find (\<lambda>v. \<not> option_ok e v) (command_line args) of
     Some v \<Rightarrow> \<exists>c. parse_options e args cli_init = (Exited (if informs e v then 0 else 1), c)
   | None \<Rightarrow>
       (case finish_options e (fold (set_from e) (command_line args) options_init) of
          None \<Rightarrow> \<exists>c. parse_options e args cli_init = (Exited 1, c)
        | Some p \<Rightarrow> \<exists>c. parse_options e args cli_init = (Done (), c) \<and> cli_options c = p)"
proof -
  let ?loop = "getopt_loop short_options long_options Short (handle_option e) (argv_state args)"
  let ?rest = "seq apply_defaults (seq check_fd_socket (seq (resolve_uid e) (resolve_gid e)))"
  note loop = getopt_loop_outcome[of "option_ok e" "handle_option e" cli_options "set_from e"
    "\<lambda>v. if informs e v then 0 else 1" short_options long_options Short "argv_state args" cli_init,
    OF handle_option_ok handle_option_bad, folded command_line_def]
  show ?thesis
  proof (cases "find (\<lambda>v. \<not> option_ok e v) (command_line args)")
    case (Some v)
    then show ?thesis using loop by (auto simp: parse_options_def seq_Exited[of ?loop])
  next
    case None
    have "cli_options cli_init = options_init" by (simp add: cli_init_def)
    then obtain r t where l: "?loop cli_init = (Done r, t)"
      and t: "cli_options t = fold (set_from e) (command_line args) options_init"
      using loop None by auto
    have run: "parse_options e args cli_init = ?rest t"
      by (simp add: parse_options_def seq_def[of ?loop] bind_def[of ?loop] l)
    have f: "fields_ok e (cli_options t)" "opt_uid (cli_options t) = 0" "opt_gid (cli_options t) = 0"
      using loop_fields[OF l] by simp_all
    note ends = after_loop_ends[OF f]
    consider c where "?rest t = (Done (), c)" | x c where "?rest t = (Exited x, c)"
      using after_loop_end unfolding ends_def by (metis old.unit.exhaust)
    then show ?thesis
    proof cases
      case 1
      with ends(1) None run t show ?thesis by (auto split: option.splits)
    next
      case 2
      with ends(2) None run t show ?thesis by (auto split: option.splits)
    qed
  qed
qed

lemma parse_options_exit:
  assumes "parse_options e args cli_init = (Exited x, c)" shows "x = 0 \<or> x = 1"
  using options_outcome[of e args] assms by (auto split: option.splits if_splits)

text \<open>
  C33: The parser against a reference that reads the command line first and judges it then: the first
  option that is not accepted decides, with exit status 0 for \<open>--help\<close>, \<open>--version\<close> and a list of
  interfaces and 1 for everything else; when all are accepted, the options they set in order, with
  the default mode and the identity, are returned, or the process exits with status 1 when they
  contradict each other.  So parsing always ends.
\<close>

theorem parse_options_ends:
  "case find (\<lambda>v. \<not> option_ok e v) (command_line args) of
     Some v \<Rightarrow> \<exists>c. parse_options e args cli_init = (Exited (if informs e v then 0 else 1), c)
   | None \<Rightarrow>
       (case finish_options e (fold (set_from e) (command_line args) options_init) of
          None \<Rightarrow> \<exists>c. parse_options e args cli_init = (Exited 1, c)
        | Some p \<Rightarrow> \<exists>c. parse_options e args cli_init = (Done (), c) \<and> cli_options c = p)"
  by (rule options_outcome)

text \<open>
  C34: The identity to drop to: \<open>SUDO_UID\<close> and \<open>SUDO_GID\<close> when they are set, the real
  user and group otherwise.  A value of these variables that is not a decimal number in
  \<open>[0, UID_MAX]\<close> is refused: the command line is not accepted.
\<close>

theorem parse_options_identity:
  assumes "parse_options e args cli_init = (Done (), c)"
  shows "env_id (getenv e ''SUDO_UID'') (getuid e) = Some (opt_uid (cli_options c)) \<and>
    env_id (getenv e ''SUDO_GID'') (getgid e) = Some (opt_gid (cli_options c))"
  using assms unfolding parse_options_Done by (auto dest: finish_options_ids)

theorem parse_options_identity_witness:
  "\<exists>c. parse_options (sample_env\<lparr>getenv := Map.empty(''SUDO_UID'' \<mapsto> ''502'')\<rparr>)
     [''--fd=3''] cli_init = (Done (), c) \<and> opt_uid (cli_options c) = 502 \<and>
     opt_gid (cli_options c) = 20"
proof -
  let ?e = "sample_env\<lparr>getenv := Map.empty(''SUDO_UID'' \<mapsto> ''502'')\<rparr>"
  let ?r = "parse_options ?e [''--fd=3''] cli_init"
  have "fst ?r = Done ()" by code_simp
  then have r: "?r = (Done (), snd ?r)" by (metis prod.collapse)
  have "env_id (getenv ?e ''SUDO_UID'') (getuid ?e) = Some 502"
    "env_id (getenv ?e ''SUDO_GID'') (getgid ?e) = Some 20" by code_simp+
  with r parse_options_identity[OF r] show ?thesis by auto
qed

end
