(* ===== verification/Os_Version.thy ===== *)
theory Os_Version
  imports Libc
begin

text \<open>
  \<open>programs/os.c\<close>: the macOS product version (\<open>kern.osproductversion\<close>, for example
  \<open>15.4.1\<close>) read into its three numbers.  The answer of \<open>sysctlbyname\<close> is a parameter: an
  error, or the string in the 20-byte buffer.  Versions are ordered lexicographically.
\<close>

record os_version =
  major :: int
  minor :: int
  point :: int

text \<open>The pointer \<open>numbers[i]\<close>, written.\<close>

fun set_number :: "nat \<Rightarrow> int \<Rightarrow> os_version \<Rightarrow> os_version" where
  "set_number 0 x v = v\<lparr>major := x\<rparr>"
| "set_number (Suc 0) x v = v\<lparr>minor := x\<rparr>"
| "set_number (Suc (Suc 0)) x v = v\<lparr>point := x\<rparr>"
| "set_number _ x v = v"

text \<open>The loop over the indices that are left, with \<open>s\<close> the unread text.\<close>

fun parse_numbers :: "nat list \<Rightarrow> string option \<Rightarrow> os_version \<Rightarrow> os_version" where
  "parse_numbers [] s v = v"
| "parse_numbers (i # is) s v =
     (case strsep (CHR ''.'') s of
        (None, _) \<Rightarrow> v
      | (Some p, s') \<Rightarrow> parse_numbers is s' (set_number i (atoi p) v))"

definition os_product_version :: "errno + string \<Rightarrow> os_version \<Rightarrow> int \<times> os_version" where
  "os_product_version sysctl v =
     (case sysctl of
        Inl _ \<Rightarrow> (-1, v)
      | Inr buf \<Rightarrow> (0, parse_numbers [0, 1, 2] (Some buf) v))"

definition os_version_zero :: os_version where
  "os_version_zero = \<lparr>major = 0, minor = 0, point = 0\<rparr>"

text \<open>The order of versions: the numbers from left to right.\<close>

instantiation os_version_ext :: (linorder) linorder
begin

definition less_eq_os_version_ext :: "'a os_version_ext \<Rightarrow> 'a os_version_ext \<Rightarrow> bool" where
  "less_eq_os_version_ext v w \<longleftrightarrow>
     major v < major w \<or> major v = major w \<and>
     (minor v < minor w \<or> minor v = minor w \<and>
     (point v < point w \<or> point v = point w \<and> more v \<le> more w))"

definition less_os_version_ext :: "'a os_version_ext \<Rightarrow> 'a os_version_ext \<Rightarrow> bool" where
  "less_os_version_ext v w \<longleftrightarrow> v \<le> w \<and> \<not> w \<le> (v :: 'a os_version_ext)"

instance
proof
  fix u v w :: "'a os_version_ext"
  show "v < w \<longleftrightarrow> v \<le> w \<and> \<not> w \<le> v" by (rule less_os_version_ext_def)
  show "v \<le> v" by (simp add: less_eq_os_version_ext_def)
  show "u \<le> v \<Longrightarrow> v \<le> w \<Longrightarrow> u \<le> w" by (auto simp: less_eq_os_version_ext_def)
  show "v \<le> w \<Longrightarrow> w \<le> v \<Longrightarrow> v = w" by (auto simp: less_eq_os_version_ext_def)
  show "v \<le> w \<or> w \<le> v" by (auto simp: less_eq_os_version_ext_def)
qed

end

section \<open>Properties\<close>

lemma product_version_3:
  assumes "int a \<le> INT_MAX" and "int b \<le> INT_MAX" and "int c \<le> INT_MAX"
  shows "os_product_version (Inr (dec a @ ''.'' @ dec b @ ''.'' @ dec c)) v =
     (0, v\<lparr>major := int a, minor := int b, point := int c\<rparr>)"
  using assms by (simp add: os_product_version_def numeral_2_eq_2)

lemma product_version_2:
  assumes "int a \<le> INT_MAX" and "int b \<le> INT_MAX"
  shows "os_product_version (Inr (dec a @ ''.'' @ dec b)) v =
     (0, v\<lparr>major := int a, minor := int b\<rparr>)"
  using assms by (simp add: os_product_version_def numeral_2_eq_2)

lemma major_before:
  "0 \<le> minor v \<Longrightarrow> 0 \<le> point v \<Longrightarrow>
   v < \<lparr>major = m, minor = 0, point = 0\<rparr> \<longleftrightarrow> major v < m"
  by (auto simp: less_os_version_ext_def less_eq_os_version_ext_def)

section \<open>A reference for the reading\<close>

text \<open>A string split at every \<open>d\<close>, empty parts included.\<close>

fun split_on :: "char \<Rightarrow> string \<Rightarrow> string list" where
  "split_on d [] = [[]]"
| "split_on d (c # s) =
     (if c = d then [] # split_on d s else (c # hd (split_on d s)) # tl (split_on d s))"

text \<open>The parts that \<open>strsep\<close> has still to return.\<close>

definition parts_left :: "string option \<Rightarrow> string list" where
  "parts_left s = (case s of None \<Rightarrow> [] | Some t \<Rightarrow> split_on (CHR ''.'') t)"

lemma split_on_unfold:
  "split_on d s = takeWhile (\<lambda>c. c \<noteq> d) s #
     (if d \<in> set s then split_on d (tl (dropWhile (\<lambda>c. c \<noteq> d) s)) else [])"
  by (induction s) auto

lemma split_on_nonempty [simp]: "split_on d s \<noteq> []"
  by (cases s) auto

lemma takeWhile_other: "d \<notin> set s \<Longrightarrow> takeWhile (\<lambda>c. c \<noteq> d) s = s"
  by (simp add: takeWhile_eq_all_conv) metis

lemma strsep_parts:
  "fst (strsep (CHR ''.'') s) = (case parts_left s of [] \<Rightarrow> None | p # ps \<Rightarrow> Some p)"
  "parts_left (snd (strsep (CHR ''.'') s)) = tl (parts_left s)"
proof -
  have "split_on (CHR ''.'') t = takeWhile (\<lambda>c. c \<noteq> CHR ''.'') t #
     (if CHR ''.'' \<in> set t then split_on (CHR ''.'') (tl (dropWhile (\<lambda>c. c \<noteq> CHR ''.'') t)) else [])" for t
    by (rule split_on_unfold)
  then show "fst (strsep (CHR ''.'') s) = (case parts_left s of [] \<Rightarrow> None | p # ps \<Rightarrow> Some p)"
    "parts_left (snd (strsep (CHR ''.'') s)) = tl (parts_left s)"
    by (cases s; auto simp: parts_left_def strsep_def takeWhile_other split: list.split dest: sym)+
qed

lemma parse_numbers_parts:
  "parse_numbers (i # is) s v =
     (case parts_left s of
        [] \<Rightarrow> v
      | p # ps \<Rightarrow> parse_numbers is (snd (strsep (CHR ''.'') s)) (set_number i (atoi p) v))"
  using strsep_parts(1)[of s] by (cases "strsep (CHR ''.'') s") (auto split: list.splits)

text \<open>
  C40: Reading the version with \<open>strsep\<close> is splitting the whole string at its dots and converting the
  first three parts, for every string the system may answer: numbers without a part stay as they
  were, and parts after the third are ignored.
\<close>

theorem os_product_version_split:
  "os_product_version (Inr buf) v =
     (0, let ns = map atoi (split_on (CHR ''.'') buf)
         in v\<lparr>major := ns ! 0,
              minor := if 1 < length ns then ns ! 1 else minor v,
              point := if 2 < length ns then ns ! 2 else point v\<rparr>)"
proof -
  obtain p ps where p: "split_on (CHR ''.'') buf = p # ps" by (metis neq_Nil_conv split_on_nonempty)
  then have "parts_left (Some buf) = p # ps" by (simp add: parts_left_def)
  then show ?thesis
    unfolding os_product_version_def Let_def p
    by (cases ps; cases "tl ps")
       (simp_all add: parse_numbers_parts strsep_parts(2) numeral_2_eq_2 del: parse_numbers.simps(2))
qed

end
