(* ===== verification/Broker.thy ===== *)
theory Broker
  imports Prelude
begin

text \<open>
  \<open>broker/client.c\<close> and \<open>broker/vmnet-broker.h\<close>: acquiring a network from the vmnet-broker XPC
  service.  The state is the static \<open>connection\<close>; the calls are the XPC operations that create,
  use and reference-count objects; the only answer is the reply to the request, of one of the
  shapes the code distinguishes.  A serialization is opaque (a string).
\<close>

definition MACH_SERVICE_NAME :: string where
  "MACH_SERVICE_NAME = ''com.github.nirs.vmnet-broker''"

definition REQUEST_COMMAND :: string where "REQUEST_COMMAND = ''command''"
definition REQUEST_NETWORK_NAME :: string where "REQUEST_NETWORK_NAME = ''network_name''"
definition COMMAND_ACQUIRE :: string where "COMMAND_ACQUIRE = ''acquire''"

text \<open>\<open>vmnet_broker_return_t\<close>: the broker may send any number, so a status is a 32-bit value.\<close>

type_synonym broker_status = "32 word"

definition VMNET_BROKER_SUCCESS :: broker_status where "VMNET_BROKER_SUCCESS = 0"
definition VMNET_BROKER_XPC_FAILURE :: broker_status where "VMNET_BROKER_XPC_FAILURE = 1"
definition VMNET_BROKER_INVALID_REPLY :: broker_status where "VMNET_BROKER_INVALID_REPLY = 2"
definition VMNET_BROKER_NOT_ALLOWED :: broker_status where "VMNET_BROKER_NOT_ALLOWED = 3"
definition VMNET_BROKER_INVALID_REQUEST :: broker_status where "VMNET_BROKER_INVALID_REQUEST = 4"
definition VMNET_BROKER_NOT_FOUND :: broker_status where "VMNET_BROKER_NOT_FOUND = 5"
definition VMNET_BROKER_CREATE_FAILURE :: broker_status where "VMNET_BROKER_CREATE_FAILURE = 6"
definition VMNET_BROKER_INTERNAL_ERROR :: broker_status where "VMNET_BROKER_INTERNAL_ERROR = 7"

lemmas broker_status_defs =
  VMNET_BROKER_SUCCESS_def VMNET_BROKER_XPC_FAILURE_def VMNET_BROKER_INVALID_REPLY_def
  VMNET_BROKER_NOT_ALLOWED_def VMNET_BROKER_INVALID_REQUEST_def VMNET_BROKER_NOT_FOUND_def
  VMNET_BROKER_CREATE_FAILURE_def VMNET_BROKER_INTERNAL_ERROR_def

datatype broker_obj = Obj_message | Obj_reply | Obj_serialization

datatype broker_call =
    Connection_create string
  | Connection_set_event_handler
  | Connection_resume
  | Send_message_with_reply_sync "(string \<times> string) list"
  | Xpc_retain broker_obj
  | Xpc_release broker_obj

text \<open>The reply: an error object, a dictionary (\<open>error\<close> is 0 when missing), or another type.\<close>

datatype broker_reply =
    Reply_error
  | Reply_dictionary "64 word" "string option"
  | Reply_other

record broker = "(broker_call, broker_reply) proc" +
  connection :: bool

definition connect_to_broker :: "(broker, unit) prog" where
  "connect_to_broker =
     seq (emit (Connection_create MACH_SERVICE_NAME))
    (seq (modify (\<lambda>s. s\<lparr>connection := True\<rparr>))
    (seq (emit Connection_set_event_handler)
         (emit Connection_resume)))"

text \<open>What the reply says: the serialization if any, and the status (the \<open>out\<close> paths).\<close>

definition read_reply :: "broker_reply \<Rightarrow> string option \<times> broker_status" where
  "read_reply reply =
     (case reply of
        Reply_error \<Rightarrow> (None, VMNET_BROKER_XPC_FAILURE)
      | Reply_other \<Rightarrow> (None, VMNET_BROKER_INVALID_REPLY)
      | Reply_dictionary error64 network \<Rightarrow>
          (let error = (ucast error64 :: 32 word)
           in if error \<noteq> 0 then (None, error)
              else (case network of
                      None \<Rightarrow> (None, VMNET_BROKER_INVALID_REPLY)
                    | Some serialization \<Rightarrow> (Some serialization, VMNET_BROKER_SUCCESS))))"

text \<open>The serialization (\<open>None\<close> is NULL) and \<open>*status\<close>.\<close>

definition vmnet_broker_acquire_network ::
  "string \<Rightarrow> (broker, string option \<times> broker_status) prog" where
  "vmnet_broker_acquire_network network_name =
     bind (gets connection) (\<lambda>connected.
     seq (whenp (\<not> connected) connect_to_broker)
    (bind (sys (Send_message_with_reply_sync
             [(REQUEST_COMMAND, COMMAND_ACQUIRE), (REQUEST_NETWORK_NAME, network_name)])) (\<lambda>reply.
     seq (emit (Xpc_release Obj_message))
    (seq (whenp (fst (read_reply reply) \<noteq> None) (emit (Xpc_retain Obj_serialization)))
    (seq (emit (Xpc_release Obj_reply))
         (ret (read_reply reply)))))))"

definition vmnet_broker_strerror :: "broker_status \<Rightarrow> string" where
  "vmnet_broker_strerror status =
     (if status = VMNET_BROKER_SUCCESS then ''Broker session started''
      else if status = VMNET_BROKER_XPC_FAILURE then ''Failed to send XPC message to broker''
      else if status = VMNET_BROKER_INVALID_REPLY then ''Broker returned invalid reply''
      else if status = VMNET_BROKER_NOT_ALLOWED then ''You are not allowed to create a network''
      else if status = VMNET_BROKER_INVALID_REQUEST then ''Invalid broker request''
      else if status = VMNET_BROKER_NOT_FOUND then ''Network name not found''
      else if status = VMNET_BROKER_CREATE_FAILURE then ''Failed to create network''
      else if status = VMNET_BROKER_INTERNAL_ERROR then ''Internal or unknown error''
      else ''(unknown status)'')"

section \<open>Properties\<close>

lemma read_reply_success:
  "read_reply r = (x, st) \<Longrightarrow> x \<noteq> None \<longleftrightarrow> st = VMNET_BROKER_SUCCESS"
  by (auto simp: read_reply_def broker_status_defs Let_def
      split: broker_reply.splits option.splits if_splits)

text \<open>How often an object is retained and released in a history.\<close>

definition uses :: "broker_call \<Rightarrow> (broker_call \<times> broker_reply option) list \<Rightarrow> nat" where
  "uses c h = length (filter (\<lambda>e. fst e = c) h)"

lemma acquire_run:
  assumes "vmnet_broker_acquire_network name s = (Done r, t)"
  shows "\<exists>reply as new. answers s = reply # as \<and> answers t = as \<and> r = read_reply reply \<and>
    connection t \<and>
    history t = history s @
      (if connection s then [] else
         [(Connection_create MACH_SERVICE_NAME, None), (Connection_set_event_handler, None),
          (Connection_resume, None)]) @
      [(Send_message_with_reply_sync
          [(REQUEST_COMMAND, COMMAND_ACQUIRE), (REQUEST_NETWORK_NAME, name)], Some reply),
       (Xpc_release Obj_message, None)] @
      (if fst r = None then [] else [(Xpc_retain Obj_serialization, None)]) @
      [(Xpc_release Obj_reply, None)]"
proof (cases "answers s")
  case Nil
  then show ?thesis using assms
    by (simp add: vmnet_broker_acquire_network_def connect_to_broker_def prog_simps emit_def
        sys_def split: if_splits)
next
  case (Cons reply as)
  then have "r = read_reply reply" and "answers t = as" and "connection t" and
    "history t = history s @
      (if connection s then [] else
         [(Connection_create MACH_SERVICE_NAME, None), (Connection_set_event_handler, None),
          (Connection_resume, None)]) @
      [(Send_message_with_reply_sync
          [(REQUEST_COMMAND, COMMAND_ACQUIRE), (REQUEST_NETWORK_NAME, name)], Some reply),
       (Xpc_release Obj_message, None)] @
      (if fst r = None then [] else [(Xpc_retain Obj_serialization, None)]) @
      [(Xpc_release Obj_reply, None)]"
    using assms
    by (cases "connection s"; cases "fst (read_reply reply)";
        simp add: vmnet_broker_acquire_network_def connect_to_broker_def prog_simps emit_def
          sys_def; clarsimp)+
  with Cons show ?thesis by blast
qed

text \<open>
  C21: Acquiring a network: a serialization is returned exactly when the status is
  success, and it is the reply's; it is then retained once, while the request and the reply are
  released exactly once on every path; the connection to the broker is created by the first
  request only.
\<close>

theorem acquire_network_balanced:
  assumes "vmnet_broker_acquire_network name s = (Done (serialization, status), t)"
  shows "(serialization \<noteq> None \<longleftrightarrow> status = VMNET_BROKER_SUCCESS) \<and> connection t \<and>
    (\<exists>new reply. history t = history s @ new \<and>
       (serialization, status) = read_reply reply \<and>
       uses (Xpc_retain Obj_serialization) new = (if serialization = None then 0 else 1) \<and>
       uses (Xpc_release Obj_message) new = 1 \<and> uses (Xpc_release Obj_reply) new = 1 \<and>
       uses (Connection_create MACH_SERVICE_NAME) new = (if connection s then 0 else 1))"
proof -
  from acquire_run[OF assms] obtain reply new
    where r: "(serialization, status) = read_reply reply" and t: "connection t"
      and h: "history t = history s @ new"
      and u: "uses (Xpc_retain Obj_serialization) new = (if serialization = None then 0 else 1)"
        "uses (Xpc_release Obj_message) new = 1" "uses (Xpc_release Obj_reply) new = 1"
        "uses (Connection_create MACH_SERVICE_NAME) new = (if connection s then 0 else 1)"
    by (auto simp: uses_def)
  with read_reply_success[OF r[symmetric]] show ?thesis by blast
qed

theorem acquire_network_balanced_witness:
  "\<exists>t. vmnet_broker_acquire_network ''shared''
     \<lparr>answers = [Reply_dictionary 0 (Some ''net'')], history = [], connection = False\<rparr> =
     (Done (Some ''net'', VMNET_BROKER_SUCCESS), t) \<and>
     uses (Xpc_retain Obj_serialization) (history t) = 1"
proof -
  let ?s = "\<lparr>answers = [Reply_dictionary 0 (Some ''net'')], history = [], connection = False\<rparr>"
  let ?r = "vmnet_broker_acquire_network ''shared'' ?s"
  have r: "?r = (Done (Some ''net'', VMNET_BROKER_SUCCESS), snd ?r)"
    by (simp add: vmnet_broker_acquire_network_def connect_to_broker_def prog_simps emit_def
        sys_def read_reply_def)
  from acquire_network_balanced[OF r] show ?thesis by (subst r) auto
qed

end
