(* ===== verification/Helper_Calls.thy ===== *)
theory Helper_Calls
  imports Prelude Vmnet Broker
begin

text \<open>
  The calls the main thread of vmnet-helper (\<open>programs/helper.c\<close>) makes to the kernel, to vmnet
  and to the broker, and the answers it gets.  A main-thread function is a \<open>prog\<close> over a \<open>proc\<close>
  of these calls and answers.  The answers are arbitrary: an answer of a shape the call does not
  have counts as a failure.
\<close>

datatype kfilter = EVFILT_SIGNAL | EVFILT_USER | EVFILT_READ | EVFILT_TIMER

datatype kflags = EV_ADD | EV_DELETE | EV_NONE

record kevent =
  ev_ident :: int
  ev_filter :: kfilter
  ev_flags :: kflags
  ev_fflags :: "32 word"
  ev_data :: int

definition SHUTDOWN_EVENT :: int where "SHUTDOWN_EVENT = 1"
definition STATS_TIMER :: int where "STATS_TIMER = 2"

definition STATUS_FAILURE :: "32 word" where "STATUS_FAILURE = 1"
definition STATUS_STOPPED :: "32 word" where "STATUS_STOPPED = 2"

text \<open>The flags of user events and timers (\<open>sys/event.h\<close>).\<close>

definition NOTE_TRIGGER :: "32 word" where "NOTE_TRIGGER = 0x01000000"
definition NOTE_FFOR :: "32 word" where "NOTE_FFOR = 0x80000000"
definition NOTE_FFLAGSMASK :: "32 word" where "NOTE_FFLAGSMASK = 0x00ffffff"
definition NOTE_SECONDS :: "32 word" where "NOTE_SECONDS = 1"

lemmas event_consts =
  SHUTDOWN_EVENT_def STATS_TIMER_def STATUS_FAILURE_def STATUS_STOPPED_def NOTE_TRIGGER_def
  NOTE_FFOR_def NOTE_FFLAGSMASK_def NOTE_SECONDS_def

text \<open>The functions registered with \<open>atexit\<close>.\<close>

datatype exit_handler = Stop_host_interface | Remove_socket_lockfile | Remove_socket_silently

text \<open>The counters of an endpoint, which a report reads.\<close>

record forward_stats =
  st_packets :: "64 word"
  st_bytes :: "64 word"
  st_drops :: "64 word"
  st_fast :: "64 word"
  st_slow :: "64 word"

definition stats_zero :: forward_stats where
  "stats_zero = \<lparr>st_packets = 0, st_bytes = 0, st_drops = 0, st_fast = 0, st_slow = 0\<rparr>"

text \<open>What \<open>calloc\<close> is asked for: buffers of a size, or an array of one of the structs.\<close>

datatype alloc_unit = Alloc_bytes "64 word" | Alloc_packets | Alloc_msgs | Alloc_iovs

text \<open>
  \<open>Debugf args\<close>: a debug message on stderr with the values of its \<open>%s\<close>, NULL is \<open>None\<close>.  Only the
  message that is given strings which may be NULL is a call; the others change nothing and are
  left out.
\<close>

datatype hcall =
    Calloc int alloc_unit
  | Sysctlbyname string
  | Kqueue
  | Sigprocmask_block "int list"
  | Signal_ignore int
  | Kevent_change "kevent list"
  | Kevent_wait
  | Stdout string
  | Debugf "string option list"
  | Vmnet_start_interface xpc_dict
  | Broker_acquire_network string
  | Vmnet_network_create string
  | Vmnet_network_info
  | Vmnet_interface_start_with_network xpc_dict
  | Release_network
  | Release_serialization
  | Vmnet_stop_interface
  | Vmnet_set_event_callback
  | Start_vm_queue
  | Atexit exit_handler
  | Geteuid
  | Setgid "32 word"
  | Setuid "32 word"
  | Asprintf string
  | Open_lockfile string
  | Remove string
  | Socket
  | Setsockopt_sndbuf int int
  | Setsockopt_rcvbuf int int
  | Bind int string
  | Chmod string
  | Recvfrom_peek int nat
  | Connect int string
  | Read int nat
  | Read_clock_and_stats
  | Report string

datatype hans =
    Returns int
  | Fails errno
  | Event kevent
  | Started bool vmnet_return xpc_dict
  | Stopped vmnet_return vmnet_return
  | Vmnet_status vmnet_return
  | Acquired "string option" broker_status
  | Network_ref bool vmnet_return
  | Network_info network
  | Received int string
  | Version "errno + string"
  | Now int tm forward_stats forward_stats

text \<open>The int a call returned, -1 for a failure, and the \<open>errno\<close> it left.\<close>

fun retval :: "hans \<Rightarrow> int" where
  "retval (Returns n) = n"
| "retval _ = -1"

fun errno_of :: "hans \<Rightarrow> errno" where
  "errno_of (Fails e) = e"
| "errno_of _ = E_other 0"

type_synonym main = "(hcall, hans) proc"

text \<open>A call that must not fail: a negative result ends the process.\<close>

definition must :: "hcall \<Rightarrow> ((hcall, hans, 'z) proc_scheme, int) prog" where
  "must c = bind (sys c) (\<lambda>a. if retval a < 0 then exit_with EXIT_FAILURE else ret (retval a))"

lemma must_Done:
  "must c s = (Done n, t) \<longleftrightarrow>
     (\<exists>a as. answers s = a # as \<and> 0 \<le> retval a \<and> n = retval a \<and>
        t = s\<lparr>answers := as, history := history s @ [(c, Some a)]\<rparr>)"
  by (auto simp: must_def bind_def sys_def split: list.splits)

lemma must_Exited:
  "must c s = (Exited n, t) \<longleftrightarrow>
     (\<exists>a as. answers s = a # as \<and> retval a < 0 \<and> n = 1 \<and>
        t = s\<lparr>answers := as, history := history s @ [(c, Some a)]\<rparr>)"
  by (auto simp: must_def bind_def sys_def split: list.splits)

lemma runs_on_must [intro]: "preserves runs_on (must c)"
  unfolding must_def
  by (intro run_order.pres_bind runs_on_sys) (simp add: preserves_def ret_def exit_with_def
      run_order.refl_step)

lemma calls_must: "P c \<Longrightarrow> preserves (calls_in P) (must c)"
  unfolding must_def by (intro calls_order.pres_bind calls_sys) auto

lemma no_abort_must [never_aborts]: "no_abort (must c)"
  unfolding must_def by (auto intro!: never_aborts)

lemma exits_in_must [exit_codes]: "1 \<in> C \<Longrightarrow> exits_in C (must c)"
  unfolding must_def by (auto intro!: exit_codes)

lemma triple_must:
  assumes "\<And>s a as. P s \<Longrightarrow> answers s = a # as \<Longrightarrow> 0 \<le> retval a \<Longrightarrow>
      Q (retval a) (s\<lparr>answers := as, history := history s @ [(c, Some a)]\<rparr>)"
    and "\<And>s a as. P s \<Longrightarrow> answers s = a # as \<Longrightarrow> retval a < 0 \<Longrightarrow>
      E (s\<lparr>answers := as, history := history s @ [(c, Some a)]\<rparr>)"
    and "\<And>s. P s \<Longrightarrow> E s"
  shows "triple P (must c) Q E"
  unfolding triple_def
proof (intro allI impI)
  fix s r t assume "P s" and run: "must c s = (r, t)"
  show "case r of Done x \<Rightarrow> Q x t | _ \<Rightarrow> E t"
  proof (cases "answers s")
    case Nil
    then show ?thesis using run assms(3)[OF \<open>P s\<close>] by (auto simp: must_def bind_def)
  next
    case (Cons a as)
    then show ?thesis
      using run assms(1,2)[OF \<open>P s\<close> Cons]
      by (cases "retval a < 0") (auto simp: must_def bind_def ret_def exit_with_def)
  qed
qed

end
