(* ===== verification/Endpoint.thy ===== *)
theory Endpoint
  imports Helper_Calls "HOL-Library.Disjoint_Sets"
begin

text \<open>
  The endpoints of \<open>programs/helper.c\<close>: the arrays through which packets travel and the
  statistics.  A pointer into an endpoint's own arrays is an index: \<open>vm_pkt_iov\<close> and \<open>msg_iov\<close>
  point into \<open>iovs\<close>, \<open>iov_base\<close> is an offset into \<open>buffers\<close>, of which only the allocated size
  is kept.  Lengths and counters are 64 bits wide, as in the code.
\<close>

record iovec =
  iov_base :: "64 word"
  iov_len :: "64 word"

record vmpktdesc =
  vm_pkt_size :: "64 word"
  vm_pkt_iov :: nat
  vm_pkt_iovcnt :: nat
  vm_flags :: nat

record msghdr_x =
  msg_iov :: nat
  msg_iovlen :: nat
  msg_len :: "64 word"

record endpoint =
  packets :: "vmpktdesc list"
  msgs :: "msghdr_x list"
  iovs :: "iovec list"
  buffers :: int
  max_packet_count :: int
  ep_name :: string
  stats :: forward_stats

definition MAX_PACKET_COUNT :: int where "MAX_PACKET_COUNT = 128"

definition packet_count_for :: "64 word \<Rightarrow> int" where
  "packet_count_for max_packet_size =
     (if max_packet_size \<ge> 64 * 1024 then 16 else MAX_PACKET_COUNT)"

text \<open>
  The loop that binds iovs and buffers to packets and msgs; its body updates entry \<open>i\<close> of three
  arrays.
\<close>

definition bind_buffers :: "64 word \<Rightarrow> nat \<Rightarrow> endpoint \<Rightarrow> endpoint" where
  "bind_buffers max_packet_size n e =
     e\<lparr>iovs := for_each n (\<lambda>i iov. iov\<lparr>iov_base := of_nat i * max_packet_size\<rparr>) (iovs e),
       packets := for_each n (\<lambda>i p. p\<lparr>vm_pkt_iovcnt := 1, vm_pkt_iov := i\<rparr>) (packets e),
       msgs := for_each n (\<lambda>i m. m\<lparr>msg_iovlen := 1, msg_iov := i\<rparr>) (msgs e)\<rparr>"

definition zero_iov :: iovec where "zero_iov = \<lparr>iov_base = 0, iov_len = 0\<rparr>"

definition zero_packet :: vmpktdesc where
  "zero_packet = \<lparr>vm_pkt_size = 0, vm_pkt_iov = 0, vm_pkt_iovcnt = 0, vm_flags = 0\<rparr>"

definition zero_msg :: msghdr_x where
  "zero_msg = \<lparr>msg_iov = 0, msg_iovlen = 0, msg_len = 0\<rparr>"

definition init_endpoint ::
  "string \<Rightarrow> 64 word \<Rightarrow> ((hcall, hans, 'z) proc_scheme, endpoint) prog" where
  "init_endpoint name max_packet_size =
     (let count = packet_count_for max_packet_size; n = nat count;
          e = \<lparr>packets = replicate n zero_packet, msgs = replicate n zero_msg,
               iovs = replicate n zero_iov, buffers = count * uint max_packet_size,
               max_packet_count = count, ep_name = name, stats = stats_zero\<rparr>
      in seq (must (Calloc count (Alloc_bytes max_packet_size)))
        (seq (must (Calloc count Alloc_packets))
        (seq (must (Calloc count Alloc_msgs))
        (seq (must (Calloc count Alloc_iovs))
             (ret (bind_buffers max_packet_size n e))))))"

section \<open>The shape of an endpoint\<close>

text \<open>
  What \<open>init_endpoint\<close> sets up and every operation keeps: all arrays have \<open>max_packet_count\<close>
  entries, entry \<open>i\<close> of \<open>packets\<close> and \<open>msgs\<close> uses exactly iov \<open>i\<close>, and iov \<open>i\<close> is the \<open>i\<close>-th
  slice of \<open>max_packet_size\<close> bytes.
\<close>

definition bound_to :: "64 word \<Rightarrow> endpoint \<Rightarrow> bool" where
  "bound_to mps e \<longleftrightarrow>
     length (packets e) = nat (max_packet_count e) \<and> length (msgs e) = nat (max_packet_count e) \<and>
     length (iovs e) = nat (max_packet_count e) \<and> max_packet_count e = packet_count_for mps \<and>
     buffers e = max_packet_count e * uint mps \<and>
     (\<forall>i < nat (max_packet_count e).
        vm_pkt_iov (packets e ! i) = i \<and> vm_pkt_iovcnt (packets e ! i) = 1 \<and>
        msg_iov (msgs e ! i) = i \<and> msg_iovlen (msgs e ! i) = 1 \<and>
        iov_base (iovs e ! i) = of_nat i * mps)"

lemma packet_count_pos: "0 < packet_count_for mps" "packet_count_for mps \<le> MAX_PACKET_COUNT"
  by (simp_all add: packet_count_for_def MAX_PACKET_COUNT_def)

text \<open>The loop before every read: each of the first \<open>n\<close> iovs offers its whole buffer.\<close>

definition reset_iovs :: "64 word \<Rightarrow> nat \<Rightarrow> endpoint \<Rightarrow> endpoint" where
  "reset_iovs max_packet_size n e =
     e\<lparr>iovs := for_each n (\<lambda>i iov. iov\<lparr>iov_len := max_packet_size\<rparr>) (iovs e)\<rparr>"

text \<open>The bytes of \<open>buffers\<close> that iov \<open>i\<close> names.\<close>

definition slice :: "endpoint \<Rightarrow> nat \<Rightarrow> nat set" where
  "slice e i = {unat (iov_base (iovs e ! i)) ..<
     unat (iov_base (iovs e ! i)) + unat (iov_len (iovs e ! i))}"

text \<open>What a loop that updates other fields leaves in place.\<close>

lemmas other_fields =
  nth_for_each_field[of vm_pkt_iov] nth_for_each_field[of vm_pkt_iovcnt]
  nth_for_each_field[of msg_iov] nth_for_each_field[of msg_iovlen] nth_for_each_field[of iov_base]

lemma bind_buffers_bound:
  assumes "e = \<lparr>packets = replicate n p, msgs = replicate n m, iovs = replicate n v,
      buffers = packet_count_for mps * uint mps, max_packet_count = packet_count_for mps, ep_name = nm, stats = st\<rparr>"
    and "n = nat (packet_count_for mps)"
  shows "bound_to mps (bind_buffers mps n e)" "stats (bind_buffers mps n e) = st"
    "ep_name (bind_buffers mps n e) = nm"
  using assms packet_count_pos[of mps] by (simp_all add: bound_to_def bind_buffers_def)

lemma bound_to_reset [simp]: "bound_to mps (reset_iovs m n e) = bound_to mps e"
  by (simp add: bound_to_def reset_iovs_def other_fields del: nth_for_each)

lemma bound_to_stats [simp]: "bound_to mps (e\<lparr>stats := s\<rparr>) = bound_to mps e"
  by (simp add: bound_to_def)

lemma init_endpoint_Done:
  assumes "init_endpoint nm mps s = (Done e, t)"
  shows "bound_to mps e \<and> stats e = stats_zero \<and> ep_name e = nm"
  using assms bind_buffers_bound[OF refl refl]
  by (auto simp: init_endpoint_def Let_def prog_ends)

section \<open>Properties\<close>

lemma bound_to_size:
  assumes "bound_to mps e"
  shows "nat (buffers e) = nat (max_packet_count e) * unat mps"
proof -
  have "0 < max_packet_count e" using assms packet_count_pos by (simp add: bound_to_def)
  then show ?thesis using assms by (simp add: bound_to_def nat_mult_distrib)
qed

text \<open>Slices of equal size tile the buffer when it is no larger than the address space.\<close>

lemma slice_eq:
  assumes "bound_to mps e" and "i < nat (max_packet_count e)" and "buffers e < 2 ^ 64"
  shows "slice (reset_iovs mps (nat (max_packet_count e)) e) i = {i * unat mps ..< Suc i * unat mps}"
proof -
  note b = bound_to_size[OF assms(1)]
  have "Suc i * unat mps \<le> nat (max_packet_count e) * unat mps"
    using assms(2) by (intro mult_le_mono1) simp
  then have "i * unat mps \<le> nat (buffers e)" unfolding b by (simp only: mult_Suc)
  moreover have "nat (buffers e) < 2 ^ 64" using assms(3) by simp
  ultimately have le: "i * unat mps < 2 ^ 64" by simp
  have "nat (max_packet_count e) \<le> 128"
    using assms(1) by (simp add: bound_to_def packet_count_for_def MAX_PACKET_COUNT_def)
  then have i: "i < 2 ^ 64" using assms(2) by simp
  have "unat (of_nat i * mps) = i * unat mps"
    using le i by (simp add: unat_word_ariths unat_of_nat take_bit_eq_mod)
  then show ?thesis
    using assms by (simp add: slice_def reset_iovs_def bound_to_def add.commute)
qed

lemma tiles:
  fixes w :: nat
  shows "(\<Union>i<n. {i * w ..< Suc i * w}) = {..< n * w}"
proof (induction n)
  case (Suc n)
  have "{..< Suc n * w} = {..< n * w} \<union> {n * w ..< Suc n * w}"
    by auto
  with Suc show ?case by (auto simp: lessThan_Suc)
qed simp

lemma tiles_disjoint:
  fixes w :: nat
  shows "disjoint_family_on (\<lambda>i. {i * w ..< Suc i * w}) S"
proof -
  have "i = j" if "i * w \<le> x" "x < Suc i * w" "j * w \<le> x" "x < Suc j * w" for i j x
    using that div_nat_eqI[of w i x] div_nat_eqI[of w j x] by (simp add: mult.commute)
  then show ?thesis unfolding disjoint_family_on_def disjoint_iff atLeastLessThan_iff by blast
qed

text \<open>
  C19: A new endpoint has 16 packets when packets are 64 KiB or more and 128 otherwise,
  zero statistics, and entry \<open>i\<close> of \<open>packets\<close> and of \<open>msgs\<close> uses iov \<open>i\<close>.  When the
  allocation fits the address space (as \<open>calloc\<close> requires) and the iovs are reset for reading,
  the iovs partition the buffer: no two packets overlap, none leaves the buffer, no byte is
  unused.
\<close>

theorem init_endpoint_partition:
  assumes "init_endpoint nm mps s = (Done e, t)" and "buffers e < 2 ^ 64"
  shows "bound_to mps e \<and> stats e = stats_zero \<and>
    max_packet_count e = (if mps \<ge> 65536 then 16 else 128) \<and>
    (let n = nat (max_packet_count e); r = reset_iovs mps n e
     in disjoint_family_on (slice r) {..<n} \<and> (\<Union>i<n. slice r i) = {..<nat (buffers e)})"
proof -
  have b: "bound_to mps e" and st: "stats e = stats_zero"
    using init_endpoint_Done[OF assms(1)] by simp_all
  then have m: "max_packet_count e = (if mps \<ge> 65536 then 16 else 128)"
    by (simp add: bound_to_def packet_count_for_def MAX_PACKET_COUNT_def)
  let ?n = "nat (max_packet_count e)"
  have "disjoint_family_on (slice (reset_iovs mps ?n e)) {..<?n}"
    using tiles_disjoint[of "unat mps" "{..<?n}"] slice_eq[OF b _ assms(2)]
    by (simp add: disjoint_family_on_def)
  moreover have "(\<Union>i<?n. slice (reset_iovs mps ?n e) i) = {..<nat (buffers e)}"
    using tiles[of "unat mps" ?n] slice_eq[OF b _ assms(2)] by (simp add: bound_to_size[OF b])
  ultimately show ?thesis using b st m by (simp add: Let_def)
qed

theorem init_endpoint_partition_witness:
  "\<exists>e t. init_endpoint ''host'' 1514
      \<lparr>answers = [Returns 1, Returns 1, Returns 1, Returns 1], history = []\<rparr> = (Done e, t) \<and>
     disjoint_family_on (slice (reset_iovs 1514 128 e)) {..<128}"
proof -
  let ?s = "\<lparr>answers = [Returns 1, Returns 1, Returns 1, Returns 1], history = []\<rparr> :: main"
  obtain e t where r: "init_endpoint ''host'' 1514 ?s = (Done e, t)"
    and m: "max_packet_count e = 128" and b: "buffers e = 128 * 1514"
    by (simp add: init_endpoint_def Let_def prog_simps must_def packet_count_for_def
        MAX_PACKET_COUNT_def bind_buffers_def)
  have "disjoint_family_on (slice (reset_iovs 1514 128 e)) {..<128}"
    using init_endpoint_partition[OF r] by (simp add: b m Let_def)
  with r show ?thesis by blast
qed

end
