(* ===== verification/Host_Forward.thy ===== *)
theory Host_Forward
  imports Endpoint
begin

text \<open>
  The host queue of \<open>programs/helper.c\<close>: packets read from the vmnet interface in batches and
  written to the VM's socket, with \<open>sendmsg_x\<close> (fast path) and, for what is left of a batch
  after an error, with \<open>write\<close> (slow path).

  The locals of \<open>write_to_vm\<close> are a \<open>batch\<close>; \<open>b_calls\<close> records the calls it makes with their
  results.  The results of the calls are an input list; where it ends the function waits.
  \<open>sendmsg_x(fd, &msgs[first], cnt)\<close> is \<open>Sendmsg_x first cnt\<close>; \<open>write(fd, iovs[k].iov_base, len)\<close>
  is \<open>Write k len\<close>.
\<close>

section \<open>Definitions\<close>

datatype vm_call = Sendmsg_x int int | Write nat "64 word" | Nanosleep

record batch =
  b_packets :: int
  b_bytes :: "64 word"
  b_fast :: "64 word"
  b_retries :: int
  b_slow :: "64 word"
  b_drops :: int
  b_calls :: "(vm_call \<times> sysret option) list"

definition batch_start :: batch where
  "batch_start = \<lparr>b_packets = 0, b_bytes = 0, b_fast = 0, b_retries = 0, b_slow = 0,
     b_drops = 0, b_calls = []\<rparr>"

definition VM_RETRY_MAX :: int where "VM_RETRY_MAX = 10"

definition host_packets_size :: "endpoint \<Rightarrow> int \<Rightarrow> 64 word" where
  "host_packets_size host count =
     fold (\<lambda>i size. size + vm_pkt_size (packets host ! i)) [0..<nat count] 0"

definition logged :: "vm_call \<Rightarrow> sysret option \<Rightarrow> batch \<Rightarrow> batch" where
  "logged c r b = b\<lparr>b_calls := b_calls b @ [(c, r)]\<rparr>"

text \<open>\<open>retries++; wait_for_buffer_space(); continue;\<close>\<close>

definition wait_for_buffer_space :: "batch \<Rightarrow> batch" where
  "wait_for_buffer_space b = logged Nanosleep None (b\<lparr>b_retries := b_retries b + 1\<rparr>)"

text \<open>
  The fast path.  It returns \<open>True\<close> when the whole batch was sent, \<open>False\<close> to fall back to the
  slow path.
\<close>

fun fast_path ::
  "endpoint \<Rightarrow> int \<Rightarrow> batch \<Rightarrow> sysret list \<Rightarrow> bool outcome \<times> batch \<times> sysret list" where
  "fast_path host count b [] = (Waiting, b\<lparr>b_fast := b_fast b + 1\<rparr>, [])"
| "fast_path host count b (r # rs) =
     (let b = logged (Sendmsg_x (b_packets b) (count - b_packets b)) (Some r)
            (b\<lparr>b_fast := b_fast b + 1\<rparr>)
      in case r of
           Fail e \<Rightarrow>
             if e = ENOBUFS \<and> b_retries b < VM_RETRY_MAX
             then fast_path host count (wait_for_buffer_space b) rs
             else (Done False, b\<lparr>b_bytes := host_packets_size host (b_packets b)\<rparr>, rs)
         | Ret n \<Rightarrow>
             (let b = b\<lparr>b_packets := b_packets b + n\<rparr>
              in if b_packets b = count
                 then (Done True, b\<lparr>b_bytes := host_packets_size host (b_packets b)\<rparr>, rs)
                 else fast_path host count b rs))"

text \<open>One packet on the slow path: \<open>write\<close> until it succeeds or must not be retried.\<close>

fun write_packet ::
  "nat \<Rightarrow> 64 word \<Rightarrow> batch \<Rightarrow> sysret list \<Rightarrow> sysret outcome \<times> batch \<times> sysret list" where
  "write_packet k sz b [] = (Waiting, b\<lparr>b_slow := b_slow b + 1\<rparr>, [])"
| "write_packet k sz b (r # rs) =
     (let b = logged (Write k sz) (Some r) (b\<lparr>b_slow := b_slow b + 1\<rparr>)
      in if r = Fail ENOBUFS \<and> b_retries b < VM_RETRY_MAX
         then write_packet k sz (wait_for_buffer_space b) rs
         else (Done r, b, rs))"

fun slow_path ::
  "endpoint \<Rightarrow> nat list \<Rightarrow> batch \<Rightarrow> sysret list \<Rightarrow> unit outcome \<times> batch \<times> sysret list" where
  "slow_path host [] b rs = (Done (), b, rs)"
| "slow_path host (i # is) b rs =
     (let size = vm_pkt_size (packets host ! i)
      in case write_packet (vm_pkt_iov (packets host ! i)) size b rs of
           (Done r, b, rs) \<Rightarrow>
             (case r of
                Fail e \<Rightarrow> slow_path host is (b\<lparr>b_drops := b_drops b + 1\<rparr>) rs
              | Ret len \<Rightarrow>
                  if len < 0 then slow_path host is (b\<lparr>b_drops := b_drops b + 1\<rparr>) rs
                  else
                    (let b = b\<lparr>b_packets := b_packets b + 1, b_bytes := b_bytes b + size\<rparr>
                     in if word_of_int len \<noteq> size then (Aborted, b, rs)
                        else slow_path host is b rs))
         | (Exited c, b, rs) \<Rightarrow> (Exited c, b, rs)
         | (Aborted, b, rs) \<Rightarrow> (Aborted, b, rs)
         | (Waiting, b, rs) \<Rightarrow> (Waiting, b, rs))"

text \<open>The lengths of the messages are those of the packets read from vmnet.\<close>

definition copy_lengths :: "int \<Rightarrow> endpoint \<Rightarrow> endpoint" where
  "copy_lengths count host = host\<lparr>msgs :=
     for_each (nat count) (\<lambda>i m. m\<lparr>msg_len := vm_pkt_size (packets host ! i)\<rparr>) (msgs host)\<rparr>"

definition add_stats :: "batch \<Rightarrow> endpoint \<Rightarrow> endpoint" where
  "add_stats b host = host\<lparr>stats := (let s = stats host in
     \<lparr>st_packets = st_packets s + word_of_int (b_packets b), st_bytes = st_bytes s + b_bytes b,
      st_drops = st_drops s + word_of_int (b_drops b), st_fast = st_fast s + b_fast b,
      st_slow = st_slow s + b_slow b\<rparr>)\<rparr>"

text \<open>
  The function's body between the first loop and the statistics.  The fast path's own exit adds
  packets, bytes and fast only; drops and slow are still 0 there, so \<open>add_stats\<close> serves both
  exits.
\<close>

definition send_batch ::
  "bool \<Rightarrow> int \<Rightarrow> endpoint \<Rightarrow> sysret list \<Rightarrow> unit outcome \<times> batch \<times> sysret list" where
  "send_batch use_bulk_forwarding count host rs =
     (case (if use_bulk_forwarding then fast_path host count batch_start rs
            else (Done False, batch_start, rs)) of
        (Done full, b, rs) \<Rightarrow>
          if full then (Done (), b, rs)
          else slow_path host [nat (b_packets b) ..< nat count] b rs
      | (Exited c, b, rs) \<Rightarrow> (Exited c, b, rs)
      | (Aborted, b, rs) \<Rightarrow> (Aborted, b, rs)
      | (Waiting, b, rs) \<Rightarrow> (Waiting, b, rs))"

definition write_to_vm ::
  "bool \<Rightarrow> int \<Rightarrow> endpoint \<Rightarrow> sysret list \<Rightarrow> unit outcome \<times> endpoint \<times> batch \<times> sysret list" where
  "write_to_vm use_bulk_forwarding count host rs =
     (let host = copy_lengths count host
      in case send_batch use_bulk_forwarding count host rs of
           (res, b, rs) \<Rightarrow> (res, if res = Done () then add_stats b host else host, b, rs))"

section \<open>Reading from the host\<close>

text \<open>
  The answer of \<open>vmnet_read\<close>: status, count, and the packet sizes and iov lengths it wrote into
  the first packets.
\<close>

record host_read =
  hr_status :: vmnet_return
  hr_count :: int
  hr_sizes :: "64 word list"
  hr_lens :: "64 word list"

text \<open>The reset before each read: every packet and every iov offers its whole buffer.\<close>

definition reset_host :: "64 word \<Rightarrow> endpoint \<Rightarrow> endpoint" where
  "reset_host max_packet_size host =
     (let n = nat (max_packet_count host)
      in reset_iovs max_packet_size n (host\<lparr>packets :=
           for_each n (\<lambda>i p. p\<lparr>vm_pkt_size := max_packet_size, vm_flags := 0\<rparr>) (packets host)\<rparr>))"

definition fill_sizes :: "host_read \<Rightarrow> endpoint \<Rightarrow> endpoint" where
  "fill_sizes r host = host
     \<lparr>packets := for_each (length (hr_sizes r)) (\<lambda>i p. p\<lparr>vm_pkt_size := hr_sizes r ! i\<rparr>) (packets host),
      iovs := for_each (length (hr_lens r)) (\<lambda>i v. v\<lparr>iov_len := hr_lens r ! i\<rparr>) (iovs host)\<rparr>"

definition read_from_host :: "64 word \<Rightarrow> host_read \<Rightarrow> endpoint \<Rightarrow> int \<times> endpoint" where
  "read_from_host max_packet_size r host =
     (let host = fill_sizes r (reset_host max_packet_size host)
      in if hr_status r \<noteq> VMNET_SUCCESS then (-1, host) else (hr_count r, host))"

text \<open>
  The event callback: read and forward batches until there is nothing to read.  The batches are
  returned for the accounting.
\<close>

fun packets_available ::
  "bool \<Rightarrow> 64 word \<Rightarrow> host_read list \<Rightarrow> endpoint \<Rightarrow> sysret list \<Rightarrow>
   unit outcome \<times> endpoint \<times> batch list \<times> sysret list" where
  "packets_available bulk mps [] host rs = (Waiting, host, [], rs)"
| "packets_available bulk mps (r # reads) host rs =
     (case read_from_host mps r host of
        (count, host) \<Rightarrow>
          if count < 1 then (Done (), host, [], rs)
          else (case write_to_vm bulk count host rs of
                  (Done _, host, b, rs) \<Rightarrow>
                    (case packets_available bulk mps reads host rs of
                       (r, host, bs, rs) \<Rightarrow> (r, host, b # bs, rs))
                | (Exited c, host, b, rs) \<Rightarrow> (Exited c, host, [b], rs)
                | (Aborted, host, b, rs) \<Rightarrow> (Aborted, host, [b], rs)
                | (Waiting, host, b, rs) \<Rightarrow> (Waiting, host, [b], rs)))"

section \<open>What a run of calls delivered\<close>

text \<open>
  The kernel's contract, on the calls recorded with their results: \<open>sendmsg_x\<close> returns how many of
  the messages it was given were sent; \<open>write\<close> on a datagram socket writes the whole packet or
  fails (the code's \<open>assert\<close> relies on it).  \<open>kernel_live\<close>: a successful \<open>sendmsg_x\<close> sends at
  least one message.
\<close>

fun call_ok :: "vm_call \<times> sysret option \<Rightarrow> bool" where
  "call_ok (Sendmsg_x first cnt, Some (Ret n)) \<longleftrightarrow> 0 \<le> n \<and> n \<le> cnt"
| "call_ok (Write k sz, Some (Ret n)) \<longleftrightarrow> n = uint sz"
| "call_ok _ \<longleftrightarrow> True"

fun call_live :: "vm_call \<times> sysret option \<Rightarrow> bool" where
  "call_live (Sendmsg_x first cnt, Some (Ret n)) \<longleftrightarrow> 1 \<le> n"
| "call_live _ \<longleftrightarrow> True"

text \<open>The iovs whose buffers reached the socket, in the order they did.\<close>

fun sent_by :: "endpoint \<Rightarrow> vm_call \<times> sysret option \<Rightarrow> nat list" where
  "sent_by host (Sendmsg_x first cnt, Some (Ret n)) =
     map (\<lambda>j. msg_iov (msgs host ! j)) [nat first ..< nat (first + n)]"
| "sent_by host (Write k sz, Some (Ret n)) = [k]"
| "sent_by host _ = []"

definition delivered :: "endpoint \<Rightarrow> (vm_call \<times> sysret option) list \<Rightarrow> nat list" where
  "delivered host calls = concat (map (sent_by host) calls)"

fun is_sendmsg :: "vm_call \<Rightarrow> bool" where
  "is_sendmsg (Sendmsg_x f c) \<longleftrightarrow> True" | "is_sendmsg _ \<longleftrightarrow> False"

fun is_write :: "vm_call \<Rightarrow> bool" where
  "is_write (Write k c) \<longleftrightarrow> True" | "is_write _ \<longleftrightarrow> False"

definition calls_of :: "(vm_call \<Rightarrow> bool) \<Rightarrow> (vm_call \<times> sysret option) list \<Rightarrow> nat" where
  "calls_of p calls = length (filter (\<lambda>c. p (fst c)) calls)"

lemma delivered_Nil [simp]: "delivered host [] = []"
  by (simp add: delivered_def)

lemma delivered_Cons [simp]: "delivered host (c # cs) = sent_by host c @ delivered host cs"
  by (simp add: delivered_def)

lemma delivered_append [simp]: "delivered host (cs @ ds) = delivered host cs @ delivered host ds"
  by (simp add: delivered_def)

lemma calls_of_Nil [simp]: "calls_of p [] = 0"
  by (simp add: calls_of_def)

lemma calls_of_Cons [simp]:
  "calls_of p (c # cs) = (if p (fst c) then 1 else 0) + calls_of p cs"
  by (simp add: calls_of_def)

lemma calls_of_append [simp]: "calls_of p (cs @ ds) = calls_of p cs + calls_of p ds"
  by (simp add: calls_of_def)

text \<open>
  The account of a batch whose packets below \<open>i\<close> are dealt with: what it counted is what happened,
  every packet below \<open>i\<close> was delivered once, in order, or dropped.
\<close>

definition counts_ok :: "batch \<Rightarrow> bool" where
  "counts_ok b \<longleftrightarrow>
     b_fast b = of_nat (calls_of is_sendmsg (b_calls b)) \<and>
     b_slow b = of_nat (calls_of is_write (b_calls b)) \<and>
     b_retries b = int (calls_of ((=) Nanosleep) (b_calls b)) \<and> b_retries b \<le> VM_RETRY_MAX"

definition tally :: "endpoint \<Rightarrow> nat \<Rightarrow> batch \<Rightarrow> bool" where
  "tally host i b \<longleftrightarrow> counts_ok b \<and>
     sorted_wrt (<) (delivered host (b_calls b)) \<and>
     list_all (\<lambda>j. j < i) (delivered host (b_calls b)) \<and>
     b_packets b = int (length (delivered host (b_calls b))) \<and> 0 \<le> b_drops b \<and>
     b_packets b + b_drops b = int i"

lemmas tally_defs = tally_def counts_ok_def

definition bytes_of :: "endpoint \<Rightarrow> nat list \<Rightarrow> 64 word" where
  "bytes_of host js = (\<Sum>j\<leftarrow>js. vm_pkt_size (packets host ! j))"

lemma bytes_of_simps [simp]:
  "bytes_of host [] = 0" "bytes_of host (xs @ [j]) = bytes_of host xs + vm_pkt_size (packets host ! j)"
  by (simp_all add: bytes_of_def)

lemma host_packets_size_bytes: "host_packets_size host (int n) = bytes_of host [0..<n]"
proof -
  have "fold (\<lambda>i sz. sz + vm_pkt_size (packets host ! i)) xs a = a + bytes_of host xs" for a xs
    by (induction xs arbitrary: a) (auto simp: bytes_of_def algebra_simps)
  then show ?thesis by (simp add: host_packets_size_def)
qed

lemma wait_fields [simp]:
  "b_packets (wait_for_buffer_space b) = b_packets b" "b_bytes (wait_for_buffer_space b) = b_bytes b"
  "b_fast (wait_for_buffer_space b) = b_fast b" "b_slow (wait_for_buffer_space b) = b_slow b"
  "b_drops (wait_for_buffer_space b) = b_drops b"
  "b_retries (wait_for_buffer_space b) = b_retries b + 1"
  "b_calls (wait_for_buffer_space b) = b_calls b @ [(Nanosleep, None)]"
  by (simp_all add: wait_for_buffer_space_def logged_def)

lemma logged_fields [simp]:
  "b_packets (logged c r b) = b_packets b" "b_bytes (logged c r b) = b_bytes b"
  "b_fast (logged c r b) = b_fast b" "b_slow (logged c r b) = b_slow b"
  "b_drops (logged c r b) = b_drops b" "b_retries (logged c r b) = b_retries b"
  "b_calls (logged c r b) = b_calls b @ [(c, r)]"
  by (simp_all add: logged_def)

subsection \<open>The fast path\<close>

lemma fast_path_calls:
  "fast_path host count b rs = (res, b', rs') \<Longrightarrow> prefix (b_calls b) (b_calls b')"
proof (induction host count b rs rule: fast_path.induct)
  case (1 host count b)
  then show ?case by auto
next
  case (2 host count b r rs)
  show ?case
    using "2.prems" "2.IH"
    by (auto simp: Let_def split: sysret.splits if_splits
        intro: prefix_order.trans dest!: append_prefixD)
qed

text \<open>The state of the fast path before a call: the first \<open>k\<close> packets of the batch were sent.\<close>

definition fast_state :: "endpoint \<Rightarrow> int \<Rightarrow> nat \<Rightarrow> batch \<Rightarrow> bool" where
  "fast_state host count k b \<longleftrightarrow> tally host k b \<and> b_drops b = 0 \<and> int k \<le> count \<and>
     delivered host (b_calls b) = [0..<k]"

lemma upt_below [simp]: "k \<le> i \<Longrightarrow> list_all (\<lambda>j. j < i) [0..<k]"
  by (auto simp: list_all_iff)

lemma fast_state_packets: "fast_state host count k b \<Longrightarrow> b_packets b = int k"
  by (simp add: fast_state_def tally_defs)

lemma fast_state_start: "0 \<le> count \<Longrightarrow> fast_state host count 0 batch_start"
  by (simp add: fast_state_def tally_defs batch_start_def VM_RETRY_MAX_def)

lemma fast_state_fail:
  assumes "fast_state host count k b"
  shows "fast_state host count k
    (logged (Sendmsg_x f c) (Some (Fail e)) (b\<lparr>b_fast := b_fast b + 1\<rparr>))"
  using assms by (simp add: fast_state_def tally_defs)

lemma fast_state_wait:
  assumes "fast_state host count k b" and "b_retries b < VM_RETRY_MAX"
  shows "fast_state host count k (wait_for_buffer_space b)"
  using assms by (simp add: fast_state_def tally_defs)

text \<open>The messages of a batch use their own iovs.\<close>

definition own_iovs :: "int \<Rightarrow> endpoint \<Rightarrow> bool" where
  "own_iovs count host \<longleftrightarrow>
     (\<forall>i < nat count. msg_iov (msgs host ! i) = i \<and> vm_pkt_iov (packets host ! i) = i)"

lemma sent_run:
  assumes "own_iovs count host" and "int (k + n) \<le> count"
  shows "sent_by host (Sendmsg_x (int k) c, Some (Ret (int n))) = [k ..< k + n]"
proof -
  have "map (\<lambda>j. msg_iov (msgs host ! j)) [k..<k + n] = map id [k..<k + n]"
    using assms by (intro map_cong) (auto simp: own_iovs_def)
  then show ?thesis by (simp add: nat_plus_as_int[symmetric] flip: of_nat_add)
qed

lemma fast_state_sent:
  assumes fs: "fast_state host count k b" and iovs: "own_iovs count host"
    and n: "0 \<le> n" "n \<le> count - b_packets b"
  shows "fast_state host count (k + nat n)
    ((logged (Sendmsg_x (b_packets b) (count - b_packets b)) (Some (Ret n)) (b\<lparr>b_fast := b_fast b + 1\<rparr>))
       \<lparr>b_packets := b_packets b + n\<rparr>)"
proof -
  have k: "b_packets b = int k" using fs by (rule fast_state_packets)
  have fields: "b_drops b = 0" "b_retries b \<le> VM_RETRY_MAX"
    "b_fast b = of_nat (calls_of is_sendmsg (b_calls b))"
    "b_slow b = of_nat (calls_of is_write (b_calls b))"
    "b_retries b = int (calls_of ((=) Nanosleep) (b_calls b))"
    using fs by (simp_all add: fast_state_def tally_defs)
  have le: "int (k + nat n) \<le> count" using n k by simp
  have sent: "sent_by host (Sendmsg_x (int k) c, Some (Ret n)) = [k ..< k + nat n]" for c
    using sent_run[OF iovs le] n by simp
  have app: "[0..<k] @ [k ..< k + nat n] = [0..<k + nat n]"
    using upt_add_eq_append[of 0 k "nat n"] by simp
  let ?b = "(logged (Sendmsg_x (b_packets b) (count - b_packets b)) (Some (Ret n))
    (b\<lparr>b_fast := b_fast b + 1\<rparr>))\<lparr>b_packets := b_packets b + n\<rparr>"
  have del: "delivered host (b_calls ?b) = [0..<k + nat n]"
    using fs by (simp add: fast_state_def sent app k del: sent_by.simps)
  have "tally host (k + nat n) ?b"
    using n fields unfolding tally_defs del by (simp add: k)
  with del le fs show ?thesis by (simp add: fast_state_def)
qed

lemma list_all_prefix: "list_all P ys \<Longrightarrow> prefix xs ys \<Longrightarrow> list_all P xs"
  by (auto simp: prefix_def)

lemma fast_state_size:
  "fast_state host count k b \<Longrightarrow>
   host_packets_size host (b_packets b) = bytes_of host (delivered host (b_calls b))"
  using host_packets_size_bytes[of host k] by (auto simp: fast_state_def tally_defs)

lemma fast_state_bytes:
  "fast_state host count k (b\<lparr>b_bytes := x\<rparr>) = fast_state host count k b"
  by (simp add: fast_state_def tally_defs)

lemma fast_path_Done:
  assumes "fast_path host count b rs = (Done full, b', rs')" and "fast_state host count k b"
    and "own_iovs count host" and "list_all call_ok (b_calls b')"
  shows "\<exists>k'. fast_state host count k' b' \<and> (full \<longrightarrow> int k' = count) \<and>
    b_bytes b' = bytes_of host (delivered host (b_calls b'))"
  using assms
proof (induction host count b rs arbitrary: k rule: fast_path.induct)
  case (1 host count b)
  then show ?case by simp
next
  case (2 host count b r rs)
  let ?b = "logged (Sendmsg_x (b_packets b) (count - b_packets b)) (Some r) (b\<lparr>b_fast := b_fast b + 1\<rparr>)"
  show ?case
  proof (cases r)
    case (Fail e)
    have fs: "fast_state host count k ?b" using 2(4) Fail fast_state_fail by simp
    show ?thesis
    proof (cases "e = ENOBUFS \<and> b_retries b < VM_RETRY_MAX")
      case True
      have "fast_state host count k (wait_for_buffer_space ?b)"
        using fs True by (intro fast_state_wait) simp_all
      then show ?thesis using 2 Fail True by (simp add: Let_def)
    next
      case False
      then have b': "b' = ?b\<lparr>b_bytes := host_packets_size host (b_packets ?b)\<rparr>" and "\<not> full"
        using 2(3) Fail by (auto simp: Let_def)
      then show ?thesis
        using fs fast_state_size[OF fs] by (auto simp: fast_state_bytes intro!: exI[of _ k])
    qed
  next
    case (Ret n)
    let ?c = "?b\<lparr>b_packets := b_packets ?b + n\<rparr>"
    have pre: "prefix (b_calls ?c) (b_calls b')"
      using 2(3) Ret by (auto simp: Let_def dest!: fast_path_calls split: if_splits)
    then have "call_ok (Sendmsg_x (b_packets b) (count - b_packets b), Some (Ret n))"
      using list_all_prefix[OF 2(6) pre] Ret by simp
    then have n: "0 \<le> n" "n \<le> count - b_packets b" by simp_all
    have fs: "fast_state host count (k + nat n) ?c"
      using fast_state_sent[OF 2(4,5) n] Ret by simp
    show ?thesis
    proof (cases "b_packets ?c = count")
      case True
      then have b': "b' = ?c\<lparr>b_bytes := host_packets_size host (b_packets ?c)\<rparr>" and "full"
        using 2(3) Ret by (auto simp: Let_def)
      then show ?thesis
        using fs fast_state_size[OF fs] fast_state_packets[OF fs] True
        by (auto simp: fast_state_bytes intro!: exI[of _ "k + nat n"])
    next
      case False
      have "fast_path host count ?c rs = (Done full, b', rs')"
        using 2(3) Ret False by (simp add: Let_def)
      then show ?thesis using 2(1)[OF refl Ret refl _ _ fs] 2(5,6) False by simp
    qed
  qed
qed

subsection \<open>The slow path\<close>

lemma write_packet_calls:
  "write_packet k sz b rs = (res, b', rs') \<Longrightarrow> prefix (b_calls b) (b_calls b')"
  by (induction k sz b rs rule: write_packet.induct)
     (auto simp: Let_def split: if_splits dest!: append_prefixD)

lemma write_packet_Done:
  assumes "write_packet k sz b rs = (Done r, b', rs')" and "counts_ok b"
  shows "counts_ok b' \<and> b_packets b' = b_packets b \<and> b_drops b' = b_drops b \<and>
    b_bytes b' = b_bytes b \<and> (\<exists>cs. b_calls b' = cs @ [(Write k sz, Some r)]) \<and>
    delivered host (b_calls b') =
      delivered host (b_calls b) @ (case r of Ret n \<Rightarrow> [k] | Fail e \<Rightarrow> [])"
  using assms
proof (induction k sz b rs rule: write_packet.induct)
  case (1 k sz b)
  then show ?case by simp
next
  case (2 k sz b r' rs)
  let ?b = "logged (Write k sz) (Some r') (b\<lparr>b_slow := b_slow b + 1\<rparr>)"
  have ok: "counts_ok ?b" using 2(3) by (simp add: counts_ok_def)
  show ?case
  proof (cases "r' = Fail ENOBUFS \<and> b_retries b < VM_RETRY_MAX")
    case True
    have "counts_ok (wait_for_buffer_space ?b)" using ok True by (simp add: counts_ok_def)
    with 2 True show ?thesis by (simp add: Let_def)
  next
    case False
    then show ?thesis using 2(2) ok by (auto simp: Let_def split: sysret.split)
  qed
qed

lemma write_packet_returns [simp]:
  "write_packet k sz b rs \<noteq> (Exited c, b', rs')" "write_packet k sz b rs \<noteq> (Aborted, b', rs')"
  by (induction k sz b rs rule: write_packet.induct) (auto simp: Let_def)

lemma slow_path_calls:
  "slow_path host is b rs = (res, b', rs') \<Longrightarrow> prefix (b_calls b) (b_calls b')"
proof (induction host "is" b rs rule: slow_path.induct)
  case (1 host b rs)
  then show ?case by simp
next
  case (2 host i "is" b rs)
  obtain o1 b1 rs1 where w: "write_packet (vm_pkt_iov (packets host ! i))
      (vm_pkt_size (packets host ! i)) b rs = (o1, b1, rs1)"
    by (metis prod_cases3)
  have pre: "prefix (b_calls b) (b_calls b1)" by (rule write_packet_calls[OF w])
  have rest: "o1 = Done r \<Longrightarrow> prefix (b_calls b1) (b_calls b')" for r
    using 2 w by (auto simp: Let_def split: sysret.splits if_splits)
  show ?case
  proof (cases o1)
    case (Done r)
    with pre rest show ?thesis by (blast intro: prefix_order.trans)
  qed (use 2(4) w pre in \<open>auto simp: Let_def\<close>)
qed

lemma tally_dropped:
  assumes "tally host i b" and "counts_ok b1" and "b_packets b1 = b_packets b"
    and "b_drops b1 = b_drops b" and "delivered host (b_calls b1) = delivered host (b_calls b)"
  shows "tally host (Suc i) (b1\<lparr>b_drops := b_drops b1 + 1\<rparr>)"
proof -
  have "counts_ok (b1\<lparr>b_drops := b_drops b1 + 1\<rparr>)"
    using assms(2) by (simp add: counts_ok_def)
  then show ?thesis using assms by (auto simp: tally_def list_all_iff)
qed

lemma tally_delivered:
  assumes "tally host i b" and "counts_ok b1" and "b_packets b1 = b_packets b"
    and "b_drops b1 = b_drops b" and "delivered host (b_calls b1) = delivered host (b_calls b) @ [i]"
  shows "tally host (Suc i) (b1\<lparr>b_packets := b_packets b1 + 1, b_bytes := x\<rparr>)"
proof -
  have "counts_ok (b1\<lparr>b_packets := b_packets b1 + 1, b_bytes := x\<rparr>)"
    using assms(2) by (simp add: counts_ok_def)
  then show ?thesis using assms by (auto simp: tally_def list_all_iff sorted_wrt_append)
qed

lemma slow_path_ends:
  assumes "slow_path host [i..<m] b rs = (res, b', rs')" and "tally host i b"
    and "own_iovs (int m) host" and "list_all call_ok (b_calls b')" and "i \<le> m"
    and "b_bytes b = bytes_of host (delivered host (b_calls b))"
  shows "(res = Done () \<longrightarrow> tally host m b' \<and>
      b_bytes b' = bytes_of host (delivered host (b_calls b'))) \<and> res \<noteq> Aborted \<and> res \<noteq> Exited c"
  using assms
proof (induction "m - i" arbitrary: i b rs)
  case 0
  then show ?case by auto
next
  case (Suc n)
  then have im: "i < m" and up: "[i..<m] = i # [Suc i..<m]" and n: "n = m - Suc i"
    by (auto simp: upt_conv_Cons)
  have k: "vm_pkt_iov (packets host ! i) = i" using Suc im by (simp add: own_iovs_def)
  let ?sz = "vm_pkt_size (packets host ! i)"
  obtain o1 b1 rs1 where w: "write_packet i ?sz b rs = (o1, b1, rs1)" by (metis prod_cases3)
  show ?case
  proof (cases o1)
    case (Done r)
    have c: "counts_ok b" using Suc(4) by (simp add: tally_def)
    note wp = write_packet_Done[OF w[unfolded Done] c]
    show ?thesis
    proof (cases r)
      case (Fail e)
      let ?b = "b1\<lparr>b_drops := b_drops b1 + 1\<rparr>"
      have rest: "slow_path host [Suc i..<m] ?b rs1 = (res, b', rs')"
        using Suc(3) w Done Fail by (simp add: up Let_def k)
      have "tally host (Suc i) ?b"
        using tally_dropped[OF Suc(4)] wp Fail by (metis append_Nil2 sysret.simps(6))
      moreover have "b_bytes ?b = bytes_of host (delivered host (b_calls ?b))"
        using wp[of host] Fail Suc(8) by simp
      ultimately show ?thesis using Suc(1)[OF n rest _ Suc(5,6)] im by simp
    next
      case (Ret len)
      let ?b = "b1\<lparr>b_packets := b_packets b1 + 1, b_bytes := b_bytes b1 + ?sz\<rparr>"
      have sp: "slow_path host [i..<m] b rs =
          (if len < 0 then slow_path host [Suc i..<m] (b1\<lparr>b_drops := b_drops b1 + 1\<rparr>) rs1
           else if word_of_int len \<noteq> ?sz then (Aborted, ?b, rs1)
           else slow_path host [Suc i..<m] ?b rs1)"
        using w Done Ret by (simp add: up Let_def k)
      have "prefix (b_calls b1) (b_calls b')"
        using Suc(3) unfolding sp by (auto dest!: slow_path_calls split: if_splits)
      from list_all_prefix[OF Suc(6) this] have len: "len = uint ?sz"
        using wp[of host] Ret by auto
      with sp have rest: "slow_path host [Suc i..<m] ?b rs1 = (res, b', rs')"
        using Suc(3) by simp
      have d: "delivered host (b_calls b1) = delivered host (b_calls b) @ [i]"
        using wp[of host] Ret by simp
      have "tally host (Suc i) ?b"
        using tally_delivered[OF Suc(4) _ _ _ d] wp by blast
      moreover have "b_bytes ?b = bytes_of host (delivered host (b_calls ?b))"
        using wp[of host] d Suc(8) by simp
      ultimately show ?thesis using Suc(1)[OF n rest _ Suc(5,6)] im by simp
    qed
  qed (use Suc(3) w k in \<open>auto simp: up Let_def\<close>)
qed

subsection \<open>The number of calls\<close>

definition tries :: "batch \<Rightarrow> nat" where
  "tries b = calls_of (\<lambda>c. c \<noteq> Nanosleep) (b_calls b)"

lemma tries_simps [simp]:
  "tries (wait_for_buffer_space b) = tries b" "c \<noteq> Nanosleep \<Longrightarrow> tries (logged c r b) = Suc (tries b)"
  "tries (b\<lparr>b_packets := x\<rparr>) = tries b" "tries (b\<lparr>b_bytes := y\<rparr>) = tries b"
  "tries (b\<lparr>b_fast := z\<rparr>) = tries b" "tries (b\<lparr>b_slow := z\<rparr>) = tries b"
  "tries (b\<lparr>b_drops := x\<rparr>) = tries b"
  by (simp_all add: tries_def)

lemma fast_path_tries:
  assumes "fast_path host count b rs = (res, b', rs')" and "fast_state host count k b"
    and "own_iovs count host" and "list_all call_ok (b_calls b')" and "list_all call_live (b_calls b')"
    and "int (tries b) \<le> int k + b_retries b" and "int k < count"
  shows "length rs + tries b = length rs' + tries b' \<and>
    (res = Waiting \<longrightarrow> rs' = [] \<and> int (tries b') < count + VM_RETRY_MAX) \<and>
    (\<forall>full. res = Done full \<longrightarrow> int (tries b') \<le> b_packets b' + b_retries b' + 1)"
  using assms
proof (induction host count b rs arbitrary: k rule: fast_path.induct)
  case (1 host count b)
  then show ?case by (auto simp: fast_state_def tally_defs)
next
  case (2 host count b r rs)
  let ?b = "logged (Sendmsg_x (b_packets b) (count - b_packets b)) (Some r) (b\<lparr>b_fast := b_fast b + 1\<rparr>)"
  have k: "b_packets b = int k" using 2(4) by (rule fast_state_packets)
  show ?case
  proof (cases r)
    case (Fail e)
    have fs: "fast_state host count k ?b" using 2(4) Fail fast_state_fail by simp
    show ?thesis
    proof (cases "e = ENOBUFS \<and> b_retries b < VM_RETRY_MAX")
      case True
      have fw: "fast_state host count k (wait_for_buffer_space ?b)"
        using fs True by (intro fast_state_wait) simp_all
      have "fast_path host count (wait_for_buffer_space ?b) rs = (res, b', rs')"
        using 2(3) Fail True by (simp add: Let_def)
      from 2(2)[OF refl Fail _ this fw 2(5,6,7) _ 2(9)] show ?thesis
        using True 2(8) by simp
    next
      case False
      then have "res = Done False" "b' = ?b\<lparr>b_bytes := host_packets_size host (b_packets ?b)\<rparr>"
        "rs' = rs"
        using 2(3) Fail by (auto simp: Let_def)
      then show ?thesis using 2(8) k by simp
    qed
  next
    case (Ret n)
    let ?c = "?b\<lparr>b_packets := b_packets ?b + n\<rparr>"
    have pre: "prefix (b_calls ?c) (b_calls b')"
      using 2(3) Ret by (auto simp: Let_def dest!: fast_path_calls split: if_splits)
    have n: "1 \<le> n" "n \<le> count - b_packets b"
      using list_all_prefix[OF 2(6) pre] list_all_prefix[OF 2(7) pre] Ret by simp_all
    have fs: "fast_state host count (k + nat n) ?c"
      using fast_state_sent[OF 2(4,5) _ n(2)] n(1) Ret by simp
    show ?thesis
    proof (cases "b_packets ?c = count")
      case True
      then have "res = Done True" "b' = ?c\<lparr>b_bytes := host_packets_size host (b_packets ?c)\<rparr>"
        "rs' = rs"
        using 2(3) Ret by (auto simp: Let_def)
      then show ?thesis using 2(8) k n by simp
    next
      case False
      have run: "fast_path host count ?c rs = (res, b', rs')"
        using 2(3) Ret False by (simp add: Let_def)
      have lt: "int (k + nat n) < count" using False n k by simp
      from 2(1)[OF refl Ret refl False run fs 2(5,6,7) _ lt] show ?thesis
        using 2(8) n(1) by simp
    qed
  qed
qed

lemma write_packet_tries:
  assumes "write_packet k sz b rs = (res, b', rs')" and "b_retries b \<le> VM_RETRY_MAX"
  shows "length rs + tries b = length rs' + tries b' \<and> (res = Waiting \<longrightarrow> rs' = []) \<and>
    b_retries b' \<le> VM_RETRY_MAX \<and>
    int (tries b') - b_retries b' = int (tries b) - b_retries b + (if res = Waiting then 0 else 1)"
  using assms
  by (induction k sz b rs rule: write_packet.induct) (auto simp: Let_def split: if_splits)

lemma slow_path_tries:
  assumes "slow_path host [i..<m] b rs = (res, b', rs')" and "b_retries b \<le> VM_RETRY_MAX"
    and "int (tries b) \<le> int i + b_retries b + 1" and "i \<le> m"
  shows "length rs + tries b = length rs' + tries b' \<and>
    int (tries b') \<le> int m + VM_RETRY_MAX + 1 \<and>
    (res = Waiting \<longrightarrow> rs' = [] \<and> int (tries b') \<le> int m + VM_RETRY_MAX)"
  using assms
proof (induction "m - i" arbitrary: i b rs)
  case 0
  then show ?case by auto
next
  case (Suc n)
  then have im: "i < m" and up: "[i..<m] = i # [Suc i..<m]" and n: "n = m - Suc i"
    by (auto simp: upt_conv_Cons)
  let ?sz = "vm_pkt_size (packets host ! i)" and ?k = "vm_pkt_iov (packets host ! i)"
  obtain o1 b1 rs1 where w: "write_packet ?k ?sz b rs = (o1, b1, rs1)" by (metis prod_cases3)
  note wt = write_packet_tries[OF w Suc(4)]
  show ?case
  proof (cases o1)
    case (Done r)
    have step: "\<exists>b2. slow_path host [Suc i..<m] b2 rs1 = (res, b', rs') \<and> tries b2 = tries b1 \<and>
          b_retries b2 = b_retries b1 \<or> res = Aborted \<and> tries b' = tries b1 \<and> rs' = rs1"
      using Suc(3) w Done by (auto simp: up Let_def split: sysret.splits if_splits)
    then consider (ab) "res = Aborted" "tries b' = tries b1" "rs' = rs1"
      | (go) b2 where "slow_path host [Suc i..<m] b2 rs1 = (res, b', rs')" "tries b2 = tries b1"
          "b_retries b2 = b_retries b1"
      by blast
    then show ?thesis
    proof cases
      case ab
      then show ?thesis using wt Done Suc(5) im by auto
    next
      case go
      from Suc(1)[OF n go(1)] go wt Done Suc(5) im show ?thesis by auto
    qed
  qed (use Suc(3,5) w wt im in \<open>auto simp: up Let_def\<close>)
qed

section \<open>Properties of a batch\<close>

lemma copy_lengths_fields [simp]:
  "packets (copy_lengths count host) = packets host" "stats (copy_lengths count host) = stats host"
  "msg_iov (msgs (copy_lengths count host) ! j) = msg_iov (msgs host ! j)"
  by (simp_all add: copy_lengths_def)

lemma copy_lengths_delivered [simp]:
  "delivered (copy_lengths count host) cs = delivered host cs"
proof -
  have "sent_by (copy_lengths count host) c = sent_by host c" for c
    by (induction host c rule: sent_by.induct) simp_all
  then have "sent_by (copy_lengths count host) = sent_by host" by (rule ext)
  then show ?thesis by (simp add: delivered_def)
qed

lemma copy_lengths_same [simp]:
  "bytes_of (copy_lengths count host) js = bytes_of host js"
  "own_iovs count (copy_lengths c host) = own_iovs count host"
  by (simp_all add: bytes_of_def own_iovs_def)



lemma fast_path_returns [simp]:
  "fast_path host count b rs \<noteq> (Exited c, b', rs')" "fast_path host count b rs \<noteq> (Aborted, b', rs')"
  by (induction host count b rs rule: fast_path.induct) (auto simp: Let_def split: sysret.splits)

text \<open>The slow path starts where the fast path stopped.\<close>

lemma send_batch_cases:
  assumes "send_batch bulk count host rs = (res, b, rs')" and "0 \<le> count"
    and "own_iovs count host" and "list_all call_ok (b_calls b)"
  obtains (full) "bulk" "res = Done ()" "fast_path host count batch_start rs = (Done True, b, rs')"
      "fast_state host count (nat count) b"
      "b_bytes b = bytes_of host (delivered host (b_calls b))"
  | (stuck) "bulk" "res = Waiting" "fast_path host count batch_start rs = (Waiting, b, rs')"
  | (slow) k b1 rs1 where "fast_state host count k b1"
      "b_bytes b1 = bytes_of host (delivered host (b_calls b1))"
      "bulk \<longrightarrow> fast_path host count batch_start rs = (Done False, b1, rs1)"
      "\<not> bulk \<longrightarrow> b1 = batch_start \<and> rs1 = rs"
      "slow_path host [k..<nat count] b1 rs1 = (res, b, rs')"
proof (cases bulk)
  case False
  have "fast_state host count 0 batch_start" using assms(2) by (rule fast_state_start)
  moreover have "b_bytes batch_start = bytes_of host (delivered host (b_calls batch_start))"
    by (simp add: batch_start_def)
  moreover have "slow_path host [0..<nat count] batch_start rs = (res, b, rs')"
    using assms(1) False by (simp add: send_batch_def batch_start_def)
  ultimately show ?thesis using slow[of 0] False by blast
next
  case True
  obtain o1 b1 rs1 where f: "fast_path host count batch_start rs = (o1, b1, rs1)"
    by (metis prod_cases3)
  note start = fast_state_start[OF assms(2)]
  show ?thesis
  proof (cases o1)
    case (Done all)
    have pre: "prefix (b_calls b1) (b_calls b)"
      using assms(1) f True Done by (auto simp: send_batch_def dest: slow_path_calls split: if_splits)
    obtain k where k: "fast_state host count k b1" "all \<longrightarrow> int k = count"
      "b_bytes b1 = bytes_of host (delivered host (b_calls b1))"
      using fast_path_Done[OF f[unfolded Done] start assms(3)] list_all_prefix[OF assms(4) pre]
      by blast
    show ?thesis
    proof (cases all)
      case True
      then show ?thesis
        using full \<open>bulk\<close> assms(1) f Done k by (auto simp: send_batch_def)
    next
      case False
      have "slow_path host [k..<nat count] b1 rs1 = (res, b, rs')"
        using assms(1) f True Done False fast_state_packets[OF k(1)] by (simp add: send_batch_def)
      with slow[OF k(1,3)] f True Done False show ?thesis by simp
    qed
  qed (use assms(1) f True stuck in \<open>auto simp: send_batch_def\<close>)
qed

lemma send_batch_account:
  assumes "send_batch bulk count host rs = (res, b, rs')" and "0 \<le> count"
    and "own_iovs count host" and "list_all call_ok (b_calls b)"
  shows "(res = Done () \<longrightarrow> tally host (nat count) b \<and>
      b_bytes b = bytes_of host (delivered host (b_calls b))) \<and> res \<noteq> Aborted \<and> res \<noteq> Exited c"
  using assms
proof (cases rule: send_batch_cases)
  case full
  then show ?thesis by (simp add: fast_state_def)
next
  case stuck
  then show ?thesis by simp
next
  case (slow k b1 rs1)
  have own: "own_iovs (int (nat count)) host" using assms(2,3) by simp
  have "tally host k b1" and "k \<le> nat count" using slow(1) by (auto simp: fast_state_def)
  with slow_path_ends[OF slow(5) _ own assms(4) _ slow(2)] show ?thesis by simp
qed

lemma fast_state_retries: "fast_state host count k b \<Longrightarrow> b_retries b \<le> VM_RETRY_MAX"
  by (simp add: fast_state_def tally_defs)

lemma fast_state_le: "fast_state host count k b \<Longrightarrow> k \<le> nat count"
  by (auto simp: fast_state_def)

lemma send_batch_calls:
  assumes "send_batch bulk count host rs = (res, b, rs')" and "1 \<le> count"
    and "own_iovs count host" and "list_all call_ok (b_calls b)" and "list_all call_live (b_calls b)"
  shows "length rs = length rs' + tries b \<and> int (tries b) \<le> count + VM_RETRY_MAX + 1 \<and>
    (res = Waiting \<longrightarrow> rs' = [] \<and> int (tries b) \<le> count + VM_RETRY_MAX)"
proof -
  have zero: "tries batch_start = 0" "b_retries batch_start = 0"
    by (simp_all add: batch_start_def tries_def)
  have pos: "0 \<le> count" using assms(2) by simp
  note ft = fast_path_tries[OF _ fast_state_start[OF pos] assms(3)]
  show ?thesis
    using assms(1) pos assms(3,4)
  proof (cases rule: send_batch_cases)
    case full
    have "b_packets b = int (nat count)" using full(4) by (rule fast_state_packets)
    moreover have "b_retries b \<le> VM_RETRY_MAX" using full(4) by (simp add: fast_state_retries)
    ultimately show ?thesis
      using ft[OF full(3) assms(4,5)] assms(2) full(2) by (auto simp: zero)
  next
    case stuck
    from ft[OF stuck(3) assms(4,5)] assms(2) stuck show ?thesis by (simp add: zero)
  next
    case (slow k b1 rs1)
    have pre: "prefix (b_calls b1) (b_calls b)" using slow(5) by (rule slow_path_calls)
    have live: "list_all call_ok (b_calls b1)" "list_all call_live (b_calls b1)"
      using assms(4,5) list_all_prefix pre by blast+
    have k: "b_packets b1 = int k" "b_retries b1 \<le> VM_RETRY_MAX" "k \<le> nat count"
      using slow(1) by (simp_all add: fast_state_packets fast_state_retries fast_state_le)
    have "length rs = length rs1 + tries b1 \<and> int (tries b1) \<le> int k + b_retries b1 + 1"
    proof (cases bulk)
      case True
      with ft[of rs "Done False" b1 rs1] slow(3) live assms(2) k(1) show ?thesis by (auto simp: zero)
    next
      case False
      with slow(4) show ?thesis by (simp add: zero)
    qed
    with slow_path_tries[OF slow(5) k(2) _ k(3)] assms(2) show ?thesis by auto
  qed
qed

text \<open>
  C1: Forwarding a batch to the VM: of the packets of the batch a strictly increasing
  sequence is delivered, so each packet at most once and in order, on the fast and on the slow
  path together; the host statistics grow by exactly the packets delivered, their bytes, the
  packets of the batch not delivered, and the calls made; the batch sleeps at most
  \<open>VM_RETRY_MAX\<close> times.
\<close>

theorem write_to_vm_account:
  assumes "write_to_vm bulk count host rs = (Done (), host', b, rs')" and "0 \<le> count"
    and "own_iovs count host" and "list_all call_ok (b_calls b)"
  shows "let sent = delivered host (b_calls b); s = stats host
    in sorted_wrt (<) sent \<and> set sent \<subseteq> {..<nat count} \<and>
       stats host' =
         \<lparr>st_packets = st_packets s + of_nat (length sent),
          st_bytes = st_bytes s + (\<Sum>j\<leftarrow>sent. vm_pkt_size (packets host ! j)),
          st_drops = st_drops s + of_nat (nat count - length sent),
          st_fast = st_fast s + of_nat (calls_of is_sendmsg (b_calls b)),
          st_slow = st_slow s + of_nat (calls_of is_write (b_calls b))\<rparr> \<and>
       calls_of ((=) Nanosleep) (b_calls b) \<le> 10"
proof -
  let ?h = "copy_lengths count host"
  have run: "send_batch bulk count ?h rs = (Done (), b, rs')" and h': "host' = add_stats b ?h"
    using assms(1) by (auto simp: write_to_vm_def Let_def split: prod.splits)
  have t: "tally host (nat count) b" and bytes: "b_bytes b = bytes_of host (delivered host (b_calls b))"
    using send_batch_account[OF run assms(2)] assms(3,4) by (simp_all add: tally_def)
  have d: "b_drops b = int (nat count - length (delivered host (b_calls b)))"
  proof -
    have "int (length (delivered host (b_calls b))) + b_drops b = int (nat count)" "0 \<le> b_drops b"
      using t by (simp_all add: tally_def del: int_nat_eq)
    then show ?thesis by linarith
  qed
  show ?thesis
    using t bytes unfolding h' Let_def
    by (auto simp: add_stats_def d Let_def tally_defs bytes_of_def list_all_iff VM_RETRY_MAX_def)
qed

text \<open>
  C4: Forwarding a batch always ends: with a kernel that sends something whenever it
  reports success, no outcome but returning is possible once the kernel answers, the assertion on
  partial writes never fails, and at most \<open>count + VM_RETRY_MAX + 1\<close> calls are made, so that
  many answers suffice.
\<close>

theorem write_to_vm_returns:
  assumes "write_to_vm bulk count host rs = (res, host', b, rs')" and "1 \<le> count"
    and "own_iovs count host" and "list_all call_ok (b_calls b)" and "list_all call_live (b_calls b)"
  shows "(res = Done () \<or> res = Waiting) \<and>
    int (calls_of (\<lambda>c. c \<noteq> Nanosleep) (b_calls b)) \<le> count + VM_RETRY_MAX + 1 \<and>
    (count + VM_RETRY_MAX < int (length rs) \<longrightarrow> res = Done ())"
proof -
  have run: "send_batch bulk count (copy_lengths count host) rs = (res, b, rs')"
    using assms(1) by (auto simp: write_to_vm_def Let_def split: prod.splits)
  have own: "own_iovs count (copy_lengths count host)" and pos: "0 \<le> count" using assms by auto
  have "res = Done () \<or> res = Waiting"
    using send_batch_account[OF run pos own assms(4)] by (cases res) auto
  with send_batch_calls[OF run assms(2) own assms(4,5)] show ?thesis
    by (auto simp: tries_def)
qed

definition sample_host :: endpoint where
  "sample_host = \<lparr>packets = map (\<lambda>i. zero_packet\<lparr>vm_pkt_size := 60 + of_nat i, vm_pkt_iov := i\<rparr>) [0..<3],
     msgs = map (\<lambda>i. zero_msg\<lparr>msg_iov := i\<rparr>) [0..<3],
     iovs = map (\<lambda>i. zero_iov) [0..<3], buffers = 0, max_packet_count = 3, ep_name = ''host'',
     stats = stats_zero\<rparr>"

lemma sample_stats: "stats sample_host = stats_zero"
  by (simp add: sample_host_def)

lemma sample_iovs: "own_iovs 3 sample_host"
  by (simp add: own_iovs_def sample_host_def)

text \<open>One of three packets is sent at once, one dropped on the slow path, one written.\<close>

definition sample_results :: "sysret list" where
  "sample_results = [Ret 1, Fail ENOBUFS, Fail EINVAL, Fail EINVAL, Ret 62]"

lemma sample_run:
  "\<exists>host' b. write_to_vm True 3 sample_host sample_results = (Done (), host', b, []) \<and>
     list_all call_ok (b_calls b) \<and> list_all call_live (b_calls b) \<and>
     delivered sample_host (b_calls b) = [0, 2]"
proof -
  have "case write_to_vm True 3 sample_host sample_results of (res, host', b, rs') \<Rightarrow>
      res = Done () \<and> rs' = [] \<and> list_all call_ok (b_calls b) \<and> list_all call_live (b_calls b) \<and>
      delivered sample_host (b_calls b) = [0, 2]"
    by code_simp
  then show ?thesis by (auto split: prod.splits)
qed

theorem write_to_vm_account_witness:
  "\<exists>host' b. write_to_vm True 3 sample_host sample_results = (Done (), host', b, []) \<and>
     st_packets (stats host') = 2 \<and> st_drops (stats host') = 1"
proof -
  obtain host' b where r: "write_to_vm True 3 sample_host sample_results = (Done (), host', b, [])"
    and ok: "list_all call_ok (b_calls b)" and d: "delivered sample_host (b_calls b) = [0, 2]"
    using sample_run by blast
  have "(0 :: int) \<le> 3" by simp
  from write_to_vm_account[OF r this sample_iovs ok] r show ?thesis
    by (auto simp: Let_def d sample_stats stats_zero_def)
qed

theorem write_to_vm_returns_witness:
  "\<exists>host' b. write_to_vm True 3 sample_host sample_results = (Done (), host', b, []) \<and>
     int (calls_of (\<lambda>c. c \<noteq> Nanosleep) (b_calls b)) \<le> 14"
proof -
  obtain host' b where r: "write_to_vm True 3 sample_host sample_results = (Done (), host', b, [])"
    and ok: "list_all call_ok (b_calls b)" "list_all call_live (b_calls b)"
    using sample_run by blast
  have "(1 :: int) \<le> 3" by simp
  from write_to_vm_returns[OF r this sample_iovs ok] r show ?thesis
    by (auto simp: VM_RETRY_MAX_def)
qed


section \<open>Properties of the event callback\<close>

lemma bound_to_host_steps [simp]:
  "bound_to mps (reset_host m host) = bound_to mps host"
  "bound_to mps (fill_sizes r host) = bound_to mps host"
  "bound_to mps (copy_lengths count host) = bound_to mps host"
  "bound_to mps (add_stats b host) = bound_to mps host"
  by (simp_all add: bound_to_def reset_host_def Let_def reset_iovs_def fill_sizes_def
      copy_lengths_def add_stats_def other_fields del: nth_for_each)

lemma host_steps_same [simp]:
  "stats (fill_sizes r host) = stats host" "stats (reset_host m host) = stats host"
  "max_packet_count (fill_sizes r host) = max_packet_count host"
  "max_packet_count (reset_host m host) = max_packet_count host"
  "max_packet_count (copy_lengths count host) = max_packet_count host"
  "max_packet_count (add_stats b host) = max_packet_count host"
  by (simp_all add: fill_sizes_def reset_host_def reset_iovs_def Let_def copy_lengths_def add_stats_def)

lemma bound_own_iovs:
  "bound_to mps host \<Longrightarrow> count \<le> max_packet_count host \<Longrightarrow> own_iovs count host"
  by (auto simp: bound_to_def own_iovs_def)

lemma read_from_host_keeps:
  assumes "read_from_host mps r host = (count, host1)"
  shows "bound_to mps host1 = bound_to mps host" "stats host1 = stats host"
    "max_packet_count host1 = max_packet_count host"
    "count = (if hr_status r = VMNET_SUCCESS then hr_count r else -1)"
  using assms by (auto simp: read_from_host_def Let_def split: if_splits)

lemma write_to_vm_keeps:
  assumes "write_to_vm bulk count host rs = (res, host', b, rs')"
  shows "bound_to mps host' = bound_to mps host" "max_packet_count host' = max_packet_count host"
  using assms
  by (cases "send_batch bulk count (copy_lengths count host) rs";
      simp add: write_to_vm_def Let_def split: if_splits; fastforce)+

text \<open>The packets of a batch, delivered or dropped.\<close>

lemma write_to_vm_total:
  assumes "write_to_vm bulk count host rs = (Done (), host', b, rs')" and "0 \<le> count"
    and "own_iovs count host" and "list_all call_ok (b_calls b)"
  shows "st_packets (stats host') + st_drops (stats host') =
    st_packets (stats host) + st_drops (stats host) + word_of_int count"
proof -
  have run: "send_batch bulk count (copy_lengths count host) rs = (Done (), b, rs')"
    and h': "host' = add_stats b (copy_lengths count host)"
    using assms(1) by (auto simp: write_to_vm_def Let_def split: prod.splits)
  have "b_packets b + b_drops b = count"
    using send_batch_account[OF run assms(2)] assms(2-4) by (auto simp: tally_def)
  then have "word_of_int (b_packets b) + word_of_int (b_drops b) = (word_of_int count :: 64 word)"
    by (simp flip: of_int_add)
  then show ?thesis by (simp add: h' add_stats_def Let_def algebra_simps)
qed

definition reads_packets :: "host_read \<Rightarrow> bool" where
  "reads_packets r \<longleftrightarrow> hr_status r = VMNET_SUCCESS \<and> 1 \<le> hr_count r"

lemma packets_available_step:
  assumes "packets_available bulk mps (r # reads) host rs = (Done (), host', bs, rs')"
  obtains (stop) "\<not> reads_packets r" "host' = snd (read_from_host mps r host)" "bs = []"
  | (batch) host1 host2 b bs2 rs2 where "reads_packets r"
      "read_from_host mps r host = (hr_count r, host1)"
      "write_to_vm bulk (hr_count r) host1 rs = (Done (), host2, b, rs2)"
      "packets_available bulk mps reads host2 rs2 = (Done (), host', bs2, rs')" "bs = b # bs2"
proof -
  obtain count host1 where rd: "read_from_host mps r host = (count, host1)" by fastforce
  have count: "count = (if hr_status r = VMNET_SUCCESS then hr_count r else -1)"
    using rd by (rule read_from_host_keeps(4))
  show ?thesis
  proof (cases "reads_packets r")
    case False
    then have "count < 1" by (auto simp: count reads_packets_def)
    then show ?thesis using assms rd stop False by simp
  next
    case True
    then have c: "count = hr_count r" "\<not> count < 1" by (simp_all add: count reads_packets_def)
    obtain o2 host2 b rs2 where wr: "write_to_vm bulk count host1 rs = (o2, host2, b, rs2)"
      by (metis prod_cases4)
    show ?thesis
    proof (cases o2)
      case (Done u)
      obtain o3 host3 bs2 rs3 where rest: "packets_available bulk mps reads host2 rs2 = (o3, host3, bs2, rs3)"
        by (metis prod_cases4)
      show ?thesis
        using assms rd wr rest Done c batch[OF True, of host1 host2 b rs2 bs2] by simp
    qed (use assms rd wr c in simp_all)
  qed
qed

text \<open>
  C18: One run of the event callback: it stops exactly at the first read that fails or
  returns no packet, every packet of every read before that is counted once, as forwarded or as
  dropped, and the endpoint keeps its shape.
\<close>

theorem packets_available_account:
  assumes "packets_available bulk mps reads host rs = (Done (), host', bs, rs')"
    and "bound_to mps host" and "list_all (\<lambda>r. hr_count r \<le> max_packet_count host) reads"
    and "list_all (\<lambda>b. list_all call_ok (b_calls b)) bs"
  shows "bound_to mps host' \<and>
    length bs = length (takeWhile reads_packets reads) \<and> length bs < length reads \<and>
    st_packets (stats host') + st_drops (stats host') =
      st_packets (stats host) + st_drops (stats host) +
      (\<Sum>r\<leftarrow>takeWhile reads_packets reads. word_of_int (hr_count r))"
  using assms
proof (induction reads arbitrary: host rs bs)
  case Nil
  then show ?case by simp
next
  case (Cons r reads)
  show ?case
    using Cons.prems(1)
  proof (cases rule: packets_available_step)
    case stop
    then show ?thesis
      using Cons.prems(2) read_from_host_keeps[of mps r host "fst (read_from_host mps r host)" host']
      by simp
  next
    case (batch host1 host2 b bs2 rs2)
    note True = batch(1) and rd = batch(2) and wr = batch(3) and rest = batch(4) and bs = batch(5)
    note k1 = read_from_host_keeps[OF rd] and k2 = write_to_vm_keeps[OF wr]
    have own: "own_iovs (hr_count r) host1"
      using k1 Cons.prems(2,3) by (auto intro: bound_own_iovs)
    have pos: "0 \<le> hr_count r" using True by (simp add: reads_packets_def)
    have tot: "st_packets (stats host2) + st_drops (stats host2) =
        st_packets (stats host) + st_drops (stats host) + word_of_int (hr_count r)"
      using write_to_vm_total[OF wr pos own] Cons.prems(4) bs k1 by simp
    have "bound_to mps host2" "list_all (\<lambda>r. hr_count r \<le> max_packet_count host2) reads"
      "list_all (\<lambda>b. list_all call_ok (b_calls b)) bs2"
      using Cons.prems k1 k2 bs by simp_all
    from Cons.IH[OF rest this] show ?thesis using True bs tot by (simp add: algebra_simps)
  qed
qed

text \<open>One read of two packets, the last packet dropped; then nothing to read.\<close>

definition sample_reads :: "host_read list" where
  "sample_reads =
     (let r = \<lparr>hr_status = VMNET_SUCCESS, hr_count = 2, hr_sizes = [60, 70], hr_lens = [60, 70]\<rparr>
      in [r, r\<lparr>hr_count := 0, hr_sizes := [], hr_lens := []\<rparr>])"

definition bound_host :: endpoint where
  "bound_host = bind_buffers 65536 16
     \<lparr>packets = replicate 16 zero_packet, msgs = replicate 16 zero_msg, iovs = replicate 16 zero_iov,
      buffers = 16 * 65536, max_packet_count = 16, ep_name = ''host'', stats = stats_zero\<rparr>"

lemma bound_host_simps: "stats bound_host = stats_zero" "max_packet_count bound_host = 16"
  by (simp_all add: bound_host_def bind_buffers_def)

lemma bound_host_bound: "bound_to 65536 bound_host"
  by (simp add: bound_host_def bound_to_def bind_buffers_def packet_count_for_def)

theorem packets_available_account_witness:
  "\<exists>host' bs. packets_available True 65536 sample_reads bound_host
       [Fail EINVAL, Ret 60, Fail EINVAL] = (Done (), host', bs, []) \<and>
     st_packets (stats host') + st_drops (stats host') = 2"
proof -
  let ?run = "packets_available True 65536 sample_reads bound_host
       [Fail EINVAL, Ret 60, Fail EINVAL]"
  have "case ?run of (res, host', bs, rs') \<Rightarrow>
      res = Done () \<and> rs' = [] \<and> list_all (\<lambda>b. list_all call_ok (b_calls b)) bs"
    by code_simp
  then obtain host' bs where r: "?run = (Done (), host', bs, [])"
    and ok: "list_all (\<lambda>b. list_all call_ok (b_calls b)) bs"
    by (auto split: prod.splits)
  have "list_all (\<lambda>r. hr_count r \<le> max_packet_count bound_host) sample_reads"
    by (simp add: sample_reads_def Let_def bound_host_simps)
  from packets_available_account[OF r bound_host_bound this ok] r show ?thesis
    by (auto simp: sample_reads_def Let_def reads_packets_def bound_host_simps stats_zero_def)
qed

section \<open>Bulk and single writes\<close>

text \<open>The only failures are \<open>ENOBUFS\<close>, and fewer than the batch may wait for.\<close>

definition only_shortages :: "batch \<Rightarrow> bool" where
  "only_shortages b \<longleftrightarrow> list_all (\<lambda>c. \<forall>e. snd c = Some (Fail e) \<longrightarrow> e = ENOBUFS) (b_calls b) \<and>
     int (calls_of ((=) Nanosleep) (b_calls b)) < VM_RETRY_MAX"

lemma write_packet_ends:
  assumes "write_packet k sz b rs = (res, b', rs')"
  shows "b_retries b \<le> b_retries b' \<and> b_drops b' = b_drops b \<and>
    (\<forall>r. res = Done r \<longrightarrow> (Write k sz, Some r) \<in> set (b_calls b') \<and>
       (r = Fail ENOBUFS \<longrightarrow> VM_RETRY_MAX \<le> b_retries b'))"
  using assms
proof (induction k sz b rs rule: write_packet.induct)
  case (2 k sz b r rs)
  then show ?case by (fastforce simp: Let_def split: if_splits)
qed auto

lemma slow_path_retries:
  "slow_path host is b rs = (res, b', rs') \<Longrightarrow> b_retries b \<le> b_retries b'"
proof (induction host "is" b rs rule: slow_path.induct)
  case (2 host i "is" b rs)
  obtain o1 b1 rs1 where w: "write_packet (vm_pkt_iov (packets host ! i))
      (vm_pkt_size (packets host ! i)) b rs = (o1, b1, rs1)"
    by (metis prod_cases3)
  note e = write_packet_ends[OF w]
  have rest: "o1 = Done r \<Longrightarrow> b_retries b1 \<le> b_retries b'" for r
    using 2 w by (fastforce simp: Let_def split: sysret.splits if_splits)
  show ?case
    using 2(4) w e rest by (cases o1) fastforce+
qed simp

lemma slow_path_no_drops:
  assumes "slow_path host is b rs = (Done (), b', rs')" and "list_all call_ok (b_calls b')"
    and "list_all (\<lambda>c. \<forall>e. snd c = Some (Fail e) \<longrightarrow> e = ENOBUFS) (b_calls b')"
    and "b_retries b' < VM_RETRY_MAX"
  shows "b_drops b' = b_drops b"
  using assms
proof (induction host "is" b rs rule: slow_path.induct)
  case (2 host i "is" b rs)
  let ?k = "vm_pkt_iov (packets host ! i)" and ?sz = "vm_pkt_size (packets host ! i)"
  obtain r b1 rs1 where w: "write_packet ?k ?sz b rs = (Done r, b1, rs1)"
    using 2(4) by (auto simp: Let_def split: prod.splits outcome.splits)
  note e = write_packet_ends[OF w]
  have "prefix (b_calls b1) (b_calls b') \<and> b_retries b1 \<le> b_retries b'"
    using 2(4) w by (fastforce simp: Let_def split: sysret.splits if_splits
        dest: slow_path_calls slow_path_retries)
  then have m: "(Write ?k ?sz, Some r) \<in> set (b_calls b')" and "b_retries b1 < VM_RETRY_MAX"
    using e 2(7) set_mono_prefix by (blast, linarith)
  then have nf: "r \<noteq> Fail x" for x
    using e 2(6) by (auto simp: list_all_iff)
  then obtain len where r: "r = Ret len" by (cases r) auto
  have "call_ok (Write ?k ?sz, Some r)" using 2(5) m unfolding list_all_iff by blast
  then have len: "len = uint ?sz" by (simp add: r)
  have "slow_path host is (b1\<lparr>b_packets := b_packets b1 + 1, b_bytes := b_bytes b1 + ?sz\<rparr>) rs1 = (Done (), b', rs')"
    using 2(4) w by (simp add: r len)
  then have "b_drops b' = b_drops b1"
    using "2.IH"(2)[OF refl w[symmetric]] 2(5,6,7) r len by simp
  with e show ?case by simp
qed simp
lemma send_batch_complete:
  assumes "send_batch bulk count host rs = (Done (), b, rs')" and "0 \<le> count"
    and "own_iovs count host" and "list_all call_ok (b_calls b)" and "only_shortages b"
  shows "b_drops b = 0 \<and> delivered host (b_calls b) = [0..<nat count]"
proof -
  have t: "tally host (nat count) b" using send_batch_account[OF assms(1-4)] by simp
  have r: "b_retries b < VM_RETRY_MAX" using t assms(5) by (simp add: tally_defs only_shortages_def)
  have d: "b_drops b = 0"
    using assms(1-4)
  proof (cases rule: send_batch_cases)
    case (slow k b1 rs1)
    then show ?thesis
      using slow_path_no_drops[OF slow(5) assms(4) _ r] assms(5)
      by (simp add: fast_state_def only_shortages_def)
  qed (simp_all add: fast_state_def)
  have "length (delivered host (b_calls b)) = nat count"
    using t d by (simp add: tally_def del: int_nat_eq)
  moreover have "sorted_wrt (<) (delivered host (b_calls b))" "set (delivered host (b_calls b)) \<subseteq> {..<nat count}"
    using t by (auto simp: tally_def list_all_iff)
  ultimately have "set (delivered host (b_calls b)) = {..<nat count}" "sorted (delivered host (b_calls b))"
      "distinct (delivered host (b_calls b))"
    by (simp_all add: card_subset_eq distinct_card strict_sorted_iff)
  then have "delivered host (b_calls b) = [0..<nat count]"
    by (intro sorted_distinct_set_unique) (auto simp: atLeast0LessThan)
  with d show ?thesis by simp
qed

text \<open>
  C17: Bulk forwarding is an optimisation only: whatever the kernel's answers, as long as the only
  failures are fewer buffer shortages than the batch waits for, the bulk run and the run that
  writes packet by packet deliver the same packets, all of the batch in order, and leave the
  same packet, byte and drop counts.
\<close>

theorem bulk_same_delivery:
  assumes "write_to_vm True count host rs1 = (Done (), h1, b1, rs1')"
    and "write_to_vm False count host rs2 = (Done (), h2, b2, rs2')"
    and "0 \<le> count" and "own_iovs count host"
    and "list_all call_ok (b_calls b1)" and "list_all call_ok (b_calls b2)"
    and "only_shortages b1" and "only_shortages b2"
  shows "delivered host (b_calls b1) = delivered host (b_calls b2) \<and>
    delivered host (b_calls b1) = [0..<nat count] \<and>
    st_packets (stats h1) = st_packets (stats h2) \<and> st_bytes (stats h1) = st_bytes (stats h2) \<and>
    st_drops (stats h1) = st_drops (stats host) \<and> st_drops (stats h2) = st_drops (stats host)"
proof -
  let ?h = "copy_lengths count host"
  have own: "own_iovs count ?h" using assms(4) by simp
  have run: "send_batch True count ?h rs1 = (Done (), b1, rs1')" "h1 = add_stats b1 ?h"
    "send_batch False count ?h rs2 = (Done (), b2, rs2')" "h2 = add_stats b2 ?h"
    using assms(1,2) by (auto simp: write_to_vm_def Let_def split: prod.splits)
  note c1 = send_batch_complete[OF run(1) assms(3) own assms(5,7)]
  note c2 = send_batch_complete[OF run(3) assms(3) own assms(6,8)]
  have a1: "b_packets b1 = int (nat count) \<and> b_bytes b1 = bytes_of host [0..<nat count]"
    using send_batch_account[OF run(1) assms(3) own assms(5)] c1 by (simp add: tally_def)
  have a2: "b_packets b2 = int (nat count) \<and> b_bytes b2 = bytes_of host [0..<nat count]"
    using send_batch_account[OF run(3) assms(3) own assms(6)] c2 by (simp add: tally_def)
  show ?thesis
    unfolding run(2,4) using a1 a2 c1 c2 by (simp add: add_stats_def Let_def)
qed

theorem bulk_same_delivery_witness:
  "\<exists>h1 b1 h2 b2. write_to_vm True 3 sample_host [Ret 1, Fail ENOBUFS, Ret 2] = (Done (), h1, b1, []) \<and>
     write_to_vm False 3 sample_host [Ret 60, Ret 61, Ret 62] = (Done (), h2, b2, []) \<and>
     st_bytes (stats h1) = st_bytes (stats h2)"
proof -
  let ?r1 = "write_to_vm True 3 sample_host [Ret 1, Fail ENOBUFS, Ret 2]"
  let ?r2 = "write_to_vm False 3 sample_host [Ret 60, Ret 61, Ret 62]"
  have "case ?r1 of (res, h, b, rs) \<Rightarrow> res = Done () \<and> rs = [] \<and> list_all call_ok (b_calls b) \<and>
      map snd (b_calls b) = [Some (Ret 1), Some (Fail ENOBUFS), None, Some (Ret 2)] \<and>
      calls_of ((=) Nanosleep) (b_calls b) = 1"
    by code_simp
  then obtain h1 b1 where r1: "?r1 = (Done (), h1, b1, [])" and k1: "list_all call_ok (b_calls b1)"
    and m1: "map snd (b_calls b1) = [Some (Ret 1), Some (Fail ENOBUFS), None, Some (Ret 2)]"
    and n1: "calls_of ((=) Nanosleep) (b_calls b1) = 1"
    by (auto split: prod.splits)
  have "case ?r2 of (res, h, b, rs) \<Rightarrow> res = Done () \<and> rs = [] \<and> list_all call_ok (b_calls b) \<and>
      map snd (b_calls b) = [Some (Ret 60), Some (Ret 61), Some (Ret 62)] \<and>
      calls_of ((=) Nanosleep) (b_calls b) = 0"
    by code_simp
  then obtain h2 b2 where r2: "?r2 = (Done (), h2, b2, [])" and k2: "list_all call_ok (b_calls b2)"
    and m2: "map snd (b_calls b2) = [Some (Ret 60), Some (Ret 61), Some (Ret 62)]"
    and n2: "calls_of ((=) Nanosleep) (b_calls b2) = 0"
    by (auto split: prod.splits)
  have s: "list_all (\<lambda>c. \<forall>e. snd c = Some (Fail e) \<longrightarrow> e = ENOBUFS) cs \<longleftrightarrow>
      list_all (\<lambda>r. \<forall>e. r = Some (Fail e) \<longrightarrow> e = ENOBUFS) (map snd cs)" for cs :: "(vm_call \<times> sysret option) list"
    by (simp add: list.pred_map comp_def)
  have o1: "only_shortages b1" unfolding only_shortages_def s m1 n1 VM_RETRY_MAX_def by simp
  have o2: "only_shortages b2" unfolding only_shortages_def s m2 n2 VM_RETRY_MAX_def by simp
  have "(0 :: int) \<le> 3" by simp
  from bulk_same_delivery[OF r1 r2 this sample_iovs k1 k2 o1 o2] r1 r2 show ?thesis by blast
qed

end
