(* ===== verification/Vm_Forward.thy ===== *)
theory Vm_Forward
  imports Endpoint
begin

text \<open>
  The VM queue of \<open>programs/helper.c\<close>: packets read from the VM's socket, with \<open>recvmsg_x\<close> (fast
  path) or \<open>read\<close> (slow path), and written to the vmnet interface, until the VM goes away or
  something fails; then the main thread is told to stop.

  The thread's calls and their answers are recorded in its \<open>proc\<close>.  \<open>recvmsg_x\<close> answers with the
  lengths of the datagrams it received, and returns how many they are.  \<open>Vmnet_write\<close> lists, for
  each packet handed over, its iov, its size and the iov's length.
\<close>

unbundle bit_operations_syntax

section \<open>Definitions\<close>

datatype vcall =
    Recvmsg_x int
  | Read_vm "64 word"
  | Vmnet_write "(nat \<times> 64 word \<times> 64 word) list"
  | Kevent_trigger kevent

datatype vans =
    Datagrams "64 word list"
  | Length int
  | Written vmnet_return int
  | Triggered
  | Failed errno

record vm_thread = "(vcall, vans) proc" +
  vm :: endpoint

definition count_fast :: "forward_stats \<Rightarrow> forward_stats" where
  "count_fast s = s\<lparr>st_fast := st_fast s + 1\<rparr>"

definition count_slow :: "forward_stats \<Rightarrow> forward_stats" where
  "count_slow s = s\<lparr>st_slow := st_slow s + 1\<rparr>"

definition set_vm :: "(endpoint \<Rightarrow> endpoint) \<Rightarrow> (vm_thread, unit) prog" where
  "set_vm f = modify (\<lambda>s. s\<lparr>vm := f (vm s)\<rparr>)"

definition set_msg_lens :: "64 word list \<Rightarrow> endpoint \<Rightarrow> endpoint" where
  "set_msg_lens lens e =
     e\<lparr>msgs := for_each (length lens) (\<lambda>i m. m\<lparr>msg_len := lens ! i\<rparr>) (msgs e)\<rparr>"

text \<open>The slow path: one packet into the first buffer.\<close>

definition read_one :: "64 word \<Rightarrow> (vm_thread, int) prog" where
  "read_one max_packet_size =
     seq (set_vm (\<lambda>e. (reset_iovs max_packet_size 1 e)\<lparr>stats := count_slow (stats e)\<rparr>))
    (bind (gets (\<lambda>s. iov_len (iovs (vm s) ! 0))) (\<lambda>len.
     bind (sys (Read_vm len)) (\<lambda>a.
       case a of
         Length n \<Rightarrow>
           if n = -1 then ret (-1)
           else seq (set_vm (set_msg_lens [word_of_int n])) (ret (if n > 0 then 1 else 0))
       | _ \<Rightarrow> ret (-1))))"

definition read_from_vm :: "bool \<Rightarrow> 64 word \<Rightarrow> (vm_thread, int) prog" where
  "read_from_vm use_bulk_forwarding max_packet_size =
     (if use_bulk_forwarding
      then bind (gets (\<lambda>s. max_packet_count (vm s))) (\<lambda>max_packets.
           seq (set_vm (\<lambda>e. (reset_iovs max_packet_size (nat max_packets) e)
                  \<lparr>stats := count_fast (stats e)\<rparr>))
          (bind (sys (Recvmsg_x max_packets)) (\<lambda>a.
             case a of
               Datagrams lens \<Rightarrow> seq (set_vm (set_msg_lens lens)) (ret (int (length lens)))
             | _ \<Rightarrow> read_one max_packet_size)))
      else read_one max_packet_size)"

text \<open>The loops of \<open>write_to_host\<close>: packets and iovs get the lengths of the messages.\<close>

definition match_msgs :: "nat \<Rightarrow> endpoint \<Rightarrow> endpoint" where
  "match_msgs n e =
     e\<lparr>packets := for_each n (\<lambda>i p. p\<lparr>vm_pkt_size := msg_len (msgs e ! i)\<rparr>) (packets e),
       iovs := for_each n (\<lambda>i v. v\<lparr>iov_len := msg_len (msgs e ! i)\<rparr>) (iovs e)\<rparr>"

definition handed_over :: "nat \<Rightarrow> endpoint \<Rightarrow> (nat \<times> 64 word \<times> 64 word) list" where
  "handed_over n e = map (\<lambda>i. let p = packets e ! i
     in (vm_pkt_iov p, vm_pkt_size p, iov_len (iovs e ! vm_pkt_iov p))) [0..<n]"

definition write_to_host :: "int \<Rightarrow> (vm_thread, int) prog" where
  "write_to_host count =
     seq (set_vm (match_msgs (nat count)))
    (bind (gets (\<lambda>s. handed_over (nat count) (vm s))) (\<lambda>pkts.
     bind (sys (Vmnet_write pkts)) (\<lambda>a.
       case a of
         Written status written \<Rightarrow> ret (if status \<noteq> VMNET_SUCCESS then -1 else 0)
       | _ \<Rightarrow> ret (-1))))"

definition vm_msgs_size :: "nat \<Rightarrow> endpoint \<Rightarrow> 64 word" where
  "vm_msgs_size count e = fold (\<lambda>i size. size + msg_len (msgs e ! i)) [0..<count] 0"

definition shutdown_event :: "32 word \<Rightarrow> kevent" where
  "shutdown_event flags = \<lparr>ev_ident = SHUTDOWN_EVENT, ev_filter = EVFILT_USER, ev_flags = EV_NONE,
     ev_fflags = NOTE_TRIGGER OR NOTE_FFOR OR (flags AND NOTE_FFLAGSMASK), ev_data = 0\<rparr>"

definition trigger_shutdown :: "32 word \<Rightarrow> (vm_thread, unit) prog" where
  "trigger_shutdown flags =
     bind (sys (Kevent_trigger (shutdown_event flags))) (\<lambda>a.
       case a of Triggered \<Rightarrow> ret () | _ \<Rightarrow> exit_with EXIT_FAILURE)"

definition count_forwarded :: "int \<Rightarrow> endpoint \<Rightarrow> endpoint" where
  "count_forwarded count e = e\<lparr>stats := (stats e)
     \<lparr>st_packets := st_packets (stats e) + word_of_int count,
      st_bytes := st_bytes (stats e) + vm_msgs_size (nat count) e\<rparr>\<rparr>"

text \<open>One round of the loop: \<open>None\<close> to go on, \<open>Some ()\<close> for \<open>break\<close>.\<close>

definition forward_round :: "bool \<Rightarrow> 64 word \<Rightarrow> (vm_thread, unit option) prog" where
  "forward_round bulk max_packet_size =
     bind (read_from_vm bulk max_packet_size) (\<lambda>count.
       if count = -1 then seq (trigger_shutdown STATUS_FAILURE) (ret (Some ()))
       else if count = 0 then seq (trigger_shutdown STATUS_STOPPED) (ret (Some ()))
       else bind (write_to_host count) (\<lambda>failed.
         if failed \<noteq> 0 then seq (trigger_shutdown STATUS_FAILURE) (ret (Some ()))
         else seq (set_vm (count_forwarded count)) (ret None)))"

definition forward_from_vm :: "bool \<Rightarrow> 64 word \<Rightarrow> (vm_thread, unit) prog" where
  "forward_from_vm bulk max_packet_size = repeat_until (forward_round bulk max_packet_size)"

section \<open>What a run of the thread did\<close>

text \<open>
  The datagrams a read call received, and the sizes of the packets that the statistics count as
  forwarded after a \<open>vmnet_write\<close> call: all it was given when it succeeds, whatever count it reports.
\<close>

fun received :: "vcall \<times> vans option \<Rightarrow> 64 word list option" where
  "received (Recvmsg_x m, Some (Datagrams lens)) = Some lens"
| "received (Read_vm k, Some (Length n)) =
     (if n = -1 then None else if n > 0 then Some [word_of_int n] else Some [])"
| "received _ = None"

fun counted :: "vcall \<times> vans option \<Rightarrow> 64 word list" where
  "counted (Vmnet_write pkts, Some (Written VMNET_SUCCESS n)) = map (\<lambda>(i, sz, len). sz) pkts"
| "counted _ = []"

definition vcalls :: "(vcall \<Rightarrow> bool) \<Rightarrow> (vcall \<times> vans option) list \<Rightarrow> nat" where
  "vcalls p h = length (filter (\<lambda>e. p (fst e)) h)"

fun is_recvmsg :: "vcall \<Rightarrow> bool" where
  "is_recvmsg (Recvmsg_x m) \<longleftrightarrow> True" | "is_recvmsg _ \<longleftrightarrow> False"

fun is_read_vm :: "vcall \<Rightarrow> bool" where
  "is_read_vm (Read_vm n) \<longleftrightarrow> True" | "is_read_vm _ \<longleftrightarrow> False"

lemma vcalls_simps [simp]:
  "vcalls p [] = 0" "vcalls p (e # h) = (if p (fst e) then 1 else 0) + vcalls p h"
  "vcalls p (h @ g) = vcalls p h + vcalls p g"
  by (simp_all add: vcalls_def)

text \<open>The packets of a batch of datagrams: packet \<open>i\<close> uses iov \<open>i\<close> with the datagram's length.\<close>

definition batch_of :: "64 word list \<Rightarrow> (nat \<times> 64 word \<times> 64 word) list" where
  "batch_of lens = map (\<lambda>i. (i, lens ! i, lens ! i)) [0..<length lens]"

text \<open>
  The protocol of the thread, as an automaton over its calls: read (when \<open>recvmsg_x\<close> fails, with
  \<open>read\<close>); write exactly the datagrams received; when nothing was received stop with
  \<open>STATUS_STOPPED\<close>; when a read or a write failed stop with \<open>STATUS_FAILURE\<close>.
\<close>

datatype phase = Reading | Fallback | Holding "64 word list" | Broken | Over

fun phase_of :: "64 word list option \<Rightarrow> phase" where
  "phase_of None = Broken" | "phase_of (Some lens) = Holding lens"

text \<open>The status of a \<open>vmnet_write\<close>, which is all the code looks at; the count of packets taken is ignored.\<close>

fun write_ok :: "vans option \<Rightarrow> bool" where
  "write_ok (Some (Written VMNET_SUCCESS n)) \<longleftrightarrow> True" | "write_ok _ \<longleftrightarrow> False"

fun vm_next :: "phase \<Rightarrow> vcall \<times> vans option \<Rightarrow> phase option" where
  "vm_next Reading (Recvmsg_x m, a) = Some (case received (Recvmsg_x m, a) of
     None \<Rightarrow> Fallback | Some lens \<Rightarrow> Holding lens)"
| "vm_next Reading (Read_vm n, a) = Some (phase_of (received (Read_vm n, a)))"
| "vm_next Fallback (Read_vm n, a) = Some (phase_of (received (Read_vm n, a)))"
| "vm_next (Holding lens) (Vmnet_write p, a) =
     (if lens \<noteq> [] \<and> p = batch_of lens then Some (if write_ok a then Reading else Broken) else None)"
| "vm_next (Holding lens) (Kevent_trigger k, a) =
     (if lens = [] \<and> k = shutdown_event STATUS_STOPPED then Some Over else None)"
| "vm_next Broken (Kevent_trigger k, a) =
     (if k = shutdown_event STATUS_FAILURE then Some Over else None)"
| "vm_next _ _ = None"

fun run_phase :: "phase \<Rightarrow> (vcall \<times> vans option) list \<Rightarrow> phase option" where
  "run_phase p [] = Some p"
| "run_phase p (e # h) = (case vm_next p e of None \<Rightarrow> None | Some q \<Rightarrow> run_phase q h)"

lemma run_phase_append:
  "run_phase p (h @ g) = (case run_phase p h of None \<Rightarrow> None | Some q \<Rightarrow> run_phase q g)"
  by (induction p h rule: run_phase.induct) (auto split: option.splits)

text \<open>The statistics after a run of calls.\<close>

definition stats_after :: "forward_stats \<Rightarrow> (vcall \<times> vans option) list \<Rightarrow> forward_stats" where
  "stats_after s h =
     \<lparr>st_packets = st_packets s + of_nat (length (concat (map counted h))),
      st_bytes = st_bytes s + sum_list (concat (map counted h)), st_drops = st_drops s,
      st_fast = st_fast s + of_nat (vcalls is_recvmsg h),
      st_slow = st_slow s + of_nat (vcalls is_read_vm h)\<rparr>"

lemma stats_after_simps [simp]:
  "stats_after s [] = s" "stats_after s (h @ g) = stats_after (stats_after s h) g"
  by (simp_all add: stats_after_def algebra_simps)

text \<open>\<open>recvmsg_x\<close> receives no more datagrams than it was offered messages.\<close>

fun fits :: "64 word \<Rightarrow> vans \<Rightarrow> bool" where
  "fits mps (Datagrams lens) \<longleftrightarrow> int (length lens) \<le> packet_count_for mps"
| "fits mps _ \<longleftrightarrow> True"

lemma fits_cases: "fits mps a \<longleftrightarrow> (\<forall>lens. a = Datagrams lens \<longrightarrow> int (length lens) \<le> packet_count_for mps)"
  by (cases a) auto

definition ready :: "64 word \<Rightarrow> vm_thread \<Rightarrow> bool" where
  "ready mps s \<longleftrightarrow> bound_to mps (vm s) \<and> list_all (fits mps) (answers s)"

lemma bound_to_vm_steps [simp]:
  "bound_to mps (set_msg_lens lens e) = bound_to mps e"
  "bound_to mps (match_msgs n e) = bound_to mps e"
  "bound_to mps (count_forwarded c e) = bound_to mps e"
  by (simp_all add: bound_to_def set_msg_lens_def match_msgs_def count_forwarded_def other_fields
      del: nth_for_each)

lemma vm_steps_stats [simp]:
  "stats (set_msg_lens lens e) = stats e" "stats (reset_iovs m n e) = stats e"
  "stats (match_msgs n e) = stats e" "msgs (match_msgs n e) = msgs e"
  "msgs (reset_iovs m n e) = msgs e"
  by (simp_all add: set_msg_lens_def reset_iovs_def match_msgs_def)

lemma first_iov:
  assumes "bound_to mps e" shows "iov_len (iovs (reset_iovs mps 1 e) ! 0) = mps"
proof -
  have "0 < length (iovs e)" using assms packet_count_pos[of mps] by (simp add: bound_to_def)
  then show ?thesis by (simp add: reset_iovs_def)
qed

lemma read_one_run:
  assumes "bound_to mps (vm s)"
  shows "read_one mps s = (case answers s of
      [] \<Rightarrow> (Waiting, s\<lparr>vm := (reset_iovs mps 1 (vm s))\<lparr>stats := count_slow (stats (vm s))\<rparr>\<rparr>)
    | a # as \<Rightarrow>
        (Done (case received (Read_vm mps, Some a) of None \<Rightarrow> -1 | Some l \<Rightarrow> int (length l)),
         s\<lparr>answers := as, history := history s @ [(Read_vm mps, Some a)],
           vm := (let e = (reset_iovs mps 1 (vm s))\<lparr>stats := count_slow (stats (vm s))\<rparr>
                  in case a of Length n \<Rightarrow> if n = -1 then e else set_msg_lens [word_of_int n] e
                     | _ \<Rightarrow> e)\<rparr>))"
  using first_iov[OF assms]
  by (simp add: read_one_def set_vm_def prog_simps sys_def Let_def reset_iovs_def
      split: list.split vans.split)

text \<open>
  After a read: the calls made, and the messages hold what the last one received.
\<close>

definition holds :: "64 word list \<Rightarrow> endpoint \<Rightarrow> bool" where
  "holds lens e \<longleftrightarrow> length lens \<le> length (msgs e) \<and> (\<forall>i < length lens. msg_len (msgs e ! i) = lens ! i)"

lemma holds_Nil [simp]: "holds [] e"
  by (simp add: holds_def)

lemma holds_set: "length lens \<le> length (msgs e) \<Longrightarrow> holds lens (set_msg_lens lens e)"
  by (simp add: holds_def set_msg_lens_def)

definition after_read ::
  "64 word \<Rightarrow> vm_thread \<Rightarrow> (vcall \<times> vans option) list \<Rightarrow> int \<Rightarrow> vm_thread \<Rightarrow> bool" where
  "after_read mps s rd count t \<longleftrightarrow> history t = history s @ rd \<and>
     run_phase Reading rd = Some (phase_of (received (last rd))) \<and>
     ready mps t \<and> length (answers t) < length (answers s) \<and>
     stats (vm t) = stats_after (stats (vm s)) rd \<and>
     (case received (last rd) of
        None \<Rightarrow> count = -1
      | Some lens \<Rightarrow> count = int (length lens) \<and> holds lens (vm t))"

lemma stats_after_read [simp]:
  "stats_after s [(Recvmsg_x m, a)] = count_fast s" "stats_after s [(Read_vm k, a)] = count_slow s"
  by (simp_all add: stats_after_def count_fast_def count_slow_def)

lemma bound_lengths:
  "bound_to mps e \<Longrightarrow> length (msgs e) = nat (packet_count_for mps) \<and> 1 \<le> length (msgs e) \<and>
   max_packet_count e = packet_count_for mps"
  using packet_count_pos[of mps] by (simp add: bound_to_def)

lemma read_one_after:
  assumes "read_one mps s = (r, t)" and "ready mps s"
  shows "r = Waiting \<or> (\<exists>count a. r = Done count \<and> after_read mps s [(Read_vm mps, a)] count t)"
proof (cases "answers s")
  case Nil
  then show ?thesis using assms read_one_run by (auto simp: ready_def)
next
  case (Cons a as)
  have bd: "bound_to mps (vm s)" using assms(2) by (simp add: ready_def)
  let ?e = "(reset_iovs mps 1 (vm s))\<lparr>stats := count_slow (stats (vm s))\<rparr>"
  have len: "length [x] \<le> length (msgs ?e)" for x :: "64 word"
    using bound_lengths[OF bd] unfolding reset_iovs_def by simp
  have "after_read mps s [(Read_vm mps, Some a)]
      (case received (Read_vm mps, Some a) of None \<Rightarrow> -1 | Some l \<Rightarrow> int (length l)) t"
    using assms Cons read_one_run[OF bd] holds_set[OF len]
    by (auto simp: after_read_def ready_def Let_def split: vans.split)
  moreover have "r = Done (case received (Read_vm mps, Some a) of None \<Rightarrow> -1 | Some l \<Rightarrow> int (length l))"
    using assms(1) Cons read_one_run[OF bd] by simp
  ultimately show ?thesis by blast
qed

text \<open>A failed \<open>recvmsg_x\<close> before the \<open>read\<close>.\<close>

lemma after_read_fallback:
  assumes "after_read mps u [(Read_vm mps, b)] count t" and "received (Recvmsg_x m, Some a) = None"
    and "history u = history s @ [(Recvmsg_x m, Some a)]"
    and "length (answers u) \<le> length (answers s)" and "stats (vm u) = count_fast (stats (vm s))"
  shows "after_read mps s [(Recvmsg_x m, Some a), (Read_vm mps, b)] count t"
  using assms stats_after_simps(2)[of "stats (vm s)" "[(Recvmsg_x m, Some a)]" "[(Read_vm mps, b)]"]
  by (auto simp: after_read_def split: option.splits)

lemma read_from_vm_after:
  assumes "read_from_vm bulk mps s = (r, t)" and "ready mps s"
  shows "r = Waiting \<or> (\<exists>count rd. r = Done count \<and> after_read mps s rd count t)"
proof (cases bulk)
  case False
  then have "read_one mps s = (r, t)" using assms(1) by (simp add: read_from_vm_def)
  from read_one_after[OF this assms(2)] show ?thesis by blast
next
  case True
  have bd: "bound_to mps (vm s)" using assms(2) by (simp add: ready_def)
  let ?m = "max_packet_count (vm s)"
  let ?e = "(reset_iovs mps (nat ?m) (vm s))\<lparr>stats := count_fast (stats (vm s))\<rparr>"
  show ?thesis
  proof (cases "answers s")
    case Nil
    then show ?thesis using assms True by (auto simp: read_from_vm_def set_vm_def prog_simps)
  next
    case (Cons a as)
    let ?u = "s\<lparr>vm := ?e, answers := as, history := history s @ [(Recvmsg_x ?m, Some a)]\<rparr>"
    have run: "read_from_vm bulk mps s = (case a of
        Datagrams lens \<Rightarrow> (Done (int (length lens)), ?u\<lparr>vm := set_msg_lens lens ?e\<rparr>)
      | _ \<Rightarrow> read_one mps ?u)"
      using True Cons by (simp add: read_from_vm_def set_vm_def prog_simps split: vans.split)
    have u: "ready mps ?u" using assms(2) Cons by (simp add: ready_def)
    show ?thesis
    proof (cases "\<exists>lens. a = Datagrams lens")
      case True
      then obtain lens where a: "a = Datagrams lens" by blast
      have "length lens \<le> length (msgs ?e)"
        using assms(2) Cons a bound_lengths[OF bd] by (auto simp: ready_def reset_iovs_def)
      from holds_set[OF this] have "after_read mps s [(Recvmsg_x ?m, Some a)] (int (length lens)) t"
        using assms run a u by (auto simp: after_read_def ready_def Cons)
      with run a assms(1) show ?thesis by auto
    next
      case False
      then have none: "received (Recvmsg_x ?m, Some a) = None"
        and "read_one mps ?u = (r, t)" using run assms(1) by (auto split: vans.splits)
      from read_one_after[OF this(2) u] show ?thesis
        using after_read_fallback[of mps ?u _ _ t ?m a s] none Cons by fastforce
    qed
  qed
qed

text \<open>What is handed to vmnet is what the messages hold.\<close>

lemma handed_over_batch:
  assumes "bound_to mps e" and "holds lens e"
  shows "handed_over (length lens) (match_msgs (length lens) e) = batch_of lens"
  unfolding handed_over_def batch_of_def
proof (rule map_cong[OF refl])
  fix i assume "i \<in> set [0..<length lens]"
  then have i: "i < length lens" "i < length (packets e)" "i < length (iovs e)"
    "i < nat (max_packet_count e)" and m: "msg_len (msgs e ! i) = lens ! i"
    using assms by (auto simp: holds_def bound_to_def)
  have v: "vm_pkt_iov (packets e ! i) = i" using assms(1) i(4) by (simp add: bound_to_def)
  show "(let p = packets (match_msgs (length lens) e) ! i
      in (vm_pkt_iov p, vm_pkt_size p, iov_len (iovs (match_msgs (length lens) e) ! vm_pkt_iov p)))
    = (i, lens ! i, lens ! i)"
    using i m v by (simp add: match_msgs_def Let_def)
qed

lemma vm_msgs_size_holds:
  assumes "holds lens e" shows "vm_msgs_size (length lens) e = sum_list lens"
proof -
  have "n \<le> length lens \<Longrightarrow> fold (\<lambda>i size. size + msg_len (msgs e ! i)) [0..<n] 0 = sum_list (take n lens)" for n
    using assms by (induction n) (auto simp: holds_def take_Suc_conv_app_nth)
  from this[of "length lens"] show ?thesis by (simp add: vm_msgs_size_def)
qed

lemma counted_batch [simp]: "map (\<lambda>(i, sz, len). sz) (batch_of lens) = lens"
  by (simp add: batch_of_def map_nth comp_def)

text \<open>A round of the loop, after a read.\<close>

lemma write_to_host_run:
  assumes "bound_to mps (vm s)" and "holds lens (vm s)"
  shows "write_to_host (int (length lens)) s = (let e = match_msgs (length lens) (vm s) in
    case answers s of
      [] \<Rightarrow> (Waiting, s\<lparr>vm := e\<rparr>)
    | a # as \<Rightarrow>
        (Done (if \<exists>n. a = Written VMNET_SUCCESS n then 0 else -1),
         s\<lparr>answers := as, history := history s @ [(Vmnet_write (batch_of lens), Some a)], vm := e\<rparr>))"
  using handed_over_batch[OF assms]
  by (simp add: write_to_host_def set_vm_def prog_simps sys_def Let_def
      split: list.split vans.split vmnet_return.split)

lemma trigger_run:
  "trigger_shutdown f s = (case answers s of
      [] \<Rightarrow> (Waiting, s)
    | a # as \<Rightarrow>
        (if a = Triggered then Done () else Exited 1,
         s\<lparr>answers := as, history := history s @ [(Kevent_trigger (shutdown_event f), Some a)]\<rparr>))"
  by (simp add: trigger_shutdown_def prog_simps sys_def split: list.split vans.split)

lemma stats_after_other [simp]:
  "stats_after s [(Kevent_trigger k, a)] = s"
  "counted (Vmnet_write p, a) = [] \<Longrightarrow> stats_after s [(Vmnet_write p, a)] = s"
  "counted e \<noteq> [] \<Longrightarrow> stats_after s [e] = s
     \<lparr>st_packets := st_packets s + of_nat (length (counted e)),
      st_bytes := st_bytes s + sum_list (counted e)\<rparr>"
  "stats_after s (e # f # g) = stats_after (stats_after s [e]) (f # g)"
proof -
  show "stats_after s [(Kevent_trigger k, a)] = s" by (simp add: stats_after_def)
  show "counted (Vmnet_write p, a) = [] \<Longrightarrow> stats_after s [(Vmnet_write p, a)] = s"
    by (simp add: stats_after_def)
  show "counted e \<noteq> [] \<Longrightarrow> stats_after s [e] = s
     \<lparr>st_packets := st_packets s + of_nat (length (counted e)),
      st_bytes := st_bytes s + sum_list (counted e)\<rparr>"
    by (cases e; cases "fst e") (auto simp: stats_after_def)
  show "stats_after s (e # f # g) = stats_after (stats_after s [e]) (f # g)"
    using stats_after_simps(2)[of s "[e]" "f # g"] by simp
qed

text \<open>The end of a round that leaves the loop: \<open>g\<close> are the round's calls before it.\<close>

lemma stop_round:
  assumes "seq (trigger_shutdown f) (ret (Some ())) u = (r, t)" and "ready mps u"
    and "history u = history s @ g" and "stats (vm u) = stats_after (stats (vm s)) g"
  shows "r = Waiting \<or> (\<exists>a. r = (if a = Triggered then Done (Some ()) else Exited 1) \<and>
    history t = history s @ g @ [(Kevent_trigger (shutdown_event f), Some a)] \<and> ready mps t \<and>
    stats (vm t) = stats_after (stats (vm s)) (g @ [(Kevent_trigger (shutdown_event f), Some a)]))"
proof (cases "answers u")
  case Nil
  then show ?thesis using assms(1) by (simp add: seq_def bind_def trigger_run)
next
  case (Cons a as)
  have "(r, t) = (if a = Triggered then Done (Some ()) else Exited 1,
      u\<lparr>answers := as, history := history u @ [(Kevent_trigger (shutdown_event f), Some a)]\<rparr>)"
    using assms(1) Cons by (simp add: seq_def bind_def trigger_run ret_def split: if_splits)
  then show ?thesis using assms(2-4) Cons by (auto simp: ready_def)
qed

text \<open>What one round did, from \<open>s\<close> to \<open>t\<close>: \<open>h\<close> are its calls.\<close>

definition round_stops ::
  "64 word \<Rightarrow> vm_thread \<Rightarrow> unit option outcome \<Rightarrow> vm_thread \<Rightarrow> (vcall \<times> vans option) list \<Rightarrow> bool" where
  "round_stops mps s r t h \<longleftrightarrow> history t = history s @ h \<and> ready mps t \<and>
     stats (vm t) = stats_after (stats (vm s)) h \<and> run_phase Reading h = Some Over \<and>
     (r = Done (Some ()) \<or> r = Exited 1)"

definition round_goes ::
  "64 word \<Rightarrow> vm_thread \<Rightarrow> unit option outcome \<Rightarrow> vm_thread \<Rightarrow> (vcall \<times> vans option) list \<Rightarrow> bool" where
  "round_goes mps s r t h \<longleftrightarrow> history t = history s @ h \<and> ready mps t \<and>
     stats (vm t) = stats_after (stats (vm s)) h \<and> run_phase Reading h = Some Reading \<and>
     r = Done None \<and> length (answers t) < length (answers s)"

lemma round_stopsI:
  assumes "r = (if a = Triggered then Done (Some ()) else Exited 1)" "history t = history s @ h"
    "ready mps t" "stats (vm t) = stats_after (stats (vm s)) h" "run_phase Reading h = Some Over"
  shows "\<exists>h. round_stops mps s r t h"
  using assms by (auto simp: round_stops_def)

lemma counted_none: "\<nexists>n. a = Written VMNET_SUCCESS n \<Longrightarrow> counted (c, Some a) = []"
  by (induction "(c, Some a)" rule: counted.induct) auto

lemma write_ok_iff: "write_ok (Some a) \<longleftrightarrow> (\<exists>n. a = Written VMNET_SUCCESS n)"
  by (induction "Some a" rule: write_ok.induct) auto

lemma forward_batch:
  assumes run: "bind (write_to_host (int (length lens))) (\<lambda>failed.
      if failed \<noteq> 0 then seq (trigger_shutdown STATUS_FAILURE) (ret (Some ()))
      else seq (set_vm (count_forwarded (int (length lens)))) (ret None)) u = (r, t)"
    and hl: "holds lens (vm u)" and u: "ready mps u" "history u = history s @ rd"
      "stats (vm u) = stats_after (stats (vm s)) rd" "run_phase Reading rd = Some (Holding lens)"
      "length (answers u) < length (answers s)"
    and lens: "lens \<noteq> []"
  shows "r = Waiting \<or> (\<exists>h. round_stops mps s r t h) \<or> (\<exists>h. round_goes mps s r t h)"
proof -
  have bd: "bound_to mps (vm u)" using u(1) by (simp add: ready_def)
  note wr = write_to_host_run[OF bd hl]
  show ?thesis
  proof (cases "answers u")
    case Nil
    then show ?thesis using run by (simp add: bind_def wr Let_def)
  next
    case (Cons a as)
    let ?g = "rd @ [(Vmnet_write (batch_of lens), Some a)]"
    let ?w = "u\<lparr>answers := as, history := history u @ [(Vmnet_write (batch_of lens), Some a)],
      vm := match_msgs (length lens) (vm u)\<rparr>"
    have w: "ready mps ?w" "history ?w = history s @ ?g" using u(1,2) Cons by (simp_all add: ready_def)
    show ?thesis
    proof (cases "\<exists>n. a = Written VMNET_SUCCESS n")
      case True
      then obtain n where a: "a = Written VMNET_SUCCESS n" by blast
      have t: "r = Done None" "t = ?w\<lparr>vm := count_forwarded (int (length lens)) (vm ?w)\<rparr>"
        using run wr Cons a by (auto simp: bind_def Let_def seq_def set_vm_def modify_def ret_def)
      have "holds lens (vm ?w)" using hl by (simp add: holds_def)
      from vm_msgs_size_holds[OF this]
      have "stats (vm t) = stats_after (stats (vm s)) ?g"
        using u(3) lens by (simp add: t count_forwarded_def a)
      moreover have "run_phase Reading ?g = Some Reading"
        using u(4) lens a by (simp add: run_phase_append)
      moreover have "ready mps t" using w by (simp add: t ready_def)
      moreover have "history t = history s @ ?g" using w(2) by (simp add: t)
      moreover have "length (answers t) < length (answers s)" using u(5) Cons by (simp add: t)
      ultimately show ?thesis using t(1) unfolding round_goes_def by blast
    next
      case False
      then have fw: "counted (Vmnet_write (batch_of lens), Some a) = []"
        by (simp add: counted_none)
      have st: "seq (trigger_shutdown STATUS_FAILURE) (ret (Some ())) ?w = (r, t)"
        using run wr Cons False by (auto simp: bind_def Let_def split: if_splits)
      have "stats (vm ?w) = stats_after (stats (vm s)) ?g" using u(3) fw by simp
      from stop_round[OF st w this] show ?thesis
      proof (elim disjE exE conjE)
        fix b assume stops: "r = (if b = Triggered then Done (Some ()) else Exited 1)"
          "history t = history s @ (?g @ [(Kevent_trigger (shutdown_event STATUS_FAILURE), Some b)])"
          "ready mps t" "stats (vm t) = stats_after (stats (vm s))
            (?g @ [(Kevent_trigger (shutdown_event STATUS_FAILURE), Some b)])"
        have "run_phase Reading (?g @ [(Kevent_trigger (shutdown_event STATUS_FAILURE), Some b)]) = Some Over"
          using u(4) lens False by (simp add: run_phase_append write_ok_iff)
        from round_stopsI[OF stops this] show ?thesis by blast
      qed simp
    qed
  qed
qed

lemma forward_round_run:
  assumes "forward_round bulk mps s = (r, t)" and "ready mps s"
  shows "r = Waiting \<or> (\<exists>h. round_stops mps s r t h) \<or> (\<exists>h. round_goes mps s r t h)"
proof -
  obtain r1 u where rd: "read_from_vm bulk mps s = (r1, u)" by fastforce
  from read_from_vm_after[OF rd assms(2)] show ?thesis
  proof (elim disjE exE conjE)
    assume "r1 = Waiting"
    then show ?thesis using assms(1) rd by (simp add: forward_round_def bind_def)
  next
    fix count rd assume r1: "r1 = Done count" and ar: "after_read mps s rd count u"
    then have u: "ready mps u" "run_phase Reading rd = Some (phase_of (received (last rd)))"
      "history u = history s @ rd"
      "stats (vm u) = stats_after (stats (vm s)) rd" "length (answers u) < length (answers s)"
      by (auto simp: after_read_def)
    have cont: "(r, t) = (
       if count = -1 then seq (trigger_shutdown STATUS_FAILURE) (ret (Some ())) u
       else if count = 0 then seq (trigger_shutdown STATUS_STOPPED) (ret (Some ())) u
       else bind (write_to_host count) (\<lambda>failed.
         if failed \<noteq> 0 then seq (trigger_shutdown STATUS_FAILURE) (ret (Some ()))
         else seq (set_vm (count_forwarded count)) (ret None)) u)"
      using assms(1) unfolding forward_round_def bind_def[of "read_from_vm bulk mps"] rd r1
      by (cases "count = -1"; cases "count = 0"; simp)
    show ?thesis
    proof (cases "received (last rd)")
      case None
      then have st: "seq (trigger_shutdown STATUS_FAILURE) (ret (Some ())) u = (r, t)"
        using ar cont by (simp add: after_read_def)
      from stop_round[OF st u(1,3,4)] show ?thesis
      proof (elim disjE exE conjE)
        fix a assume stops: "r = (if a = Triggered then Done (Some ()) else Exited 1)"
          "history t = history s @ rd @ [(Kevent_trigger (shutdown_event STATUS_FAILURE), Some a)]"
          "ready mps t" "stats (vm t) = stats_after (stats (vm s))
            (rd @ [(Kevent_trigger (shutdown_event STATUS_FAILURE), Some a)])"
        have "run_phase Reading (rd @ [(Kevent_trigger (shutdown_event STATUS_FAILURE), Some a)]) = Some Over"
          using u(2) by (simp add: run_phase_append None)
        from round_stopsI[OF stops this] show ?thesis by blast
      qed simp
    next
      case (Some lens)
      then have c: "count = int (length lens)" and hl: "holds lens (vm u)"
        using ar by (simp_all add: after_read_def)
      show ?thesis
      proof (cases "lens = []")
        case True
        then have st: "seq (trigger_shutdown STATUS_STOPPED) (ret (Some ())) u = (r, t)"
          using cont c by simp
        from stop_round[OF st u(1,3,4)] show ?thesis
        proof (elim disjE exE conjE)
          fix a assume stops: "r = (if a = Triggered then Done (Some ()) else Exited 1)"
            "history t = history s @ rd @ [(Kevent_trigger (shutdown_event STATUS_STOPPED), Some a)]"
            "ready mps t" "stats (vm t) = stats_after (stats (vm s))
              (rd @ [(Kevent_trigger (shutdown_event STATUS_STOPPED), Some a)])"
          have "run_phase Reading (rd @ [(Kevent_trigger (shutdown_event STATUS_STOPPED), Some a)]) = Some Over"
            using u(2) by (simp add: run_phase_append Some True)
          from round_stopsI[OF stops this] show ?thesis by blast
        qed simp
      next
        case False
        then have run: "bind (write_to_host (int (length lens))) (\<lambda>failed.
            if failed \<noteq> 0 then seq (trigger_shutdown STATUS_FAILURE) (ret (Some ()))
            else seq (set_vm (count_forwarded (int (length lens)))) (ret None)) u = (r, t)"
          using cont unfolding c by simp
        have "run_phase Reading rd = Some (Holding lens)" using u(2) Some by simp
        from forward_batch[OF run hl u(1,3,4) this u(5) False] show ?thesis .
      qed
    qed
  qed
qed

section \<open>Properties\<close>

lemma down_vm_steps [intro]:
  "preserves answers_down (set_vm f)" "preserves answers_down (read_one m)"
  "preserves answers_down (write_to_host c)" "preserves answers_down (trigger_shutdown g)"
  unfolding set_vm_def read_one_def write_to_host_def trigger_shutdown_def
  by (auto intro!: down_order.pres_seq down_order.pres_bind down_modify down_order.pres_gets
      split: vans.split)

lemma down_round_end:
  "preserves answers_down (
     if count = -1 then seq (trigger_shutdown STATUS_FAILURE) (ret (Some ()))
     else if count = 0 then seq (trigger_shutdown STATUS_STOPPED) (ret (Some ()))
     else bind (write_to_host count) (\<lambda>failed.
       if failed \<noteq> 0 then seq (trigger_shutdown STATUS_FAILURE) (ret (Some ()))
       else seq (set_vm (count_forwarded count)) (ret None)))"
  by (auto intro!: down_order.pres_seq down_order.pres_bind)

lemma consumes_read_one: "consumes (read_one m)"
  unfolding read_one_def
  by (intro consumes_seq_second consumes_bind_second consumes_bind_first consumes_sys down_vm_steps
      down_order.pres_gets) (auto intro!: down_order.pres_seq split: vans.split)

lemma consumes_read_from_vm: "consumes (read_from_vm bulk m)"
proof (cases bulk)
  case True
  show ?thesis
    unfolding read_from_vm_def if_P[OF True]
    by (rule consumes_bind_second[OF down_order.pres_gets], rule consumes_seq_second[OF down_vm_steps(1)],
        rule consumes_bind_first[OF consumes_sys]) (auto intro!: down_order.pres_seq split: vans.split)
qed (simp add: read_from_vm_def consumes_read_one)

interpretation vm_loop: calling_loop "forward_round bulk mps"
  by (rule calling_loop_consumes, unfold forward_round_def, rule consumes_bind_first,
      rule consumes_read_from_vm, rule down_round_end)

text \<open>The invariant of the loop, since \<open>s\<close>.\<close>

definition so_far :: "64 word \<Rightarrow> vm_thread \<Rightarrow> vm_thread \<Rightarrow> bool" where
  "so_far mps s u \<longleftrightarrow> ready mps u \<and> (\<exists>g. history u = history s @ g \<and>
     stats (vm u) = stats_after (stats (vm s)) g \<and> run_phase Reading g = Some Reading)"

lemma so_far_start: "ready mps s \<Longrightarrow> so_far mps s s"
  by (auto simp: so_far_def intro!: exI[of _ "[]"])

lemma so_far_round:
  assumes "so_far mps s u" and "forward_round bulk mps u = (r, t)"
  shows "r = Waiting \<or>
    (r = Done None \<and> so_far mps s t) \<or>
    ((r = Done (Some ()) \<or> r = Exited 1) \<and> (\<exists>h. history t = history s @ h \<and>
       stats (vm t) = stats_after (stats (vm s)) h \<and> run_phase Reading h = Some Over))"
proof -
  obtain g where g: "ready mps u" "history u = history s @ g"
    "stats (vm u) = stats_after (stats (vm s)) g" "run_phase Reading g = Some Reading"
    using assms(1) by (auto simp: so_far_def)
  from forward_round_run[OF assms(2) g(1)] show ?thesis
  proof (elim disjE exE)
    fix h assume "round_stops mps u r t h"
    with g have "(r = Done (Some ()) \<or> r = Exited 1) \<and> history t = history s @ (g @ h) \<and>
        stats (vm t) = stats_after (stats (vm s)) (g @ h) \<and> run_phase Reading (g @ h) = Some Over"
      by (auto simp: round_stops_def run_phase_append)
    then show ?thesis by blast
  next
    fix h assume "round_goes mps u r t h"
    with g have "r = Done None \<and> ready mps t \<and> history t = history s @ (g @ h) \<and>
        stats (vm t) = stats_after (stats (vm s)) (g @ h) \<and> run_phase Reading (g @ h) = Some Reading"
      by (auto simp: round_goes_def run_phase_append)
    then show ?thesis unfolding so_far_def by blast
  qed simp
qed

lemma forward_from_vm_end:
  assumes run: "forward_from_vm bulk mps s = (r, t)" and s: "ready mps s"
  shows "r = Waiting \<or> ((r = Done () \<or> r = Exited 1) \<and> (\<exists>h. history t = history s @ h \<and>
       stats (vm t) = stats_after (stats (vm s)) h \<and> run_phase Reading h = Some Over))"
proof -
  have step: "so_far mps s v" if "so_far mps s u" "forward_round bulk mps u = (Done None, v)" for u v
    using so_far_round[OF that] by auto
  have run': "repeat_until (forward_round bulk mps) s = (r, t)"
    using run by (simp add: forward_from_vm_def)
  show ?thesis
  proof (cases r)
    case (Done x)
    obtain u where "so_far mps s u" "forward_round bulk mps u = (Done (Some x), t)"
      by (rule vm_loop.loop_Done[where I = "so_far mps s", OF run'[unfolded Done] so_far_start[OF s]]) (blast intro: step)+
    from so_far_round[OF this] Done show ?thesis by auto
  next
    case (Exited c)
    obtain u where "so_far mps s u" "forward_round bulk mps u = (Exited c, t)"
      by (rule vm_loop.loop_Exited[where I = "so_far mps s", OF run'[unfolded Exited] so_far_start[OF s]]) (blast intro: step)+
    from so_far_round[OF this] Exited show ?thesis by auto
  next
    case Aborted
    obtain u where "so_far mps s u" "forward_round bulk mps u = (Aborted, t)"
      by (rule vm_loop.loop_Aborted[where I = "so_far mps s", OF run'[unfolded Aborted] so_far_start[OF s]]) (blast intro: step)+
    from so_far_round[OF this] show ?thesis by auto
  qed simp
qed

text \<open>
  C9: The VM thread, from its start to its end: when it returns or exits it has run the
  protocol of the automaton from start to end.  So it writes to vmnet exactly the datagrams it
  received, each batch once and with matching packet and iov lengths, before it reads again; it
  triggers the shutdown exactly once, at the end, as \<open>STATUS_STOPPED\<close> when the peer closed the
  socket and as \<open>STATUS_FAILURE\<close> when a read or a write failed; it exits only with status 1.  No
  assertion can fail.
\<close>

theorem forward_from_vm_protocol:
  assumes "forward_from_vm bulk mps s = (r, t)" and "bound_to mps (vm s)"
    and "list_all (fits mps) (answers s)" and "r \<noteq> Waiting"
  shows "(r = Done () \<or> r = Exited 1) \<and>
    (\<exists>h. history t = history s @ h \<and> run_phase Reading h = Some Over)"
  using forward_from_vm_end[OF assms(1)] assms(2-4) by (auto simp: ready_def)

text \<open>
  C20: The statistics of the VM endpoint count every datagram of every \<open>vmnet_write\<close> that
  succeeded, and its bytes, whatever number of packets vmnet reports as written; no drop is ever
  counted; fast and slow count the \<open>recvmsg_x\<close> and the \<open>read\<close> calls.
\<close>

theorem forward_from_vm_stats:
  assumes "forward_from_vm bulk mps s = (Done (), t)" and "bound_to mps (vm s)"
    and "list_all (fits mps) (answers s)"
  shows "\<exists>h. history t = history s @ h \<and>
    (let sizes = concat (map counted h); s0 = stats (vm s)
     in stats (vm t) = \<lparr>st_packets = st_packets s0 + of_nat (length sizes),
          st_bytes = st_bytes s0 + sum_list sizes, st_drops = st_drops s0,
          st_fast = st_fast s0 + of_nat (vcalls is_recvmsg h),
          st_slow = st_slow s0 + of_nat (vcalls is_read_vm h)\<rparr>)"
  using forward_from_vm_end[OF assms(1)] assms(2,3)
  by (auto simp: ready_def stats_after_def Let_def)

text \<open>Two datagrams arrive at once and are written, then the peer closes the socket.\<close>

lemma read_datagrams:
  assumes "answers s = Datagrams lens # as"
  shows "read_from_vm True mps s = (Done (int (length lens)),
    s\<lparr>vm := set_msg_lens lens ((reset_iovs mps (nat (max_packet_count (vm s))) (vm s))
         \<lparr>stats := count_fast (stats (vm s))\<rparr>),
      answers := as,
      history := history s @ [(Recvmsg_x (max_packet_count (vm s)), Some (Datagrams lens))]\<rparr>)"
  using assms by (simp add: read_from_vm_def set_vm_def prog_simps)

lemma forward_round_batch:
  assumes "answers s = Datagrams lens # Written VMNET_SUCCESS n # as" and "ready mps s" and "lens \<noteq> []"
  shows "\<exists>t. forward_round True mps s = (Done None, t) \<and> answers t = as \<and> ready mps t \<and>
    history t = history s @ [(Recvmsg_x (packet_count_for mps), Some (Datagrams lens)),
       (Vmnet_write (batch_of lens), Some (Written VMNET_SUCCESS n))]"
proof -
  have bd: "bound_to mps (vm s)" using assms(2) by (simp add: ready_def)
  let ?u = "snd (read_from_vm True mps s)"
  note rd = read_datagrams[OF assms(1), of mps]
  have u: "bound_to mps (vm ?u)" "holds lens (vm ?u)" "answers ?u = Written VMNET_SUCCESS n # as"
    "history ?u = history s @ [(Recvmsg_x (packet_count_for mps), Some (Datagrams lens))]"
    using bd assms(1,2) bound_lengths[OF bd]
    by (auto simp: rd ready_def intro!: holds_set)
  have "forward_round True mps s = (Done None, ?u\<lparr>answers := as,
      history := history ?u @ [(Vmnet_write (batch_of lens), Some (Written VMNET_SUCCESS n))],
      vm := count_forwarded (int (length lens)) (match_msgs (length lens) (vm ?u))\<rparr>)"
    using assms(3) write_to_host_run[OF u(1,2)] u(3)
    by (simp add: forward_round_def bind_def rd Let_def seq_def set_vm_def modify_def ret_def)
  then show ?thesis using u assms(1,2) by (simp add: ready_def)
qed

lemma forward_round_closed:
  assumes "answers s = Datagrams [] # Triggered # as"
  shows "\<exists>t. forward_round True mps s = (Done (Some ()), t) \<and>
    history t = history s @ [(Recvmsg_x (max_packet_count (vm s)), Some (Datagrams [])),
       (Kevent_trigger (shutdown_event STATUS_STOPPED), Some Triggered)]"
  using assms
  by (simp add: forward_round_def bind_def read_datagrams[OF assms] seq_def trigger_run ret_def)

text \<open>\<open>vm_taking n\<close>: two datagrams arrive, and vmnet takes \<open>n\<close> of them.\<close>

definition vm_taking :: "int \<Rightarrow> vm_thread" where
  "vm_taking n = \<lparr>answers = [Datagrams [64, 100], Written VMNET_SUCCESS n, Datagrams [], Triggered],
     history = [],
     vm = bind_buffers 65536 16 \<lparr>packets = replicate 16 zero_packet, msgs = replicate 16 zero_msg,
       iovs = replicate 16 zero_iov, buffers = 16 * 65536, max_packet_count = 16, ep_name = ''vm'',
       stats = stats_zero\<rparr>\<rparr>"

definition sample_vm :: vm_thread where
  "sample_vm = vm_taking 2"

lemma vm_taking_bound: "bound_to 65536 (vm (vm_taking n))" "list_all (fits 65536) (answers (vm_taking n))"
  by (simp_all add: vm_taking_def bound_to_def bind_buffers_def packet_count_for_def)

lemma sample_vm_history: "history sample_vm = []" "stats (vm sample_vm) = stats_zero"
  by (simp_all add: sample_vm_def vm_taking_def bind_buffers_def)

lemmas sample_vm_bound = vm_taking_bound[of 2, folded sample_vm_def]

lemma vm_taking_run: "\<exists>t. forward_from_vm True 65536 (vm_taking n) = (Done (), t) \<and>
    history t = [(Recvmsg_x 16, Some (Datagrams [64, 100])),
       (Vmnet_write (batch_of [64, 100]), Some (Written VMNET_SUCCESS n)), (Recvmsg_x 16, Some (Datagrams [])),
       (Kevent_trigger (shutdown_event STATUS_STOPPED), Some Triggered)]"
proof -
  have s: "answers (vm_taking n) = Datagrams [64, 100] # Written VMNET_SUCCESS n # [Datagrams [], Triggered]"
    "ready 65536 (vm_taking n)" "history (vm_taking n) = []"
    using vm_taking_bound by (simp_all add: vm_taking_def ready_def)
  obtain t where t: "forward_round True 65536 (vm_taking n) = (Done None, t)"
      "answers t = Datagrams [] # Triggered # []" "ready 65536 t"
    and ht: "history t = history (vm_taking n) @
      [(Recvmsg_x (packet_count_for 65536), Some (Datagrams [64, 100])),
       (Vmnet_write (batch_of [64, 100]), Some (Written VMNET_SUCCESS n))]"
    using forward_round_batch[OF s(1,2)] by blast
  have h: "history t = [(Recvmsg_x 16, Some (Datagrams [64, 100])),
      (Vmnet_write (batch_of [64, 100]), Some (Written VMNET_SUCCESS n))]"
    by (simp add: ht s(3) packet_count_for_def)
  obtain u where u: "forward_round True 65536 t = (Done (Some ()), u)"
    "history u = history t @ [(Recvmsg_x (max_packet_count (vm t)), Some (Datagrams [])),
       (Kevent_trigger (shutdown_event STATUS_STOPPED), Some Triggered)]"
    using forward_round_closed[OF t(2)] by blast
  have "max_packet_count (vm t) = 16"
    using t(3) by (simp add: ready_def bound_to_def packet_count_for_def)
  moreover have "forward_from_vm True 65536 (vm_taking n) = (Done (), u)"
    by (simp add: forward_from_vm_def vm_loop.unfold_loop bind_def t(1) u(1) ret_def)
  ultimately show ?thesis using h u(2) by simp
qed

lemmas sample_vm_run = vm_taking_run[of 2, folded sample_vm_def]

theorem forward_from_vm_protocol_witness:
  "\<exists>t. forward_from_vm True 65536 sample_vm = (Done (), t) \<and>
     run_phase Reading (history t) = Some Over"
proof -
  obtain t where r: "forward_from_vm True 65536 sample_vm = (Done (), t)"
    using sample_vm_run by blast
  have "Done () \<noteq> (Waiting :: unit outcome)" by simp
  from forward_from_vm_protocol[OF r sample_vm_bound this] r show ?thesis
    by (auto simp: sample_vm_history)
qed

theorem forward_from_vm_stats_witness:
  "\<exists>t. forward_from_vm True 65536 sample_vm = (Done (), t) \<and> st_fast (stats (vm t)) = 2 \<and>
     st_drops (stats (vm t)) = 0"
proof -
  obtain t where r: "forward_from_vm True 65536 sample_vm = (Done (), t)"
    and h: "map fst (history t) = [Recvmsg_x 16, Vmnet_write (batch_of [64, 100]), Recvmsg_x 16,
       Kevent_trigger (shutdown_event STATUS_STOPPED)]"
    using sample_vm_run by auto
  have c: "vcalls p g = length (filter p (map fst g))" for p g
    by (induction g) simp_all
  from forward_from_vm_stats[OF r sample_vm_bound, unfolded Let_def] obtain g
    where g: "history t = history sample_vm @ g"
      and st: "stats (vm t) = \<lparr>st_packets = st_packets (stats (vm sample_vm)) + of_nat (length (concat (map counted g))),
          st_bytes = st_bytes (stats (vm sample_vm)) + sum_list (concat (map counted g)),
          st_drops = st_drops (stats (vm sample_vm)),
          st_fast = st_fast (stats (vm sample_vm)) + of_nat (vcalls is_recvmsg g),
          st_slow = st_slow (stats (vm sample_vm)) + of_nat (vcalls is_read_vm g)\<rparr>"
    by blast
  have "vcalls is_recvmsg g = 2" using h by (simp add: c g sample_vm_history)
  then have "st_fast (stats (vm t)) = 2 \<and> st_drops (stats (vm t)) = 0"
    by (simp add: st sample_vm_history stats_zero_def)
  with r show ?thesis by blast
qed

end
