(* ===== verification/Stats.thy ===== *)
theory Stats
  imports Endpoint "HOL-Library.Signed_Division"
begin

text \<open>
  The statistics report of \<open>programs/helper.c\<close>: the timestamp and the JSON line written when the
  stats timer fires.  The clock and \<open>localtime_r\<close> are inputs: the nanoseconds and a \<open>struct tm\<close>.
  C's division truncates (\<open>sdiv\<close>, \<open>smod\<close>).
\<close>

section \<open>Definitions\<close>

definition MILLISECOND :: int where "MILLISECOND = 1000000"

text \<open>\<open>strftime\<close> with \<open>"%Y-%m-%dT%H:%M:%S"\<close>; years count from 1900, months from 0.\<close>

definition strftime_date :: "tm \<Rightarrow> string" where
  "strftime_date t =
     fmt_d (tm_year t + 1900) @ ''-'' @ fmt_0d False 2 (tm_mon t + 1) @ ''-'' @
     fmt_0d False 2 (tm_mday t) @ ''T'' @ fmt_0d False 2 (tm_hour t) @ '':'' @
     fmt_0d False 2 (tm_min t) @ '':'' @ fmt_0d False 2 (tm_sec t)"

definition tz_hours :: "int \<Rightarrow> int" where "tz_hours gmtoff = gmtoff sdiv 3600"

definition tz_minutes :: "int \<Rightarrow> int" where "tz_minutes gmtoff = \<bar>gmtoff smod 3600\<bar> sdiv 60"

text \<open>
  \<open>iso_8601_timestamp(buf, len)\<close>: the text it writes.  The first assertion is on \<open>strftime\<close>, which
  returns 0 when the date and its NUL do not fit into \<open>char date[24]\<close>.
\<close>

definition iso_8601_timestamp :: "int \<Rightarrow> tm \<Rightarrow> nat \<Rightarrow> string outcome" where
  "iso_8601_timestamp tv_nsec t len =
     (let date = strftime_date t
      in if length date + 1 > 24 then Aborted
         else
           (let s = date @ ''.'' @ fmt_0d False 3 (tv_nsec sdiv MILLISECOND) @
                  fmt_0d True 3 (tz_hours (tm_gmtoff t)) @ '':'' @
                  fmt_0d False 2 (tz_minutes (tm_gmtoff t))
            in if length s < len then Done s else Aborted))"

definition fmt_llu :: "64 word \<Rightarrow> string" where
  "fmt_llu w = fmt_d (uint w)"

definition report_endpoint :: "forward_stats \<Rightarrow> string" where
  "report_endpoint s =
     ''\"packets\": '' @ fmt_llu (st_packets s) @ '', \"bytes\": '' @ fmt_llu (st_bytes s) @
     '', \"drops\": '' @ fmt_llu (st_drops s) @ '', \"fast\": '' @ fmt_llu (st_fast s) @
     '', \"slow\": '' @ fmt_llu (st_slow s)"

definition report_line :: "string \<Rightarrow> forward_stats \<Rightarrow> forward_stats \<Rightarrow> string" where
  "report_line timestamp host_stats vm_stats =
     ''INFO  [stats] {\"time\": \"'' @ timestamp @ ''\", \"host\": {'' @
     report_endpoint host_stats @ ''}, \"vm\": {'' @ report_endpoint vm_stats @ ''}}'' @ [CHR 0x0A]"

text \<open>\<open>report_stats\<close>: the line written to stderr.\<close>

definition report_stats ::
  "int \<Rightarrow> tm \<Rightarrow> forward_stats \<Rightarrow> forward_stats \<Rightarrow> string outcome" where
  "report_stats tv_nsec t host_stats vm_stats =
     (case iso_8601_timestamp tv_nsec t 32 of
        Done timestamp \<Rightarrow> Done (report_line timestamp host_stats vm_stats)
      | Exited c \<Rightarrow> Exited c
      | Aborted \<Rightarrow> Aborted
      | Waiting \<Rightarrow> Waiting)"

section \<open>Properties\<close>

lemma length_dec1: "n < 10 \<Longrightarrow> length (dec n) = 1"
  by (simp add: dec.simps)

lemma length_dec2: "10 \<le> n \<Longrightarrow> n < 100 \<Longrightarrow> length (dec n) = 2"
  by (simp add: dec.simps[of n] length_dec1)

lemma length_dec3: "100 \<le> n \<Longrightarrow> n < 1000 \<Longrightarrow> length (dec n) = 3"
  by (simp add: dec.simps[of n] length_dec2)

lemma length_dec4: "1000 \<le> n \<Longrightarrow> n < 10000 \<Longrightarrow> length (dec n) = 4"
  by (simp add: dec.simps[of n] length_dec3)

lemma length_fmt_02d:
  assumes "0 \<le> n" and "n < 100" shows "length (fmt_0d False 2 n) = 2"
proof (cases "n < 10")
  case True
  then show ?thesis using assms length_dec1[of "nat n"] by (simp add: fmt_0d_def Let_def)
next
  case False
  then show ?thesis using assms length_dec2[of "nat n"] by (simp add: fmt_0d_def Let_def)
qed

lemma length_fmt_03d:
  assumes "0 \<le> n" and "n < 1000" shows "length (fmt_0d False 3 n) = 3"
proof -
  consider "nat n < 10" | "10 \<le> nat n" "nat n < 100" | "100 \<le> nat n" "nat n < 1000"
    using assms by linarith
  then show ?thesis
    using assms by cases (auto simp: fmt_0d_def Let_def length_dec1 length_dec2 length_dec3)
qed

lemma length_fmt_plus_03d:
  assumes "-100 < n" and "n < 100" shows "length (fmt_0d True 3 n) = 3"
proof (cases "\<bar>n\<bar> < 10")
  case True
  then have "nat \<bar>n\<bar> < 10" by simp
  then show ?thesis using length_dec1[of "nat \<bar>n\<bar>"] by (simp add: fmt_0d_def Let_def)
next
  case False
  then have "10 \<le> nat \<bar>n\<bar>" "nat \<bar>n\<bar> < 100" using assms by linarith+
  then show ?thesis using length_dec2[of "nat \<bar>n\<bar>"] by (simp add: fmt_0d_def Let_def)
qed

text \<open>A broken-down time as \<open>localtime_r\<close> gives it, in a year of four digits.\<close>

definition tm_ok :: "tm \<Rightarrow> bool" where
  "tm_ok t \<longleftrightarrow> -900 \<le> tm_year t \<and> tm_year t < 8100 \<and> 0 \<le> tm_mon t \<and> tm_mon t \<le> 11 \<and>
     1 \<le> tm_mday t \<and> tm_mday t \<le> 31 \<and> 0 \<le> tm_hour t \<and> tm_hour t \<le> 23 \<and>
     0 \<le> tm_min t \<and> tm_min t \<le> 59 \<and> 0 \<le> tm_sec t \<and> tm_sec t \<le> 60 \<and>
     -86400 < tm_gmtoff t \<and> tm_gmtoff t < 86400"

lemma length_strftime:
  assumes "tm_ok t" shows "length (strftime_date t) = 19"
proof -
  have "1000 \<le> nat (tm_year t + 1900)" "nat (tm_year t + 1900) < 10000"
    using assms unfolding tm_ok_def by linarith+
  from length_dec4[OF this] show ?thesis
    using assms by (simp add: strftime_date_def tm_ok_def length_fmt_02d fmt_d_def)
qed

text \<open>C's truncating division and its remainder, on a non-negative and on a negative number.\<close>

lemma tz_pos: "0 \<le> g \<Longrightarrow> tz_hours g = g div 3600" "0 \<le> g \<Longrightarrow> tz_minutes g = g mod 3600 div 60"
  by (simp_all add: tz_hours_def tz_minutes_def signed_divide_int_def signed_modulo_int_def sgn_if)

lemma tz_neg: "tz_hours (- g) = - tz_hours g" "tz_minutes (- g) = tz_minutes g"
  by (simp_all add: tz_hours_def tz_minutes_def signed_divide_int_def signed_modulo_int_def sgn_if)

lemma tz_bounds:
  assumes "-86400 < g" and "g < 86400"
  shows "-24 < tz_hours g" "tz_hours g < 24" "0 \<le> tz_minutes g" "tz_minutes g < 60"
proof -
  have pos: "0 \<le> tz_hours k \<and> tz_hours k < 24 \<and> 0 \<le> tz_minutes k \<and> tz_minutes k < 60"
    if "0 \<le> k" "k < 86400" for k
  proof -
    have "k div 3600 < 24" "0 \<le> k div 3600" "0 \<le> k mod 3600 div 60" "k mod 3600 div 60 < 60"
      using that zdiv_mono1[of k 86399 3600] zdiv_mono1[of "k mod 3600" 3599 60]
        pos_mod_bound[of 3600 k] by (simp_all add: pos_imp_zdiv_nonneg_iff)
    then show ?thesis using that(1) by (simp add: tz_pos)
  qed
  have "-24 < tz_hours g \<and> tz_hours g < 24 \<and> 0 \<le> tz_minutes g \<and> tz_minutes g < 60"
  proof (cases "0 \<le> g")
    case True
    then show ?thesis
      using pos[of g] assms(2) by linarith
  next
    case False
    then show ?thesis
      using pos[of "- g"] assms(1) tz_neg[of g] by linarith
  qed
  then show "-24 < tz_hours g" "tz_hours g < 24" "0 \<le> tz_minutes g" "tz_minutes g < 60"
    by blast+
qed

text \<open>The text of a timestamp: date, milliseconds, offset from UTC.\<close>

definition offset_text :: "int \<Rightarrow> string" where
  "offset_text g = fmt_0d True 3 (tz_hours g) @ '':'' @ fmt_0d False 2 (tz_minutes g)"

definition timestamp_text :: "int \<Rightarrow> tm \<Rightarrow> string" where
  "timestamp_text ns t = strftime_date t @ ''.'' @ fmt_0d False 3 (ns div 1000000) @
     offset_text (tm_gmtoff t)"

lemma timestamp_Done:
  assumes "tm_ok t" and "0 \<le> ns" and "ns < 1000000000"
  shows "length (timestamp_text ns t) = 29"
    "30 \<le> len \<Longrightarrow> iso_8601_timestamp ns t len = Done (timestamp_text ns t)"
proof -
  have ms: "ns sdiv MILLISECOND = ns div 1000000" "0 \<le> ns div 1000000" "ns div 1000000 < 1000"
    using assms(2,3) by (auto simp: MILLISECOND_def signed_divide_int_def sgn_if)
  have g: "-86400 < tm_gmtoff t" "tm_gmtoff t < 86400" using assms(1) by (simp_all add: tm_ok_def)
  have h: "-100 < tz_hours (tm_gmtoff t)" "tz_hours (tm_gmtoff t) < 100"
    "tz_minutes (tm_gmtoff t) < 100"
    using tz_bounds[OF g] by simp_all
  show len: "length (timestamp_text ns t) = 29"
    using length_strftime[OF assms(1)] ms(2,3) tz_bounds(3)[OF g] h
    by (simp add: timestamp_text_def offset_text_def length_fmt_03d length_fmt_plus_03d length_fmt_02d)
  show "iso_8601_timestamp ns t len = Done (timestamp_text ns t)" if "30 \<le> len"
    using length_strftime[OF assms(1)] len that
    by (simp add: iso_8601_timestamp_def Let_def ms(1) timestamp_text_def offset_text_def)
qed

lemma report_stats_Done:
  assumes "tm_ok t" and "0 \<le> ns" and "ns < 1000000000"
  shows "report_stats ns t h v = Done (report_line (timestamp_text ns t) h v)"
  using timestamp_Done(2)[OF assms, of 32] by (simp add: report_stats_def)

text \<open>
  C38: The timestamp of a report always fits: for a date in a year of four digits its text
  is 29 characters and neither assertion of \<open>iso_8601_timestamp\<close> can fail in the 32 bytes of
  \<open>report_stats\<close>.
\<close>

theorem timestamp_fits:
  assumes "tm_ok t" and "0 \<le> ns" and "ns < 1000000000"
  shows "iso_8601_timestamp ns t 32 = Done (timestamp_text ns t) \<and>
    length (timestamp_text ns t) = 29 \<and>
    report_stats ns t h v = Done (report_line (timestamp_text ns t) h v)"
  using timestamp_Done[OF assms] by (simp add: report_stats_def)

definition sample_tm :: tm where
  "sample_tm = \<lparr>tm_year = 125, tm_mon = 11, tm_mday = 31, tm_hour = 23, tm_min = 59, tm_sec = 58,
     tm_gmtoff = -19800\<rparr>"

theorem timestamp_fits_witness:
  "iso_8601_timestamp 7000000 sample_tm 32 = Done (timestamp_text 7000000 sample_tm) \<and>
   timestamp_text 7000000 sample_tm = ''2025-12-31T23:59:58.007-05:30''"
proof -
  have "tm_ok sample_tm" by (simp add: tm_ok_def sample_tm_def)
  from timestamp_fits[OF this, of 7000000] have
    "iso_8601_timestamp 7000000 sample_tm 32 = Done (timestamp_text 7000000 sample_tm)" by simp
  moreover have "timestamp_text 7000000 sample_tm = ''2025-12-31T23:59:58.007-05:30''"
    by code_simp
  ultimately show ?thesis by simp
qed

text \<open>The offset in seconds that a text names.\<close>

definition read_offset :: "string \<Rightarrow> int" where
  "read_offset s =
     (let n = digits_val (take 2 (drop 1 s)) * 3600 + digits_val (drop 4 s) * 60
      in if take 1 s = ''-'' then - n else n)"

lemma fmt_02d_digits:
  assumes "0 \<le> n" and "n < 100"
  shows "digits_val (fmt_0d False 2 n) = n \<and> digits_val (drop 1 (fmt_0d True 3 n)) = n \<and>
    drop 1 (fmt_0d True 3 (- n)) = drop 1 (fmt_0d True 3 n)"
proof -
  have z: "digits_val (CHR ''0'' # dec k) = digits_val (dec k)" for k
    by (simp add: digits_val_def digit_val_def)
  have ds: "digits_val (dec (nat n)) = n" using assms(1) by simp
  show ?thesis
  proof (cases "n < 10")
    case True
    then have l: "length (dec (nat n)) = 1" using length_dec1[of "nat n"] assms(1) by simp
    show ?thesis using assms z[of "nat n"] ds l by (auto simp: fmt_0d_def Let_def)
  next
    case False
    then have l: "length (dec (nat n)) = 2" using length_dec2[of "nat n"] assms by simp
    show ?thesis using assms ds l by (auto simp: fmt_0d_def Let_def)
  qed
qed

lemma offset_text_parts:
  assumes "-86400 < g" and "g < 86400"
  shows "read_offset (offset_text g) =
    (if g \<le> -3600 then - (\<bar>tz_hours g\<bar> * 3600 + tz_minutes g * 60)
     else \<bar>tz_hours g\<bar> * 3600 + tz_minutes g * 60)"
proof -
  note b = tz_bounds[OF assms]
  have l3: "length (fmt_0d True 3 (tz_hours g)) = 3" using b by (simp add: length_fmt_plus_03d)
  then have parts: "take 2 (drop 1 (offset_text g)) = drop 1 (fmt_0d True 3 (tz_hours g))"
    "drop 4 (offset_text g) = fmt_0d False 2 (tz_minutes g)"
    "take 1 (offset_text g) = take 1 (fmt_0d True 3 (tz_hours g))"
    by (simp_all add: offset_text_def take_drop)
  have abs: "drop 1 (fmt_0d True 3 (tz_hours g)) = drop 1 (fmt_0d True 3 \<bar>tz_hours g\<bar>)"
    using fmt_02d_digits[of "\<bar>tz_hours g\<bar>"] b by (auto simp: abs_if split: if_splits)
  have dig: "digits_val (drop 1 (fmt_0d True 3 (tz_hours g))) = \<bar>tz_hours g\<bar>"
    "digits_val (fmt_0d False 2 (tz_minutes g)) = tz_minutes g"
    using abs fmt_02d_digits[of "\<bar>tz_hours g\<bar>"] fmt_02d_digits[of "tz_minutes g"] b by auto
  have neg: "take 1 (fmt_0d True 3 (tz_hours g)) = ''-'' \<longleftrightarrow> tz_hours g < 0"
    by (simp add: fmt_0d_def Let_def)
  have "tz_hours g < 0 \<longleftrightarrow> g \<le> -3600"
    using tz_neg(1)[of "- g"] tz_pos(1)[of "- g"] tz_pos(1)[of g] by (cases "0 \<le> g") auto
  then show ?thesis
    unfolding read_offset_def Let_def parts dig neg by simp
qed

text \<open>
  C39: What the offset of a timestamp says: read back, it is the offset truncated to minutes
  toward zero, except for an offset between one hour and zero west of UTC, which is written with a
  plus sign: there the text says the opposite offset.
\<close>

theorem timestamp_offset:
  assumes "-86400 < g" and "g < 86400"
  shows "read_offset (offset_text g) =
    (if -3600 < g \<and> g < 0 then - (g sdiv 60 * 60) else g sdiv 60 * 60)"
proof -
  have pos: "tz_hours k * 3600 + tz_minutes k * 60 = k div 60 * 60" if "0 \<le> k" for k
  proof -
    have split: "q * 60 + r div 60 = (3600 * q + r) div 60" for q r :: int
    proof -
      have "(3600 * q + r) div 60 = (r + (q * 60) * 60) div 60" by (simp add: algebra_simps)
      also have "\<dots> = q * 60 + r div 60" by (subst div_mult_self1) simp_all
      finally show ?thesis by simp
    qed
    have "k div 3600 * 60 + k mod 3600 div 60 = (3600 * (k div 3600) + k mod 3600) div 60"
      by (rule split)
    also have "\<dots> = k div 60" by (simp only: mult_div_mod_eq)
    finally show ?thesis using that by (simp add: tz_pos)
  qed
  have sd: "g sdiv 60 = (if 0 \<le> g then g div 60 else - ((- g) div 60))"
    by (simp add: signed_divide_int_def sgn_if)
  show ?thesis
  proof (cases "0 \<le> g")
    case True
    then have "0 \<le> tz_hours g" by (simp add: tz_pos)
    then show ?thesis using offset_text_parts[OF assms] pos[OF True] True by (simp add: sd)
  next
    case False
    then have "\<bar>tz_hours g\<bar> = tz_hours (- g)" "tz_minutes g = tz_minutes (- g)"
      using tz_neg[of g] tz_pos(1)[of "- g"] by auto
    then show ?thesis using offset_text_parts[OF assms] pos[of "- g"] False by (simp add: sd)
  qed
qed

theorem timestamp_offset_witness:
  "offset_text (-2640) = ''+00:44'' \<and> read_offset (offset_text (-2640)) = 2640 \<and>
   read_offset (offset_text (-19800)) = -19800"
proof -
  have "offset_text (-2640) = ''+00:44''" by code_simp
  then show ?thesis
    using timestamp_offset[of "-2640"] timestamp_offset[of "-19800"]
    by (simp add: signed_divide_int_def sgn_if)
qed

section \<open>Reading a report\<close>

text \<open>A reader of the line: the literal text is expected, the timestamp ends at its quote.\<close>

fun expect :: "string \<Rightarrow> string \<Rightarrow> string option" where
  "expect [] s = Some s"
| "expect (c # p) [] = None"
| "expect (c # p) (d # s) = (if c = d then expect p s else None)"

definition read_number :: "string \<Rightarrow> (64 word \<times> string) option" where
  "read_number s =
     (if takeWhile isdigit s = [] then None
      else Some (word_of_int (digits_val (takeWhile isdigit s)), dropWhile isdigit s))"

text \<open>The counters of an endpoint, each after its label.\<close>

fun read_counters :: "string list \<Rightarrow> string \<Rightarrow> (64 word list \<times> string) option" where
  "read_counters [] s = Some ([], s)"
| "read_counters (l # ls) s =
     Option.bind (expect l s) (\<lambda>s.
     Option.bind (read_number s) (\<lambda>(w, s).
     Option.bind (read_counters ls s) (\<lambda>(ws, s). Some (w # ws, s))))"

definition counter_labels :: "string list" where
  "counter_labels = [''\"packets\": '', '', \"bytes\": '', '', \"drops\": '', '', \"fast\": '', '', \"slow\": '']"

definition read_endpoint :: "string \<Rightarrow> (forward_stats \<times> string) option" where
  "read_endpoint s =
     (case read_counters counter_labels s of
        Some ([p, b, d, f, w], r) \<Rightarrow>
          Some (\<lparr>st_packets = p, st_bytes = b, st_drops = d, st_fast = f, st_slow = w\<rparr>, r)
      | _ \<Rightarrow> None)"

definition read_report :: "string \<Rightarrow> (string \<times> forward_stats \<times> forward_stats) option" where
  "read_report s =
     Option.bind (expect ''INFO  [stats] {\"time\": \"'' s) (\<lambda>s.
     Option.bind (expect ''\", \"host\": {'' (dropWhile (\<lambda>c. c \<noteq> CHR 0x22) s)) (\<lambda>r.
     Option.bind (read_endpoint r) (\<lambda>(h, r).
     Option.bind (expect ''}, \"vm\": {'' r) (\<lambda>r.
     Option.bind (read_endpoint r) (\<lambda>(v, r).
       if r = ''}}'' @ [CHR 0x0A] then Some (takeWhile (\<lambda>c. c \<noteq> CHR 0x22) s, h, v) else None)))))"

lemma expect_append [simp]: "expect p (p @ s) = Some s"
  by (induction p) simp_all

lemma read_number_text [simp]: "\<not> isdigit c \<Longrightarrow> read_number (fmt_llu w @ c # r) = Some (w, c # r)"
  by (simp add: read_number_def fmt_llu_def fmt_d_def)

definition counters_text :: "string list \<Rightarrow> 64 word list \<Rightarrow> string" where
  "counters_text ls ws = concat (map2 (\<lambda>l w. l @ fmt_llu w) ls ws)"

lemma read_counters_text:
  assumes "length ls = length ws" and "list_all (\<lambda>l. l \<noteq> [] \<and> \<not> isdigit (hd l)) ls" and "\<not> isdigit c"
  shows "read_counters ls (counters_text ls ws @ c # r) = Some (ws, c # r)"
  using assms
proof (induction ls ws rule: list_induct2)
  case Nil
  then show ?case by (simp add: counters_text_def)
next
  case (Cons l ls w ws)
  have t: "counters_text (l # ls) (w # ws) = l @ fmt_llu w @ counters_text ls ws"
    by (simp add: counters_text_def)
  have "\<exists>d q. counters_text ls ws @ c # r = d # q \<and> \<not> isdigit d"
  proof (cases ls)
    case (Cons k ks)
    then obtain v vs where "ws = v # vs" using \<open>length ls = length ws\<close> by (cases ws) auto
    moreover obtain d q where "k = d # q" "\<not> isdigit d" using Cons.prems Cons by (cases k) auto
    ultimately show ?thesis using Cons by (simp add: counters_text_def)
  qed (use Cons.hyps Cons.prems in \<open>simp add: counters_text_def\<close>)
  then obtain d q where d: "counters_text ls ws @ c # r = d # q" "\<not> isdigit d" by blast
  have "read_counters ls (d # q) = Some (ws, c # r)" using Cons.IH Cons.prems d(1) by simp
  then show ?case unfolding t using d by simp
qed

lemma read_endpoint_text:
  assumes "\<not> isdigit c"
  shows "read_endpoint (report_endpoint s @ c # r) = Some (s, c # r)"
proof -
  let ?ws = "[st_packets s, st_bytes s, st_drops s, st_fast s, st_slow s]"
  have t: "report_endpoint s = counters_text counter_labels ?ws"
    by (simp add: report_endpoint_def counters_text_def counter_labels_def)
  have l: "list_all (\<lambda>l. l \<noteq> [] \<and> \<not> isdigit (hd l)) counter_labels" "length counter_labels = length ?ws"
    by (simp_all add: counter_labels_def isdigit_def)
  show ?thesis
    unfolding read_endpoint_def t read_counters_text[OF l(2,1) assms] by simp
qed

lemma read_report_line:
  assumes "CHR 0x22 \<notin> set ts"
  shows "read_report (report_line ts h v) = Some (ts, h, v)"
proof -
  have d: "\<not> isdigit (CHR ''}'')" by (simp add: isdigit_def)
  have q: "\<forall>c \<in> set ts. c \<noteq> CHR 0x22" using assms by metis
  have t: "report_line ts h v = ''INFO  [stats] {\"time\": \"'' @ ts @ CHR 0x22 # '', \"host\": {'' @
      report_endpoint h @ CHR ''}'' # '', \"vm\": {'' @ report_endpoint v @ CHR ''}'' # CHR ''}'' # [CHR 0x0A]"
    by (simp add: report_line_def)
  have w: "dropWhile (\<lambda>c. c \<noteq> CHR 0x22) (ts @ CHR 0x22 # u) = CHR 0x22 # u"
    "takeWhile (\<lambda>c. c \<noteq> CHR 0x22) (ts @ CHR 0x22 # u) = ts" for u
    using q by (simp_all add: dropWhile_append2 takeWhile_append2)
  show ?thesis
    unfolding t read_report_def by (simp add: w read_endpoint_text[OF d] del: append_Cons) 
qed

lemma timestamp_no_quote: "CHR 0x22 \<notin> set (timestamp_text ns t)"
proof -
  have "CHR 0x22 \<notin> set (dec n)" for n using dec_isdigit by (fastforce simp: isdigit_def)
  then have "CHR 0x22 \<notin> set (fmt_d n)" "CHR 0x22 \<notin> set (fmt_0d b w n)" for b w n
    by (auto simp: fmt_d_def fmt_0d_def Let_def)
  then show ?thesis by (simp add: timestamp_text_def strftime_date_def offset_text_def)
qed

text \<open>
  C37: A report is read back as it was: from the line written for any time in a year of four digits
  and any counters, a reader gets the timestamp and all ten counters.
\<close>

theorem report_roundtrip:
  assumes "tm_ok t" and "0 \<le> ns" and "ns < 1000000000"
  shows "\<exists>line. report_stats ns t h v = Done line \<and> read_report line = Some (timestamp_text ns t, h, v)"
  using report_stats_Done[OF assms] by (simp add: read_report_line timestamp_no_quote)

theorem report_roundtrip_witness:
  "\<exists>line. report_stats 5000000 sample_tm stats_zero (stats_zero\<lparr>st_bytes := 1514\<rparr>) = Done line \<and>
     read_report line = Some (timestamp_text 5000000 sample_tm, stats_zero, stats_zero\<lparr>st_bytes := 1514\<rparr>)"
  by (rule report_roundtrip) (simp_all add: sample_tm_def tm_ok_def)

end
