(* ===== verification/Events.thy ===== *)
theory Events
  imports Stats Options
begin

text \<open>
  The state of vmnet-helper's main thread (the globals of \<open>programs/helper.c\<close>) and its event
  queue: \<open>setup_kq\<close>, the wait for a client, the stats timer and the loop that runs until the
  helper is told to stop.
\<close>

unbundle bit_operations_syntax

section \<open>State\<close>

text \<open>
  \<open>h_verbose\<close>: the global \<open>verbose\<close>.  \<open>h_interface\<close>: \<open>interface != NULL\<close>.  \<open>h_atexit\<close>: the functions registered with \<open>atexit\<close>, the
  last one first.  \<open>h_host\<close>, \<open>h_vm\<close>: the endpoints once \<open>setup_endpoints\<close> ran.
\<close>

record helper = "(hcall, hans) proc" +
  h_options :: options
  h_verbose :: bool
  h_interface :: bool
  h_max_packet_size :: "64 word"
  h_kq :: int
  h_status :: "32 word"
  h_lockfile :: "string option"
  h_atexit :: "exit_handler list"
  h_host :: "endpoint option"
  h_vm :: "endpoint option"

definition use_bulk_forwarding :: bool where "use_bulk_forwarding = True"

text \<open>The globals as the program starts, with the answers its calls will get.\<close>

definition helper_init :: "hans list \<Rightarrow> helper" where
  "helper_init as = \<lparr>answers = as, history = [], h_options = options_init, h_verbose = False,
     h_interface = False,
     h_max_packet_size = 0, h_kq = -1, h_status = 0, h_lockfile = None, h_atexit = [],
     h_host = None, h_vm = None\<rparr>"

section \<open>Setting up\<close>

definition SIGINT :: int where "SIGINT = 2"
definition SIGPIPE :: int where "SIGPIPE = 13"
definition SIGTERM :: int where "SIGTERM = 15"

definition kq_changes :: "kevent list" where
  "kq_changes =
     [\<lparr>ev_ident = SIGTERM, ev_filter = EVFILT_SIGNAL, ev_flags = EV_ADD, ev_fflags = 0, ev_data = 0\<rparr>,
      \<lparr>ev_ident = SIGINT, ev_filter = EVFILT_SIGNAL, ev_flags = EV_ADD, ev_fflags = 0, ev_data = 0\<rparr>,
      \<lparr>ev_ident = SHUTDOWN_EVENT, ev_filter = EVFILT_USER, ev_flags = EV_ADD, ev_fflags = 0, ev_data = 0\<rparr>]"

text \<open>A call that must return 0.\<close>

definition must_be_zero :: "hcall \<Rightarrow> (helper, unit) prog" where
  "must_be_zero c = bind (sys c) (\<lambda>a. if retval a \<noteq> 0 then exit_with EXIT_FAILURE else ret ())"

definition setup_kq :: "(helper, unit) prog" where
  "setup_kq =
     bind (sys Kqueue) (\<lambda>a.
     seq (modify (\<lambda>s. s\<lparr>h_kq := retval a\<rparr>))
    (seq (if retval a = -1 then exit_with EXIT_FAILURE else ret ())
    (seq (must_be_zero (Sigprocmask_block
            (map ev_ident (filter (\<lambda>c. ev_filter c = EVFILT_SIGNAL) kq_changes))))
    (seq (emit (Signal_ignore SIGPIPE))
         (must_be_zero (Kevent_change kq_changes))))))"

section \<open>Waiting for a client\<close>

definition fd_event :: "int \<Rightarrow> kflags \<Rightarrow> kevent" where
  "fd_event fd flags =
     \<lparr>ev_ident = fd, ev_filter = EVFILT_READ, ev_flags = flags, ev_fflags = 0, ev_data = 0\<rparr>"

text \<open>\<open>kevent(kq, NULL, 0, events, 1, NULL)\<close>: -1, or the event if there is one.\<close>

fun kevent_result :: "hans \<Rightarrow> kevent option option" where
  "kevent_result (Event e) = Some (Some e)"
| "kevent_result (Returns n) = (if n = 0 then Some None else None)"
| "kevent_result _ = None"

definition client_round :: "(helper, unit option) prog" where
  "client_round =
     bind (sys Kevent_wait) (\<lambda>a.
       case kevent_result a of
         None \<Rightarrow> exit_with EXIT_FAILURE
       | Some None \<Rightarrow> ret None
       | Some (Some e) \<Rightarrow>
           if ev_filter e = EVFILT_SIGNAL then exit_with EXIT_SUCCESS
           else if ev_filter e = EVFILT_READ then ret (Some ())
           else ret None)"

definition wait_for_client :: "(helper, unit) prog" where
  "wait_for_client =
     bind (gets (\<lambda>s. opt_fd (h_options s))) (\<lambda>fd.
     seq (must_be_zero (Kevent_change [fd_event fd EV_ADD]))
    (seq (repeat_until client_round)
         (must_be_zero (Kevent_change [fd_event fd EV_DELETE]))))"

section \<open>Running\<close>

definition start_stats_timer :: "(helper, unit) prog" where
  "start_stats_timer =
     bind (gets (\<lambda>s. opt_stats_interval (h_options s))) (\<lambda>interval.
       if interval = 0 then ret ()
       else must_be_zero (Kevent_change
         [\<lparr>ev_ident = STATS_TIMER, ev_filter = EVFILT_TIMER, ev_flags = EV_ADD,
           ev_fflags = NOTE_SECONDS, ev_data = interval\<rparr>]))"

text \<open>
  \<open>report_stats\<close> in the main thread: it reads the clock and the counters, which the other threads
  write, and prints the line.
\<close>

definition print_stats :: "(helper, unit) prog" where
  "print_stats =
     bind (sys Read_clock_and_stats) (\<lambda>a.
       case a of
         Now ns t host_stats vm_stats \<Rightarrow>
           (case report_stats ns t host_stats vm_stats of
              Done line \<Rightarrow> emit (Report line)
            | _ \<Rightarrow> abort_prog)
       | _ \<Rightarrow> ret ())"

datatype reaction = Stop "32 word" | Report_and_go | Go

text \<open>The reaction to an event; \<open>Stop f\<close>: \<open>status |= f; break\<close>.\<close>

definition react :: "kevent \<Rightarrow> reaction" where
  "react e =
     (if ev_filter e = EVFILT_SIGNAL then Stop STATUS_STOPPED
      else if ev_filter e = EVFILT_USER then Stop (ev_fflags e)
      else if ev_filter e = EVFILT_TIMER then Report_and_go
      else Go)"

definition add_status :: "32 word \<Rightarrow> (helper, unit) prog" where
  "add_status f = modify (\<lambda>s. s\<lparr>h_status := h_status s OR f\<rparr>)"

definition event_round :: "(helper, unit option) prog" where
  "event_round =
     bind (sys Kevent_wait) (\<lambda>a.
       case kevent_result a of
         None \<Rightarrow> seq (add_status STATUS_FAILURE) (ret (Some ()))
       | Some None \<Rightarrow> ret None
       | Some (Some e) \<Rightarrow>
           (case react e of
              Stop f \<Rightarrow> seq (add_status f) (ret (Some ()))
            | Report_and_go \<Rightarrow> seq print_stats (ret None)
            | Go \<Rightarrow> ret None))"

definition run_until_termination :: "(helper, unit) prog" where
  "run_until_termination = repeat_until event_round"

text \<open>The value \<open>main\<close> returns.\<close>

definition exit_status :: "32 word \<Rightarrow> int" where
  "exit_status status =
     (if status = 0 \<or> status AND STATUS_STOPPED \<noteq> 0 then EXIT_SUCCESS else EXIT_FAILURE)"

section \<open>Properties\<close>

lemma down_must_be_zero [intro]: "preserves answers_down (must_be_zero c)"
  unfolding must_be_zero_def by (auto intro!: down_order.pres_bind)

lemma down_add_status [intro]: "preserves answers_down (add_status f)"
  unfolding add_status_def by (rule down_modify) simp

lemma down_print_stats [intro]: "preserves answers_down print_stats"
  unfolding print_stats_def
  by (auto intro!: down_order.pres_bind split: hans.split outcome.split)

interpretation client_loop: calling_loop client_round
  unfolding client_round_def
  by (rule calling_loop_consumes, rule consumes_bind_first[OF consumes_sys])
     (auto split: option.split)

interpretation event_loop: calling_loop event_round
  unfolding event_round_def
  by (rule calling_loop_consumes, rule consumes_bind_first[OF consumes_sys])
     (auto intro!: down_order.pres_seq split: option.split reaction.split)

subsection \<open>The loop that runs until termination\<close>

text \<open>
  The answers to a wait that must end the loop, with the status they add: a signal, the shutdown
  event with the status its trigger gave, and any failure of the wait.
\<close>

fun stops :: "hans \<Rightarrow> 32 word option" where
  "stops (Event e) =
     (case ev_filter e of
        EVFILT_SIGNAL \<Rightarrow> Some STATUS_STOPPED
      | EVFILT_USER \<Rightarrow> Some (ev_fflags e)
      | _ \<Rightarrow> None)"
| "stops (Returns n) = (if n = 0 then None else Some STATUS_FAILURE)"
| "stops a = Some STATUS_FAILURE"

lemma stops_react:
  "stops a = (case kevent_result a of
      None \<Rightarrow> Some STATUS_FAILURE
    | Some None \<Rightarrow> None
    | Some (Some e) \<Rightarrow> (case react e of Stop f \<Rightarrow> Some f | _ \<Rightarrow> None))"
  by (cases a) (auto simp: react_def split: kfilter.split)

declare stops.simps [simp del]

definition hcalls :: "(hcall \<times> hans option \<Rightarrow> bool) \<Rightarrow> (hcall \<times> hans option) list \<Rightarrow> nat" where
  "hcalls p h = length (filter p h)"

lemma hcalls_simps [simp]:
  "hcalls p [] = 0" "hcalls p (e # h) = (if p e then 1 else 0) + hcalls p h"
  "hcalls p (h @ g) = hcalls p h + hcalls p g"
  by (simp_all add: hcalls_def)

fun is_timer :: "hcall \<times> hans option \<Rightarrow> bool" where
  "is_timer (Kevent_wait, Some (Event e)) \<longleftrightarrow> ev_filter e = EVFILT_TIMER" | "is_timer _ \<longleftrightarrow> False"

fun is_clock :: "hcall \<times> hans option \<Rightarrow> bool" where
  "is_clock (Read_clock_and_stats, Some (Now ns t h v)) \<longleftrightarrow> True" | "is_clock _ \<longleftrightarrow> False"

fun is_report :: "hcall \<times> hans option \<Rightarrow> bool" where
  "is_report (Report line, _) \<longleftrightarrow> True" | "is_report _ \<longleftrightarrow> False"

text \<open>An event that does not stop the loop.\<close>

fun goes_on :: "hcall \<times> hans option \<Rightarrow> bool" where
  "goes_on (Kevent_wait, Some a) \<longleftrightarrow> stops a = None" | "goes_on _ \<longleftrightarrow> True"

text \<open>The clock gives a time the report can print.\<close>

fun clock_ok :: "hans \<Rightarrow> bool" where
  "clock_ok (Now ns t h v) \<longleftrightarrow> tm_ok t \<and> 0 \<le> ns \<and> ns < 1000000000" | "clock_ok _ \<longleftrightarrow> True"

definition quiet :: "(hcall \<times> hans option) list \<Rightarrow> bool" where
  "quiet g \<longleftrightarrow> list_all goes_on g \<and> hcalls is_report g = hcalls is_clock g \<and>
     hcalls is_timer g = hcalls (\<lambda>e. fst e = Read_clock_and_stats) g"

lemma quiet_append: "quiet g \<Longrightarrow> quiet h \<Longrightarrow> quiet (g @ h)"
  by (simp add: quiet_def)

lemma print_stats_run:
  assumes "answers s = a # as" and "clock_ok a"
  shows "\<exists>g. print_stats s = (Done (), s\<lparr>answers := as, history := history s @
      (Read_clock_and_stats, Some a) # g\<rparr>) \<and>
    hcalls is_report g = (if is_clock (Read_clock_and_stats, Some a) then 1 else 0) \<and>
    hcalls is_clock g = 0 \<and> hcalls is_timer g = 0 \<and>
    hcalls (\<lambda>e. fst e = Read_clock_and_stats) g = 0 \<and> list_all goes_on g"
proof (cases "is_clock (Read_clock_and_stats, Some a)")
  case True
  then obtain ns tm h v where a: "a = Now ns tm h v" by (cases a) auto
  with assms(2) have "tm_ok tm" "0 \<le> ns" "ns < 1000000000" by simp_all
  from report_stats_Done[OF this]
  have "report_stats ns tm h v = Done (report_line (timestamp_text ns tm) h v)" by blast
  then have "print_stats s = (Done (), s\<lparr>answers := as, history := history s @
      (Read_clock_and_stats, Some a) # [(Report (report_line (timestamp_text ns tm) h v), None)]\<rparr>)"
    using assms(1) a by (simp add: print_stats_def bind_def emit_def)
  then show ?thesis using True by force
next
  case False
  then have "print_stats s = (Done (), s\<lparr>answers := as, history := history s @
      (Read_clock_and_stats, Some a) # []\<rparr>)"
    using assms(1) False by (cases a) (simp_all add: print_stats_def bind_def ret_def)
  then show ?thesis using False by force
qed

text \<open>The invariant of the loop, since \<open>s\<close>.\<close>

definition running_since :: "helper \<Rightarrow> helper \<Rightarrow> bool" where
  "running_since s u \<longleftrightarrow> h_status u = h_status s \<and> list_all clock_ok (answers u) \<and>
     (\<exists>g. history u = history s @ g \<and> quiet g)"

definition waits_since :: "helper \<Rightarrow> helper \<Rightarrow> bool" where
  "waits_since s t \<longleftrightarrow> answers t = [] \<and> h_status t = h_status s \<and>
     (\<exists>g. history t = history s @ g \<and> list_all goes_on g)"

definition stopped_since :: "helper \<Rightarrow> helper \<Rightarrow> bool" where
  "stopped_since s t \<longleftrightarrow> (\<exists>g a f. history t = history s @ g @ [(Kevent_wait, Some a)] \<and>
     quiet g \<and> stops a = Some f \<and> h_status t = h_status s OR f)"

lemma running_quiet:
  assumes "running_since s u" and "history v = history u @ g" and "quiet g"
    and "h_status v = h_status u" and "list_all clock_ok (answers v)"
  shows "running_since s v"
proof -
  obtain g0 where "history u = history s @ g0" "quiet g0"
    using assms(1) by (auto simp: running_since_def)
  then have "history v = history s @ (g0 @ g)" "quiet (g0 @ g)"
    using assms(2,3) quiet_append by auto
  then show ?thesis using assms(1,4,5) unfolding running_since_def by metis
qed

text \<open>The three ways a round of the loop goes on from its answer.\<close>

lemma event_round_cases:
  assumes "answers u = a # as"
  defines "w \<equiv> u\<lparr>answers := as, history := history u @ [(Kevent_wait, Some a)]\<rparr>"
  obtains (stop) f where "stops a = Some f" "event_round u = (Done (Some ()), w\<lparr>h_status := h_status u OR f\<rparr>)"
  | (timer) e where "a = Event e" "ev_filter e = EVFILT_TIMER" "event_round u = seq print_stats (ret None) w"
  | (go) "stops a = None" "\<not> is_timer (Kevent_wait, Some a)" "event_round u = (Done None, w)"
proof (cases "kevent_result a")
  case None
  then show ?thesis
    using stop[of STATUS_FAILURE] assms
    by (simp add: stops_react event_round_def bind_def seq_def add_status_def modify_def ret_def)
next
  case (Some eo)
  show ?thesis
  proof (cases eo)
    case None
    then have "\<not> is_timer (Kevent_wait, Some a)" using Some by (cases a) auto
    with None Some show ?thesis
      using go assms by (simp add: stops_react event_round_def bind_def ret_def)
  next
    case e: (Some e)
    then have a: "a = Event e" using Some by (cases a) (auto split: if_splits)
    show ?thesis
    proof (cases "react e")
      case (Stop f)
      then show ?thesis
        using stop[of f] assms a
        by (simp add: stops_react event_round_def bind_def seq_def add_status_def modify_def ret_def)
    next
      case Report_and_go
      then have "ev_filter e = EVFILT_TIMER" by (simp add: react_def split: if_splits)
      then show ?thesis
        using timer[OF a] assms Report_and_go by (simp add: event_round_def bind_def a)
    next
      case Go
      then have "\<not> is_timer (Kevent_wait, Some a)" by (auto simp: react_def a split: if_splits)
      then show ?thesis
        using go assms Go by (simp add: stops_react event_round_def bind_def ret_def a)
    qed
  qed
qed

text \<open>A round that reports the statistics.\<close>

lemma timer_round_since:
  assumes "running_since s u" and "answers u = Event e # as" and "ev_filter e = EVFILT_TIMER"
    and "seq print_stats (ret None) (u\<lparr>answers := as, history := history u @ [(Kevent_wait, Some (Event e))]\<rparr>) = (r, t)"
  shows "r = Waiting \<and> waits_since s t \<or> r = Done None \<and> running_since s t"
proof (cases as)
  case Nil
  have "goes_on (Kevent_wait, Some (Event e))" using assms(3) by (simp add: stops_react react_def)
  then show ?thesis
    using assms(1,4) Nil
    by (auto simp: print_stats_def seq_def bind_def waits_since_def running_since_def quiet_def)
next
  case (Cons b bs)
  let ?w = "u\<lparr>answers := as, history := history u @ [(Kevent_wait, Some (Event e))]\<rparr>"
  have e: "stops (Event e) = None" "is_timer (Kevent_wait, Some (Event e))"
    using assms(3) by (simp_all add: stops_react react_def)
  have b: "clock_ok b" "list_all clock_ok bs" using assms(1,2) Cons by (simp_all add: running_since_def)
  obtain g where g: "print_stats ?w = (Done (), ?w\<lparr>answers := bs, history := history ?w @
      (Read_clock_and_stats, Some b) # g\<rparr>)"
    "hcalls is_report g = (if is_clock (Read_clock_and_stats, Some b) then 1 else 0) \<and>
     hcalls is_clock g = 0 \<and> hcalls is_timer g = 0 \<and>
     hcalls (\<lambda>e. fst e = Read_clock_and_stats) g = 0 \<and> list_all goes_on g"
    using print_stats_run[of ?w b bs] Cons b by auto
  let ?v = "?w\<lparr>answers := bs, history := history ?w @ (Read_clock_and_stats, Some b) # g\<rparr>"
  have "(r, t) = (Done None, ?v)" using assms(4) unfolding seq_def bind_def g(1) by (simp add: ret_def)
  moreover have "quiet ((Kevent_wait, Some (Event e)) # (Read_clock_and_stats, Some b) # g)"
    using e g(2) by (simp add: quiet_def)
  then have "running_since s ?v" using running_quiet[OF assms(1), of ?v] b(2) by simp
  ultimately show ?thesis by simp
qed

lemma event_round_since:
  assumes "running_since s u" and "event_round u = (r, t)"
  shows "(r = Waiting \<and> waits_since s t) \<or> (r = Done None \<and> running_since s t) \<or>
    (r = Done (Some ()) \<and> stopped_since s t)"
proof (cases "answers u")
  case Nil
  then show ?thesis using assms
    by (auto simp: event_round_def bind_def waits_since_def running_since_def quiet_def)
next
  case (Cons a as)
  have ok: "list_all clock_ok as" using assms(1) Cons by (simp add: running_since_def)
  show ?thesis
  proof (cases rule: event_round_cases[OF Cons, case_names stop timer go])
    case (stop f)
    then show ?thesis using assms by (auto simp: stopped_since_def running_since_def)
  next
    case (timer e)
    then show ?thesis using timer_round_since[OF assms(1), of e as r t] Cons assms(2) by auto
  next
    case go
    let ?w = "u\<lparr>answers := as, history := history u @ [(Kevent_wait, Some a)]\<rparr>"
    have "quiet [(Kevent_wait, Some a)]" using go(1,2) by (simp add: quiet_def)
    then have "running_since s ?w" using running_quiet[OF assms(1), of ?w] ok by simp
    then show ?thesis using assms(2) go(3) by auto
  qed
qed

lemma run_until_termination_since:
  assumes run: "run_until_termination s = (r, t)" and ok: "list_all clock_ok (answers s)"
  shows "r = Waiting \<and> waits_since s t \<or> r = Done () \<and> stopped_since s t"
proof -
  have start: "running_since s s" using ok by (auto simp: running_since_def quiet_def)
  have step: "running_since s v" if "running_since s u" "event_round u = (Done None, v)" for u v
    using event_round_since[OF that] by auto
  have run': "repeat_until event_round s = (r, t)" using run by (simp add: run_until_termination_def)
  show ?thesis
  proof (cases r)
    case (Done x)
    obtain u where "running_since s u" "event_round u = (Done (Some x), t)"
      by (rule event_loop.loop_Done[where I = "running_since s", OF run'[unfolded Done] start])
         (blast intro: step)+
    from event_round_since[OF this] Done show ?thesis by auto
  next
    case (Exited c)
    obtain u where "running_since s u" "event_round u = (Exited c, t)"
      by (rule event_loop.loop_Exited[where I = "running_since s", OF run'[unfolded Exited] start])
         (blast intro: step)+
    from event_round_since[OF this] show ?thesis by auto
  next
    case Aborted
    obtain u where "running_since s u" "event_round u = (Aborted, t)"
      by (rule event_loop.loop_Aborted[where I = "running_since s", OF run'[unfolded Aborted] start])
         (blast intro: step)+
    from event_round_since[OF this] show ?thesis by auto
  next
    case Waiting
    obtain u where "running_since s u" "event_round u = (Waiting, t)"
      by (rule event_loop.loop_Waiting[where I = "running_since s", OF run'[unfolded Waiting] start])
         (blast intro: step)+
    from event_round_since[OF this] Waiting show ?thesis by auto
  qed
qed

text \<open>
  C27: The main loop ends at the first answer that must end it, and at no earlier one: a signal adds
  \<open>STATUS_STOPPED\<close> to the status, the shutdown event adds its flags, a failed wait adds
  \<open>STATUS_FAILURE\<close>.  Until then every timer event reads the clock and the counters once and is
  answered by one report.  It neither exits nor fails an assertion, and it still waits only when all
  answers were used and none of them was one that must end it.  Assumes the answers of the clock are
  times a report can print.
\<close>

theorem run_until_termination_stops:
  assumes "run_until_termination s = (r, t)" and "list_all clock_ok (answers s)"
  shows "(r = Waiting \<and> answers t = [] \<and> h_status t = h_status s \<and>
      (\<exists>g. history t = history s @ g \<and> list_all goes_on g)) \<or>
    (r = Done () \<and> (\<exists>g a f. history t = history s @ g @ [(Kevent_wait, Some a)] \<and>
      stops a = Some f \<and> h_status t = h_status s OR f \<and> list_all goes_on g \<and>
      hcalls is_timer g = hcalls (\<lambda>e. fst e = Read_clock_and_stats) g \<and>
      hcalls is_report g = hcalls is_clock g))"
  using run_until_termination_since[OF assms(1,2)]
  unfolding stopped_since_def quiet_def waits_since_def by blast

text \<open>A timer event, its report, then SIGTERM.\<close>

definition an_event :: "kfilter \<Rightarrow> int \<Rightarrow> 32 word \<Rightarrow> kevent" where
  "an_event flt i f = \<lparr>ev_ident = i, ev_filter = flt, ev_flags = EV_NONE, ev_fflags = f, ev_data = 0\<rparr>"

definition sample_events :: "hans list" where
  "sample_events = [Event (an_event EVFILT_TIMER STATS_TIMER 0), Now 0 sample_tm stats_zero stats_zero,
     Returns 0, Event (an_event EVFILT_SIGNAL SIGTERM 0)]"

lemma sample_events_ok: "list_all clock_ok sample_events"
  by (simp add: sample_events_def sample_tm_def tm_ok_def)

lemma sample_events_run: "\<exists>t. run_until_termination (helper_init sample_events) = (Done (), t)"
proof -
  have ok: "tm_ok sample_tm" by (simp add: sample_tm_def tm_ok_def)
  note line = report_stats_Done[OF ok, of 0, simplified]
  let ?s = "helper_init sample_events"
  have "\<exists>u. event_round ?s = (Done None, u) \<and>
      answers u = [Returns 0, Event (an_event EVFILT_SIGNAL SIGTERM 0)]"
    by (simp add: event_round_def bind_def seq_def ret_def react_def an_event_def sample_events_def
        helper_init_def print_stats_def line emit_def)
  then obtain u where u: "event_round ?s = (Done None, u)"
    "answers u = [Returns 0, Event (an_event EVFILT_SIGNAL SIGTERM 0)]" by blast
  have "\<exists>v. event_round u = (Done None, v) \<and> answers v = [Event (an_event EVFILT_SIGNAL SIGTERM 0)]"
    using u(2) by (simp add: event_round_def bind_def ret_def)
  then obtain v where v: "event_round u = (Done None, v)"
    "answers v = [Event (an_event EVFILT_SIGNAL SIGTERM 0)]" by blast
  have "\<exists>t. event_round v = (Done (Some ()), t)"
    using v(2) by (simp add: event_round_def bind_def seq_def ret_def react_def an_event_def
        add_status_def modify_def)
  then show ?thesis
    by (auto simp: run_until_termination_def event_loop.unfold_loop bind_def u(1) v(1) ret_def)
qed

theorem run_until_termination_stops_witness:
  "\<exists>t. run_until_termination (helper_init sample_events) = (Done (), t) \<and>
     (\<exists>g a. history t = g @ [(Kevent_wait, Some a)] \<and> stops a \<noteq> None)"
proof -
  obtain t where r: "run_until_termination (helper_init sample_events) = (Done (), t)"
    using sample_events_run by blast
  have "history (helper_init sample_events) = []" "list_all clock_ok (answers (helper_init sample_events))"
    using sample_events_ok by (simp_all add: helper_init_def)
  with run_until_termination_stops[OF r] r show ?thesis by auto
qed

subsection \<open>Setting up and waiting for a client\<close>

lemma must_be_zero_Done:
  "must_be_zero c s = (Done x, t) \<longleftrightarrow> (\<exists>a as. answers s = a # as \<and> retval a = 0 \<and>
     t = s\<lparr>answers := as, history := history s @ [(c, Some a)]\<rparr>)"
  by (auto simp: must_be_zero_def bind_Done sys_Done exit_with_def ret_def split: if_splits)

lemma must_be_zero_Exited:
  "must_be_zero c s = (Exited n, t) \<longleftrightarrow> (\<exists>a as. answers s = a # as \<and> retval a \<noteq> 0 \<and> n = 1 \<and>
     t = s\<lparr>answers := as, history := history s @ [(c, Some a)]\<rparr>)"
  by (auto simp: must_be_zero_def bind_Exited sys_Done exit_with_def ret_def split: if_splits)

lemma must_be_zero_not_Aborted [simp]: "must_be_zero c s \<noteq> (Aborted, t)"
  by (auto simp: must_be_zero_def bind_def sys_def ret_def exit_with_def split: list.splits)

text \<open>An answer on which the wait for a client goes on.\<close>

fun no_client :: "hcall \<times> hans option \<Rightarrow> bool" where
  "no_client (Kevent_wait, Some a) \<longleftrightarrow> (case kevent_result a of
     None \<Rightarrow> False
   | Some None \<Rightarrow> True
   | Some (Some e) \<Rightarrow> ev_filter e \<noteq> EVFILT_SIGNAL \<and> ev_filter e \<noteq> EVFILT_READ)"
| "no_client _ \<longleftrightarrow> False"

definition idle_since :: "helper \<Rightarrow> helper \<Rightarrow> bool" where
  "idle_since s u \<longleftrightarrow> (\<exists>g as. u = s\<lparr>answers := as, history := history s @ g\<rparr> \<and> list_all no_client g)"

definition left_wait :: "helper \<Rightarrow> hans \<Rightarrow> helper \<Rightarrow> bool" where
  "left_wait s a t \<longleftrightarrow> (\<exists>g as. t = s\<lparr>answers := as, history := history s @ g @ [(Kevent_wait, Some a)]\<rparr> \<and>
     list_all no_client g)"

lemma client_round_run:
  assumes "answers u = a # as"
  shows "client_round u = (let w = u\<lparr>answers := as, history := history u @ [(Kevent_wait, Some a)]\<rparr>
    in case kevent_result a of
      None \<Rightarrow> (Exited 1, w)
    | Some None \<Rightarrow> (Done None, w)
    | Some (Some e) \<Rightarrow> if ev_filter e = EVFILT_SIGNAL then (Exited 0, w)
        else if ev_filter e = EVFILT_READ then (Done (Some ()), w) else (Done None, w))"
  using assms by (simp add: client_round_def bind_def exit_with_def ret_def Let_def split: option.split)

lemma client_round_since:
  assumes "idle_since s u" and "client_round u = (r, t)"
  shows "r = Waiting \<or> (r = Done None \<and> idle_since s t) \<or>
    (\<exists>a. left_wait s a t \<and>
      (r = Done (Some ()) \<and> (\<exists>e. a = Event e \<and> ev_filter e = EVFILT_READ) \<or>
       r = Exited 0 \<and> (\<exists>e. a = Event e \<and> ev_filter e = EVFILT_SIGNAL) \<or>
       r = Exited 1 \<and> kevent_result a = None))"
proof (cases "answers u")
  case Nil
  then show ?thesis using assms(2) by (simp add: client_round_def bind_def)
next
  case (Cons a as)
  obtain g as0 where u: "u = s\<lparr>answers := as0, history := history s @ g\<rparr>" "list_all no_client g"
    using assms(1) by (auto simp: idle_since_def)
  let ?w = "u\<lparr>answers := as, history := history u @ [(Kevent_wait, Some a)]\<rparr>"
  have w: "?w = s\<lparr>answers := as, history := history s @ g @ [(Kevent_wait, Some a)]\<rparr>"
    using u by simp
  have lw: "left_wait s a ?w" using u(2) w unfolding left_wait_def by blast
  have idle: "idle_since s ?w" if "no_client (Kevent_wait, Some a)"
  proof -
    have "list_all no_client (g @ [(Kevent_wait, Some a)])" using u(2) that by simp
    then show ?thesis unfolding idle_since_def w by blast
  qed
  note run = client_round_run[OF Cons, unfolded assms(2)]
  show ?thesis
  proof (cases "kevent_result a")
    case None
    then show ?thesis using run lw by (auto simp: Let_def)
  next
    case (Some eo)
    show ?thesis
    proof (cases eo)
      case None
      then have "no_client (Kevent_wait, Some a)" using Some by simp
      with idle run Some None show ?thesis by (simp add: Let_def)
    next
      case e: (Some e)
      then have a: "a = Event e" using Some by (cases a) (auto split: if_splits)
      have "(r, t) = (if ev_filter e = EVFILT_SIGNAL then (Exited 0, ?w)
        else if ev_filter e = EVFILT_READ then (Done (Some ()), ?w) else (Done None, ?w))"
        using run Some e by (simp add: Let_def)
      moreover have "no_client (Kevent_wait, Some a)"
        if "ev_filter e \<noteq> EVFILT_SIGNAL" "ev_filter e \<noteq> EVFILT_READ"
        using that by (simp add: a)
      ultimately show ?thesis using lw idle a by (cases "ev_filter e") auto
    qed
  qed
qed

lemma client_loop_since:
  assumes run: "repeat_until client_round s = (r, t)"
  shows "r = Waiting \<or> (\<exists>a. left_wait s a t \<and>
      (r = Done () \<and> (\<exists>e. a = Event e \<and> ev_filter e = EVFILT_READ) \<or>
       r = Exited 0 \<and> (\<exists>e. a = Event e \<and> ev_filter e = EVFILT_SIGNAL) \<or>
       r = Exited 1 \<and> kevent_result a = None))"
proof -
  have "s = s\<lparr>answers := answers s, history := history s @ []\<rparr> \<and> list_all no_client []" by simp
  then have start: "idle_since s s" unfolding idle_since_def by blast
  have step: "idle_since s v" if "idle_since s u" "client_round u = (Done None, v)" for u v
    using client_round_since[OF that] by auto
  show ?thesis
  proof (cases r)
    case (Done x)
    obtain u where "idle_since s u" "client_round u = (Done (Some x), t)"
      by (rule client_loop.loop_Done[where I = "idle_since s", OF run[unfolded Done] start])
         (blast intro: step)+
    from client_round_since[OF this] Done show ?thesis by auto
  next
    case (Exited c)
    obtain u where "idle_since s u" "client_round u = (Exited c, t)"
      by (rule client_loop.loop_Exited[where I = "idle_since s", OF run[unfolded Exited] start])
         (blast intro: step)+
    from client_round_since[OF this] Exited show ?thesis by auto
  next
    case Aborted
    obtain u where "idle_since s u" "client_round u = (Aborted, t)"
      by (rule client_loop.loop_Aborted[where I = "idle_since s", OF run[unfolded Aborted] start])
         (blast intro: step)+
    from client_round_since[OF this] show ?thesis by auto
  qed simp
qed

text \<open>
  Waiting for a client: when it returns, the filter of the socket was added, no signal arrived and
  nothing was readable before the event that ended the wait, the filter was deleted again, and
  the rest of the state is untouched.
\<close>

lemma wait_for_client_Done:
  assumes "wait_for_client s = (Done (), t)" and "fd = opt_fd (h_options s)"
  obtains a g e b as where "t = s\<lparr>answers := as, history := history s @
      [(Kevent_change [fd_event fd EV_ADD], Some a)] @ g @
      [(Kevent_wait, Some (Event e)), (Kevent_change [fd_event fd EV_DELETE], Some b)]\<rparr>"
    and "list_all no_client g" and "ev_filter e = EVFILT_READ"
proof -
  obtain u v where add: "must_be_zero (Kevent_change [fd_event fd EV_ADD]) s = (Done (), u)"
    and loop: "repeat_until client_round u = (Done (), v)"
    and del: "must_be_zero (Kevent_change [fd_event fd EV_DELETE]) v = (Done (), t)"
    using assms by (auto simp: wait_for_client_def bind_Done seq_Done)
  obtain a1 as1 where u: "u = s\<lparr>answers := as1,
      history := history s @ [(Kevent_change [fd_event fd EV_ADD], Some a1)]\<rparr>"
    using add by (auto simp: must_be_zero_Done)
  obtain a where lw: "left_wait u a v" and e: "\<exists>e. a = Event e \<and> ev_filter e = EVFILT_READ"
    using client_loop_since[OF loop] by auto
  then obtain g as2 e where v: "v = u\<lparr>answers := as2, history := history u @ g @ [(Kevent_wait, Some (Event e))]\<rparr>"
    and g: "list_all no_client g" and rd: "ev_filter e = EVFILT_READ"
    by (auto simp: left_wait_def)
  obtain a3 as3 where t: "t = v\<lparr>answers := as3,
      history := history v @ [(Kevent_change [fd_event fd EV_DELETE], Some a3)]\<rparr>"
    using del by (auto simp: must_be_zero_Done)
  show thesis by (rule that[OF _ g rd]) (simp add: t v u)
qed

end
