(* ===== verification/Shutdown.thy ===== *)
theory Shutdown
  imports Events Vm_Forward
begin

text \<open>
  How the threads of vmnet-helper stop together.  A run of the VM thread (\<open>forward_from_vm\<close>) and a run
  of the main loop (\<open>run_until_termination\<close>) are put together: their calls are interleaved in any
  order, with signals and the stats timer in between, and the main thread's queue answers them as
  \<open>kqueue(2)\<close> documents.  A user event keeps its flags and stays triggered.
\<close>

unbundle bit_operations_syntax

section \<open>The event queue\<close>

definition NOTE_FFAND :: "32 word" where "NOTE_FFAND = 0x40000000"
definition NOTE_FFCTRLMASK :: "32 word" where "NOTE_FFCTRLMASK = 0xc0000000"

text \<open>Changing a registered user event: its flags and whether it is triggered.\<close>

definition user_touch :: "32 word \<Rightarrow> 32 word \<times> bool \<Rightarrow> 32 word \<times> bool" where
  "user_touch fflags u =
     (let new = fflags AND NOTE_FFLAGSMASK; ctrl = fflags AND NOTE_FFCTRLMASK
      in (if ctrl = NOTE_FFOR then fst u OR new
          else if ctrl = NOTE_FFAND then fst u AND new
          else if ctrl = NOTE_FFCTRLMASK then new
          else fst u,
          snd u \<or> fflags AND NOTE_TRIGGER \<noteq> 0))"

record queue =
  q_user :: "32 word \<times> bool"
  q_signals :: "int set"
  q_timer :: bool

text \<open>
  While the main loop runs the queue has the filters of \<open>setup_kq\<close> and of \<open>start_stats_timer\<close>, none for
  a descriptor.
\<close>

definition deliverable :: "queue \<Rightarrow> kevent \<Rightarrow> bool" where
  "deliverable q e \<longleftrightarrow> (case ev_filter e of
     EVFILT_SIGNAL \<Rightarrow> ev_ident e \<in> q_signals q
   | EVFILT_USER \<Rightarrow> ev_ident e = SHUTDOWN_EVENT \<and> snd (q_user q) \<and> ev_fflags e = fst (q_user q)
   | EVFILT_TIMER \<Rightarrow> ev_ident e = STATS_TIMER \<and> q_timer q
   | EVFILT_READ \<Rightarrow> False)"

definition delivered_from :: "kevent \<Rightarrow> queue \<Rightarrow> queue" where
  "delivered_from e q = (case ev_filter e of
     EVFILT_SIGNAL \<Rightarrow> q\<lparr>q_signals := q_signals q - {ev_ident e}\<rparr>
   | EVFILT_TIMER \<Rightarrow> q\<lparr>q_timer := False\<rparr>
   | _ \<Rightarrow> q)"

text \<open>What the kernel does to the registered user event for one call of the VM thread.\<close>

fun touched :: "vcall \<times> vans option \<Rightarrow> 32 word \<times> bool \<Rightarrow> 32 word \<times> bool" where
  "touched (Kevent_trigger k, Some Triggered) u =
     (if ev_filter k = EVFILT_USER \<and> ev_ident k = SHUTDOWN_EVENT then user_touch (ev_fflags k) u else u)"
| "touched _ u = u"

section \<open>The threads together\<close>

text \<open>
  An act is a call of one of the threads with its answer, or something from outside.  A wait may fail
  or return without an event at any time; an event it returns is in the queue (\<open>None\<close>: an answer the
  kernel does not give).
\<close>

datatype thread_act =
    Main_call hcall "hans option"
  | Vm_call vcall "vans option"
  | Signal_arrives int
  | Timer_fires

fun queue_next :: "queue \<Rightarrow> thread_act \<Rightarrow> queue option" where
  "queue_next q (Vm_call c a) = Some (q\<lparr>q_user := touched (c, a) (q_user q)\<rparr>)"
| "queue_next q (Main_call Kevent_wait (Some (Event e))) =
     (if deliverable q e then Some (delivered_from e q) else None)"
| "queue_next q (Main_call c a) = Some q"
| "queue_next q (Signal_arrives n) = Some (q\<lparr>q_signals := insert n (q_signals q)\<rparr>)"
| "queue_next q Timer_fires = Some (q\<lparr>q_timer := True\<rparr>)"

fun run_queue :: "queue \<Rightarrow> thread_act list \<Rightarrow> queue option" where
  "run_queue q [] = Some q"
| "run_queue q (x # xs) = Option.bind (queue_next q x) (\<lambda>q. run_queue q xs)"

fun main_calls :: "thread_act list \<Rightarrow> (hcall \<times> hans option) list" where
  "main_calls [] = []"
| "main_calls (Main_call c a # xs) = (c, a) # main_calls xs"
| "main_calls (_ # xs) = main_calls xs"

fun vm_calls :: "thread_act list \<Rightarrow> (vcall \<times> vans option) list" where
  "vm_calls [] = []"
| "vm_calls (Vm_call c a # xs) = (c, a) # vm_calls xs"
| "vm_calls (_ # xs) = vm_calls xs"

lemma vm_calls_append: "vm_calls (xs @ ys) = vm_calls xs @ vm_calls ys"
  by (induction xs rule: vm_calls.induct) simp_all

lemma run_queue_append: "run_queue q (xs @ ys) = Option.bind (run_queue q xs) (\<lambda>q. run_queue q ys)"
  by (induction xs arbitrary: q) (simp_all split: Option.bind_split)

lemma main_calls_in: "(c, a) \<in> set (main_calls xs) \<Longrightarrow> Main_call c a \<in> set xs"
  by (induction xs rule: main_calls.induct) auto

lemma vm_calls_in: "(c, a) \<in> set (vm_calls xs) \<Longrightarrow> Vm_call c a \<in> set xs"
  by (induction xs rule: vm_calls.induct) auto

text \<open>The user event is what the VM thread's calls made of it.\<close>

lemma next_user: "queue_next q x = Some q' \<Longrightarrow> q_user q' = fold touched (vm_calls [x]) (q_user q)"
  by (induction q x rule: queue_next.induct)
     (auto simp: delivered_from_def split: if_splits kfilter.splits)

lemma run_user: "run_queue q xs = Some q' \<Longrightarrow> q_user q' = fold touched (vm_calls xs) (q_user q)"
proof (induction xs arbitrary: q)
  case (Cons x xs)
  then obtain q1 where "queue_next q x = Some q1" "run_queue q1 xs = Some q'"
    by (auto split: Option.bind_splits)
  then show ?case using Cons.IH next_user vm_calls_append[of "[x]" xs] by simp
qed simp

text \<open>A pending signal arrived.\<close>

lemma next_signals:
  "queue_next q x = Some q' \<Longrightarrow> n \<in> q_signals q' \<Longrightarrow> n \<in> q_signals q \<or> x = Signal_arrives n"
  by (induction q x rule: queue_next.induct)
     (auto simp: delivered_from_def split: if_splits kfilter.splits)

lemma run_signals:
  "run_queue q xs = Some q' \<Longrightarrow> n \<in> q_signals q' \<Longrightarrow> n \<in> q_signals q \<or> Signal_arrives n \<in> set xs"
proof (induction xs arbitrary: q)
  case (Cons x xs)
  then show ?case by (auto split: Option.bind_splits dest: next_signals)
qed simp

section \<open>The calls of the VM thread\<close>

text \<open>The thread triggers the shutdown only with its last call, and it returns only when that worked.\<close>

fun no_trigger :: "vcall \<Rightarrow> bool" where
  "no_trigger (Kevent_trigger k) \<longleftrightarrow> False" | "no_trigger c \<longleftrightarrow> True"

definition silent_since :: "vm_thread \<Rightarrow> vm_thread \<Rightarrow> bool" where
  "silent_since v w \<longleftrightarrow> (\<exists>g. history w = history v @ g \<and> list_all (\<lambda>e. no_trigger (fst e)) g)"

definition triggered_since :: "vm_thread \<Rightarrow> vans \<Rightarrow> vm_thread \<Rightarrow> bool" where
  "triggered_since v a w \<longleftrightarrow> (\<exists>g f. (f = STATUS_FAILURE \<or> f = STATUS_STOPPED) \<and>
     history w = history v @ g @ [(Kevent_trigger (shutdown_event f), Some a)] \<and>
     list_all (\<lambda>e. no_trigger (fst e)) g)"

lemma silent_parts:
  "preserves (calls_in no_trigger) (read_from_vm bulk mps)" "preserves (calls_in no_trigger) (write_to_host count)"
  "preserves (calls_in no_trigger) (set_vm f)"
  unfolding read_from_vm_def read_one_def write_to_host_def set_vm_def
  by (auto intro!: calls_order.pres_bind calls_order.pres_seq calls_order.pres_ret calls_order.pres_gets
      calls_sys calls_modify split: vans.split)

lemma silent_triple:
  assumes "preserves (calls_in no_trigger) m" and "\<And>w. silent_since v w \<Longrightarrow> E w"
  shows "triple (silent_since v) m (\<lambda>_. silent_since v) E"
  unfolding triple_def
proof (intro allI impI)
  fix u r w assume "silent_since v u" and "m u = (r, w)"
  then have "silent_since v w"
    using preservesD[OF assms(1)] unfolding silent_since_def calls_in_def by fastforce
  then show "case r of Done x \<Rightarrow> silent_since v w | _ \<Rightarrow> E w" using assms(2) by (cases r) auto
qed

definition may_exit :: "vm_thread \<Rightarrow> vm_thread \<Rightarrow> bool" where
  "may_exit v w \<longleftrightarrow> silent_since v w \<or> (\<exists>a. triggered_since v a w)"

lemma trigger_triple:
  assumes "f = STATUS_FAILURE \<or> f = STATUS_STOPPED"
  shows "triple (silent_since v) (seq (trigger_shutdown f) (ret (Some ())))
    (\<lambda>x. if x = None then silent_since v else triggered_since v Triggered) (may_exit v)"
  unfolding triple_def
proof (intro allI impI)
  fix u r w assume s: "silent_since v u" and run: "seq (trigger_shutdown f) (ret (Some ())) u = (r, w)"
  show "case r of Done x \<Rightarrow> (if x = None then silent_since v else triggered_since v Triggered) w | _ \<Rightarrow> may_exit v w"
  proof (cases "answers u")
    case Nil
    then show ?thesis using run s by (auto simp: seq_def bind_def trigger_run may_exit_def)
  next
    case (Cons a as)
    let ?w = "u\<lparr>answers := as, history := history u @ [(Kevent_trigger (shutdown_event f), Some a)]\<rparr>"
    have t: "triggered_since v a ?w" using s assms by (auto simp: silent_since_def triggered_since_def)
    have "(r, w) = (if a = Triggered then (Done (Some ()), ?w) else (Exited 1, ?w))"
      using run Cons by (cases "a = Triggered") (simp_all add: seq_def bind_def trigger_run ret_def)
    then show ?thesis using t by (auto simp: may_exit_def split: if_splits)
  qed
qed

lemma round_triple:
  "triple (silent_since v) (forward_round bulk mps)
    (\<lambda>x. if x = None then silent_since v else triggered_since v Triggered) (may_exit v)"
  unfolding forward_round_def
proof (rule triple_bind[OF silent_triple[OF silent_parts(1)]])
  fix count
  have go: "triple (silent_since v) (seq (set_vm (count_forwarded count)) (ret None))
      (\<lambda>x. if x = None then silent_since v else triggered_since v Triggered) (may_exit v)"
    by (rule triple_seq[OF silent_triple[OF silent_parts(3)]]) (auto intro!: triple_ret simp: may_exit_def)
  have "triple (silent_since v) (bind (write_to_host count) (\<lambda>failed.
        if failed \<noteq> 0 then seq (trigger_shutdown STATUS_FAILURE) (ret (Some ()))
        else seq (set_vm (count_forwarded count)) (ret None)))
      (\<lambda>x. if x = None then silent_since v else triggered_since v Triggered) (may_exit v)"
    by (rule triple_bind[OF silent_triple[OF silent_parts(2)]]) (auto intro: go trigger_triple simp: may_exit_def)
  then show "triple (silent_since v)
      (if count = -1 then seq (trigger_shutdown STATUS_FAILURE) (ret (Some ()))
       else if count = 0 then seq (trigger_shutdown STATUS_STOPPED) (ret (Some ()))
       else bind (write_to_host count) (\<lambda>failed.
         if failed \<noteq> 0 then seq (trigger_shutdown STATUS_FAILURE) (ret (Some ()))
         else seq (set_vm (count_forwarded count)) (ret None)))
      (\<lambda>x. if x = None then silent_since v else triggered_since v Triggered) (may_exit v)"
    by (auto intro: trigger_triple)
qed (simp add: may_exit_def)

lemma forward_from_vm_triggers:
  assumes "forward_from_vm bulk mps v = (r, w)"
  shows "if r = Done () then triggered_since v Triggered w else may_exit v w"
proof -
  have run: "repeat_until (forward_round bulk mps) v = (r, w)" using assms by (simp add: forward_from_vm_def)
  have start: "silent_since v v" by (simp add: silent_since_def)
  have round: "case x of Done y \<Rightarrow> (if y = None then silent_since v else triggered_since v Triggered) t
      | _ \<Rightarrow> may_exit v t" if "silent_since v u" "forward_round bulk mps u = (x, t)" for u x t
    using round_triple[of v bulk mps] that unfolding triple_def by blast
  have step: "silent_since v t" if "silent_since v u" "forward_round bulk mps u = (Done None, t)" for u t
    using round[OF that] by simp
  show ?thesis
  proof (cases r)
    case (Done x)
    obtain u where "silent_since v u" "forward_round bulk mps u = (Done (Some x), w)"
      by (rule vm_loop.loop_Done[where I = "silent_since v", OF run[unfolded Done] start]) (blast intro: step)+
    from round[OF this] Done show ?thesis by simp
  next
    case (Exited c)
    obtain u where "silent_since v u" "forward_round bulk mps u = (Exited c, w)"
      by (rule vm_loop.loop_Exited[where I = "silent_since v", OF run[unfolded Exited] start]) (blast intro: step)+
    from round[OF this] Exited show ?thesis by simp
  next
    case Aborted
    obtain u where "silent_since v u" "forward_round bulk mps u = (Aborted, w)"
      by (rule vm_loop.loop_Aborted[where I = "silent_since v", OF run[unfolded Aborted] start]) (blast intro: step)+
    from round[OF this] Aborted show ?thesis by simp
  next
    case Waiting
    obtain u where "silent_since v u" "forward_round bulk mps u = (Waiting, w)"
      by (rule vm_loop.loop_Waiting[where I = "silent_since v", OF run[unfolded Waiting] start]) (blast intro: step)+
    from round[OF this] Waiting show ?thesis by simp
  qed
qed

section \<open>The user event after a run of the thread\<close>

lemma silent_touch: "list_all (\<lambda>e. no_trigger (fst e)) g \<Longrightarrow> fold touched g u = u"
proof (induction g arbitrary: u)
  case (Cons e g)
  then show ?case by (cases "(e, u)" rule: touched.cases) auto
qed simp

lemma shutdown_touch:
  "f = STATUS_FAILURE \<or> f = STATUS_STOPPED \<Longrightarrow>
   touched (Kevent_trigger (shutdown_event f), Some Triggered) (0, b) = (f, True)"
  by (auto simp: user_touch_def shutdown_event_def event_consts NOTE_FFAND_def NOTE_FFCTRLMASK_def Let_def)

lemma failed_touch: "a \<noteq> Triggered \<Longrightarrow> touched (c, Some a) u = u"
  by (cases "((c, Some a), u)" rule: touched.cases) auto

text \<open>Wherever a triggered user event is seen, the thread triggered the shutdown with its flags.\<close>

lemma user_triggered:
  assumes "may_exit v w" and "history w = history v @ g @ h"
    and "fold touched g (0, False) = (f, True)"
  shows "(f = STATUS_FAILURE \<or> f = STATUS_STOPPED) \<and>
    (Kevent_trigger (shutdown_event f), Some Triggered) \<in> set g"
proof -
  have loud: "\<not> list_all (\<lambda>e. no_trigger (fst e)) g" using silent_touch assms(3) by fastforce
  then have "\<not> silent_since v w" using assms(2) by (auto simp: silent_since_def)
  then obtain a k f' where k: "g @ h = k @ [(Kevent_trigger (shutdown_event f'), Some a)]"
    and f': "f' = STATUS_FAILURE \<or> f' = STATUS_STOPPED" and quiet: "list_all (\<lambda>e. no_trigger (fst e)) k"
    using assms(1,2) by (auto simp: may_exit_def triggered_since_def)
  have g: "g = k @ [(Kevent_trigger (shutdown_event f'), Some a)]"
  proof (cases h rule: rev_cases)
    case Nil
    then show ?thesis using k by simp
  next
    case (snoc h' e)
    then have "g @ h' = k" using k by simp
    then show ?thesis using loud quiet by auto
  qed
  have "a = Triggered"
  proof (rule ccontr)
    assume "a \<noteq> Triggered"
    then show False using assms(3) by (simp add: g silent_touch[OF quiet] failed_touch del: touched.simps)
  qed
  then have "f' = f" using assms(3) shutdown_touch[OF f'] by (simp add: g silent_touch[OF quiet] del: touched.simps)
  with g f' \<open>a = Triggered\<close> show ?thesis by simp
qed

section \<open>Properties\<close>

lemma user_event_stops:
  assumes "answers u = Event e # as" and "ev_filter e = EVFILT_USER"
  shows "run_until_termination u = (Done (), u\<lparr>answers := as, history := history u @ [(Kevent_wait, Some (Event e))],
    h_status := h_status u OR ev_fflags e\<rparr>)"
proof -
  have "event_round u = (Done (Some ()), u\<lparr>answers := as, history := history u @ [(Kevent_wait, Some (Event e))],
      h_status := h_status u OR ev_fflags e\<rparr>)"
    using assms
    by (simp add: event_round_def bind_def seq_def react_def add_status_def modify_def ret_def)
  then show ?thesis by (simp add: run_until_termination_def event_loop.unfold_loop bind_def ret_def)
qed

text \<open>
  C10: No shutdown is lost: when \<open>forward_from_vm\<close> has returned, in any interleaving with the main loop,
  with signals and with the timer, it has triggered the shutdown, and the event is in the queue with
  the status it gave; so the kernel can give it to the main loop at any wait, and a loop that is given
  it stops there and adds this status.  Assumes the user event was not triggered before the thread
  started.
\<close>

theorem shutdown_not_lost:
  assumes "forward_from_vm bulk mps v = (Done (), v')" and "history v' = history v @ vm_calls acts"
    and "run_queue q0 acts = Some q" and "q_user q0 = (0, False)"
  shows "\<exists>f e. (f = STATUS_FAILURE \<or> f = STATUS_STOPPED) \<and>
    last (vm_calls acts) = (Kevent_trigger (shutdown_event f), Some Triggered) \<and>
    ev_ident e = SHUTDOWN_EVENT \<and> ev_filter e = EVFILT_USER \<and> ev_fflags e = f \<and>
    queue_next q (Main_call Kevent_wait (Some (Event e))) = Some q \<and>
    (\<forall>u. answers u = [Event e] \<longrightarrow> run_until_termination u =
       (Done (), u\<lparr>answers := [], history := history u @ [(Kevent_wait, Some (Event e))],
          h_status := h_status u OR f\<rparr>))"
proof -
  obtain g f where f: "f = STATUS_FAILURE \<or> f = STATUS_STOPPED"
    and g: "vm_calls acts = g @ [(Kevent_trigger (shutdown_event f), Some Triggered)]"
    and quiet: "list_all (\<lambda>e. no_trigger (fst e)) g"
    using forward_from_vm_triggers[OF assms(1)] assms(2) by (auto simp: triggered_since_def)
  have user: "q_user q = (f, True)"
    using run_user[OF assms(3)] shutdown_touch[OF f] by (simp add: g assms(4) silent_touch[OF quiet] del: touched.simps)
  let ?e = "an_event EVFILT_USER SHUTDOWN_EVENT f"
  have e: "ev_filter ?e = EVFILT_USER" "ev_fflags ?e = f" "ev_ident ?e = SHUTDOWN_EVENT"
    by (simp_all add: an_event_def)
  have "queue_next q (Main_call Kevent_wait (Some (Event ?e))) = Some q"
    by (simp add: deliverable_def delivered_from_def e user)
  then show ?thesis
    using f g e user_event_stops[of _ ?e "[]"] by (intro exI[of _ f] exI[of _ ?e]) simp
qed

text \<open>
  The example: the main loop takes a timer event and reports, the VM closes its socket, the thread
  triggers the shutdown and returns.
\<close>

definition closed_vm :: vm_thread where
  "closed_vm = sample_vm\<lparr>answers := [Datagrams [], Triggered]\<rparr>"

definition closed_acts :: "thread_act list" where
  "closed_acts = [Timer_fires, Vm_call (Recvmsg_x 16) (Some (Datagrams [])),
     Main_call Kevent_wait (Some (Event (an_event EVFILT_TIMER STATS_TIMER 0))),
     Vm_call (Kevent_trigger (shutdown_event STATUS_STOPPED)) (Some Triggered)]"

definition fresh_queue :: queue where
  "fresh_queue = \<lparr>q_user = (0, False), q_signals = {}, q_timer = False\<rparr>"

lemma closed_vm_run:
  "\<exists>t. forward_from_vm True 65536 closed_vm = (Done (), t) \<and> history t = history closed_vm @ vm_calls closed_acts"
proof -
  have a: "answers closed_vm = Datagrams [] # Triggered # []" by (simp add: closed_vm_def)
  have m: "max_packet_count (vm closed_vm) = 16" "history closed_vm = []"
    by (simp_all add: closed_vm_def sample_vm_def vm_taking_def bind_buffers_def)
  obtain u where "forward_round True 65536 closed_vm = (Done (Some ()), u)"
    "history u = history closed_vm @ [(Recvmsg_x (max_packet_count (vm closed_vm)), Some (Datagrams [])),
       (Kevent_trigger (shutdown_event STATUS_STOPPED), Some Triggered)]"
    using forward_round_closed[OF a] by blast
  then show ?thesis
    by (simp add: forward_from_vm_def vm_loop.unfold_loop bind_def ret_def m closed_acts_def)
qed

lemma closed_queue: "\<exists>q. run_queue fresh_queue closed_acts = Some q"
  by (simp add: closed_acts_def fresh_queue_def deliverable_def an_event_def)

theorem shutdown_not_lost_witness:
  "\<exists>q e. run_queue fresh_queue closed_acts = Some q \<and> ev_fflags e = STATUS_STOPPED \<and>
     queue_next q (Main_call Kevent_wait (Some (Event e))) = Some q"
proof -
  obtain t where r: "forward_from_vm True 65536 closed_vm = (Done (), t)"
    and h: "history t = history closed_vm @ vm_calls closed_acts" using closed_vm_run by blast
  obtain q where q: "run_queue fresh_queue closed_acts = Some q" using closed_queue by blast
  have "q_user fresh_queue = (0, False)" by (simp add: fresh_queue_def)
  from shutdown_not_lost[OF r h q this] obtain f e where f: "f = STATUS_FAILURE \<or> f = STATUS_STOPPED"
    and l: "last (vm_calls closed_acts) = (Kevent_trigger (shutdown_event f), Some Triggered)"
    and e: "ev_fflags e = f" "queue_next q (Main_call Kevent_wait (Some (Event e))) = Some q"
    by blast
  have "f = STATUS_STOPPED" using f l by (auto simp: closed_acts_def shutdown_event_def event_consts)
  with q e show ?thesis by blast
qed

text \<open>
  C28: Why the main loop stopped, over any interleaving with the VM thread: with \<open>STATUS_STOPPED\<close>, and
  so exit status 0, only when a signal arrived or the thread found its socket closed and triggered
  the shutdown with that status; with \<open>STATUS_FAILURE\<close>, and so exit status 1, only when a wait failed
  or the thread triggered the shutdown with a failure.  It stops with no other status.
\<close>

theorem shutdown_status:
  assumes "forward_from_vm bulk mps v = (rv, v')" and "history v' = history v @ vm_calls acts"
    and "run_until_termination s = (Done (), s')" and "history s' = history s @ main_calls acts"
    and "run_queue q0 acts = Some q" and "q_user q0 = (0, False)" and "q_signals q0 = {}"
    and "h_status s = 0" and "list_all clock_ok (answers s)"
  shows "(h_status s' = STATUS_STOPPED \<and> exit_status (h_status s') = EXIT_SUCCESS \<and>
      ((\<exists>n. Signal_arrives n \<in> set acts) \<or>
       Vm_call (Kevent_trigger (shutdown_event STATUS_STOPPED)) (Some Triggered) \<in> set acts)) \<or>
    (h_status s' = STATUS_FAILURE \<and> exit_status (h_status s') = EXIT_FAILURE \<and>
      ((\<exists>a. Main_call Kevent_wait (Some a) \<in> set acts \<and> kevent_result a = None) \<or>
       Vm_call (Kevent_trigger (shutdown_event STATUS_FAILURE)) (Some Triggered) \<in> set acts))"
proof -
  obtain g a f where g: "main_calls acts = g @ [(Kevent_wait, Some a)]" and a: "stops a = Some f" and st: "h_status s' = f"
    using run_until_termination_since[OF assms(3,9)] assms(4,8) by (auto simp: stopped_since_def)
  have wait: "Main_call Kevent_wait (Some a) \<in> set acts" by (rule main_calls_in) (simp add: g)
  then obtain xs ys where acts: "acts = xs @ Main_call Kevent_wait (Some a) # ys" by (auto dest: split_list)
  obtain q1 where q1: "run_queue q0 xs = Some q1" "queue_next q1 (Main_call Kevent_wait (Some a)) \<noteq> None"
    using assms(5) by (auto simp: acts run_queue_append split: Option.bind_splits)
  have ends: "may_exit v v'"
    using forward_from_vm_triggers[OF assms(1)] by (auto simp: may_exit_def split: if_splits)
  have calls: "history v' = history v @ vm_calls xs @ vm_calls ys" using assms(2) by (simp add: acts vm_calls_append)
  have code: "exit_status STATUS_STOPPED = EXIT_SUCCESS" "exit_status STATUS_FAILURE = EXIT_FAILURE"
    by (simp_all add: exit_status_def event_consts)
  show ?thesis
  proof (cases "kevent_result a")
    case None
    then have "f = STATUS_FAILURE" using a by (simp add: stops_react)
    with None wait st code show ?thesis by auto
  next
    case (Some eo)
    then obtain e where e: "a = Event e" using a by (cases a) (auto simp: stops_react split: if_splits)
    with q1(2) have d: "deliverable q1 e" by (simp split: if_splits)
    show ?thesis
    proof (cases "ev_filter e")
      case EVFILT_SIGNAL
      then have "Signal_arrives (ev_ident e) \<in> set acts"
        using run_signals[OF q1(1), of "ev_ident e"] d assms(7) by (auto simp: deliverable_def acts)
      moreover have "f = STATUS_STOPPED" using a e EVFILT_SIGNAL by (simp add: stops.simps)
      ultimately show ?thesis using st code by auto
    next
      case EVFILT_USER
      then have "f = ev_fflags e" "q_user q1 = (ev_fflags e, True)"
        using a e d by (auto simp: stops.simps deliverable_def prod_eq_iff)
      then have "fold touched (vm_calls xs) (0, False) = (f, True)" using run_user[OF q1(1)] assms(6) by simp
      from user_triggered[OF ends calls this] have f: "f = STATUS_FAILURE \<or> f = STATUS_STOPPED"
        and "Vm_call (Kevent_trigger (shutdown_event f)) (Some Triggered) \<in> set acts"
        by (auto simp: acts dest: vm_calls_in)
      then show ?thesis using st code by auto
    qed (use a e d in \<open>simp_all add: stops.simps deliverable_def\<close>)
  qed
qed

text \<open>The example goes on: the main loop takes the event and stops.\<close>

definition closed_main :: helper where
  "closed_main = helper_init [Event (an_event EVFILT_TIMER STATS_TIMER 0), Now 0 sample_tm stats_zero stats_zero,
     Event (an_event EVFILT_USER SHUTDOWN_EVENT STATUS_STOPPED)]"

lemma closed_main_run:
  "\<exists>t line. run_until_termination closed_main = (Done (), t) \<and> history t =
     [(Kevent_wait, Some (Event (an_event EVFILT_TIMER STATS_TIMER 0))),
      (Read_clock_and_stats, Some (Now 0 sample_tm stats_zero stats_zero)), (Report line, None),
      (Kevent_wait, Some (Event (an_event EVFILT_USER SHUTDOWN_EVENT STATUS_STOPPED)))]"
proof -
  have ok: "tm_ok sample_tm" by (simp add: sample_tm_def tm_ok_def)
  note line = report_stats_Done[OF ok, of 0, simplified]
  let ?e = "an_event EVFILT_USER SHUTDOWN_EVENT STATUS_STOPPED"
  have "\<exists>u line. event_round closed_main = (Done None, u) \<and> answers u = [Event ?e] \<and> history u =
      [(Kevent_wait, Some (Event (an_event EVFILT_TIMER STATS_TIMER 0))),
       (Read_clock_and_stats, Some (Now 0 sample_tm stats_zero stats_zero)), (Report line, None)]"
    by (simp add: event_round_def bind_def seq_def ret_def react_def an_event_def closed_main_def
        helper_init_def print_stats_def line emit_def)
  then obtain u l where u: "event_round closed_main = (Done None, u)" "answers u = [Event ?e]"
    and h: "history u = [(Kevent_wait, Some (Event (an_event EVFILT_TIMER STATS_TIMER 0))),
       (Read_clock_and_stats, Some (Now 0 sample_tm stats_zero stats_zero)), (Report l, None)]" by blast
  have "run_until_termination closed_main = run_until_termination u"
    by (simp add: run_until_termination_def event_loop.unfold_loop[of closed_main] bind_def u(1))
  then show ?thesis
    using user_event_stops[OF u(2)] h by (simp add: an_event_def)
qed

theorem shutdown_status_witness:
  "\<exists>t acts q. run_until_termination closed_main = (Done (), t) \<and> history t = main_calls acts \<and>
     run_queue fresh_queue acts = Some q \<and> h_status t = STATUS_STOPPED"
proof -
  obtain v where v: "forward_from_vm True 65536 closed_vm = (Done (), v)"
    and hv: "history v = history closed_vm @ vm_calls closed_acts" using closed_vm_run by blast
  obtain t line where t: "run_until_termination closed_main = (Done (), t)" and ht: "history t =
     [(Kevent_wait, Some (Event (an_event EVFILT_TIMER STATS_TIMER 0))),
      (Read_clock_and_stats, Some (Now 0 sample_tm stats_zero stats_zero)), (Report line, None),
      (Kevent_wait, Some (Event (an_event EVFILT_USER SHUTDOWN_EVENT STATUS_STOPPED)))]"
    using closed_main_run by blast
  let ?acts = "closed_acts @ [Main_call Read_clock_and_stats (Some (Now 0 sample_tm stats_zero stats_zero)),
    Main_call (Report line) None,
    Main_call Kevent_wait (Some (Event (an_event EVFILT_USER SHUTDOWN_EVENT STATUS_STOPPED)))]"
  have v': "history v = history closed_vm @ vm_calls ?acts" using hv by (simp add: vm_calls_append)
  have t': "history t = history closed_main @ main_calls ?acts"
    by (simp add: ht closed_acts_def closed_main_def helper_init_def)
  have "fold touched (vm_calls closed_acts) (0, False) = (STATUS_STOPPED, True)"
    using shutdown_touch[of STATUS_STOPPED] by (simp add: closed_acts_def)
  moreover obtain q1 where q1: "run_queue fresh_queue closed_acts = Some q1" using closed_queue by blast
  ultimately have "q_user q1 = (STATUS_STOPPED, True)" using run_user[OF q1] by (simp add: fresh_queue_def)
  then obtain q where q: "run_queue fresh_queue ?acts = Some q"
    using q1 by (simp add: run_queue_append deliverable_def an_event_def)
  have f: "q_user fresh_queue = (0, False)" "q_signals fresh_queue = {}" by (simp_all add: fresh_queue_def)
  have m: "h_status closed_main = 0" "list_all clock_ok (answers closed_main)" "history closed_main = []"
    by (simp_all add: closed_main_def helper_init_def sample_tm_def tm_ok_def)
  have "\<not> Vm_call (Kevent_trigger (shutdown_event STATUS_FAILURE)) (Some Triggered) \<in> set ?acts"
    by (simp add: closed_acts_def shutdown_event_def event_consts)
  then have "h_status t = STATUS_STOPPED"
    using shutdown_status[OF v v' t t' q f m(1,2)] by (auto simp: closed_acts_def)
  with t t' q m(3) show ?thesis by (metis append_Nil)
qed

end
