(* ===== verification/Interface.thy ===== *)
theory Interface
  imports Events
begin

text \<open>
  Starting and stopping the vmnet interface (\<open>programs/helper.c\<close>), with the options of the command
  line or with a network of vmnet-broker, and the JSON description of the interface on stdout.

  An XPC dictionary is the list of the entries set, in order.  The answer \<open>Started b st param\<close> to a
  start call is: the interface returned (NULL when not \<open>b\<close>), and the arguments of the completion
  handler; the code waits for the handler before it goes on.
\<close>

section \<open>The JSON description\<close>

definition hex_digit :: "nat \<Rightarrow> char" where
  "hex_digit n = (if n < 10 then digit_char n else char_of (n + 55))"

definition hex2 :: "8 word \<Rightarrow> string" where
  "hex2 b = [hex_digit (unat b div 16), hex_digit (unat b mod 16)]"

text \<open>\<open>uuid_unparse\<close>.\<close>

definition uuid_unparse :: "uuid \<Rightarrow> string" where
  "uuid_unparse u = concat (map (\<lambda>i. hex2 (u ! i) @ (if i \<in> {3, 5, 7, 9} then ''-'' else ''''))
     [0..<16])"

definition quoted :: "string \<Rightarrow> string" where
  "quoted s = CHR 0x22 # s @ [CHR 0x22]"

text \<open>\<open>print_item\<close>, on the count and what was printed.\<close>

definition print_item :: "string \<Rightarrow> int \<times> string \<Rightarrow> int \<times> string" where
  "print_item item co = (fst co + 1, snd co @ (if fst co > 0 then '','' else '''') @ item)"

text \<open>The block applied to each entry; other types print nothing.\<close>

definition print_entry :: "string \<times> xpc \<Rightarrow> int \<times> string \<Rightarrow> int \<times> string" where
  "print_entry kv co = (case kv of (k, v) \<Rightarrow>
     (case v of
        XPC_UINT64 n \<Rightarrow> print_item (quoted k @ '':'' @ fmt_llu n) co
      | XPC_INT64 n \<Rightarrow> print_item (quoted k @ '':'' @ fmt_d (sint n)) co
      | XPC_STRING s \<Rightarrow> print_item (quoted k @ '':'' @ quoted s) co
      | XPC_UUID u \<Rightarrow> print_item (quoted k @ '':'' @ quoted (uuid_unparse u)) co
      | _ \<Rightarrow> co))"

definition print_network :: "network \<Rightarrow> int \<times> string \<Rightarrow> int \<times> string" where
  "print_network net co =
     print_item (quoted ''net_ipv6_prefix_len'' @ '':'' @ fmt_d (uint (prefix_len net)))
       (print_item (quoted ''net_ipv6_prefix'' @ '':'' @ quoted (ipv6_prefix net))
         (print_item (quoted ''net_ipv4_mask'' @ '':'' @ quoted (mask_str net))
           (print_item (quoted ''net_ipv4_subnet'' @ '':'' @ quoted (subnet net)) co)))"

definition interface_info :: "xpc_dict \<Rightarrow> network option \<Rightarrow> string" where
  "interface_info param net =
     (let co = fold print_entry param (0, ''{'');
          co = (case net of None \<Rightarrow> co | Some n \<Rightarrow> print_network n co)
      in snd co @ ''}'' @ [CHR 0x0A])"

definition write_interface_info :: "xpc_dict \<Rightarrow> network option \<Rightarrow> (helper, unit) prog" where
  "write_interface_info param net = emit (Stdout (interface_info param net))"

section \<open>Starting with options\<close>

text \<open>The numbers of \<open>operating_modes_t\<close> in vmnet's header; no mode is 0.\<close>

fun mode_number :: "operating_mode option \<Rightarrow> 64 word" where
  "mode_number (Some VMNET_HOST_MODE) = 1000"
| "mode_number (Some VMNET_SHARED_MODE) = 1001"
| "mode_number (Some VMNET_BRIDGED_MODE) = 1002"
| "mode_number None = 0"

text \<open>\<open>xpc_dictionary_set_string\<close>, which needs a string: NULL is \<open>None\<close>, the process crashes.\<close>

definition set_string :: "string \<Rightarrow> string option \<Rightarrow> xpc_dict \<Rightarrow> xpc_dict option" where
  "set_string key v d = map_option (\<lambda>s. d @ [(key, XPC_STRING s)]) v"

definition set_addresses :: "options \<Rightarrow> xpc_dict \<Rightarrow> xpc_dict option" where
  "set_addresses p d =
     (if opt_start_address p = None then Some d
      else Option.bind (set_string ''vmnet_start_address'' (opt_start_address p) d) (\<lambda>d.
           Option.bind (set_string ''vmnet_end_address'' (opt_end_address p) d) (\<lambda>d.
           set_string ''vmnet_subnet_mask'' (opt_subnet_mask p) d)))"

text \<open>The interface description; \<open>None\<close>: a failed assertion or a NULL string.\<close>

definition interface_desc :: "options \<Rightarrow> xpc_dict option" where
  "interface_desc p =
     (let d = (if uuid_is_null (opt_interface_id p) then []
               else [(''vmnet_interface_id'', XPC_UUID (opt_interface_id p))]) @
              [(''vmnet_operation_mode'', XPC_UINT64 (mode_number (opt_operation_mode p)))]
      in map_option (\<lambda>d. d @ [(''vmnet_enable_tso'', XPC_BOOL (opt_enable_tso p)),
             (''vmnet_enable_checksum_offload'', XPC_BOOL (opt_enable_checksum_offload p))])
           (case opt_operation_mode p of
              Some VMNET_BRIDGED_MODE \<Rightarrow>
                set_string ''vmnet_shared_interface_name'' (opt_shared_interface p) d
            | None \<Rightarrow> None
            | Some _ \<Rightarrow>
                map_option (\<lambda>d. d @ [(''vmnet_enable_isolation'', XPC_BOOL (opt_enable_isolation p))])
                  (set_addresses p d)))"

definition get_uint64 :: "string \<Rightarrow> xpc_dict \<Rightarrow> 64 word" where
  "get_uint64 key d = (case map_of d key of Some (XPC_UINT64 n) \<Rightarrow> n | _ \<Rightarrow> 0)"

text \<open>The completion handler of a start call, and the wait for it.\<close>

definition started :: "network option \<Rightarrow> hans \<Rightarrow> (helper, unit) prog" where
  "started net a =
     (case a of
        Started ref status param \<Rightarrow>
          if status \<noteq> VMNET_SUCCESS then exit_with EXIT_FAILURE
          else seq (write_interface_info param net)
                   (modify (\<lambda>s. s\<lparr>h_interface := ref,
                      h_max_packet_size := get_uint64 ''vmnet_max_packet_size'' param\<rparr>))
      | _ \<Rightarrow> exit_with EXIT_FAILURE)"

text \<open>
  The debug message before that: the values of its \<open>%s\<close>.  The switch has no default, so without a
  mode there is no message.  A NULL string is \<open>None\<close>; C leaves printing it undefined, macOS prints
  \<open>(null)\<close> and goes on.
\<close>

definition interface_id_text :: "options \<Rightarrow> string" where
  "interface_id_text p =
     (if uuid_is_null (opt_interface_id p) then ''(unset)'' else uuid_unparse (opt_interface_id p))"

definition start_message :: "options \<Rightarrow> string option list option" where
  "start_message p =
     (case opt_operation_mode p of
        Some VMNET_BRIDGED_MODE \<Rightarrow>
          Some [Some (mode_name (opt_operation_mode p)), Some (interface_id_text p),
            Some (bool_str (opt_enable_tso p)), Some (bool_str (opt_enable_checksum_offload p)),
            opt_shared_interface p]
      | Some _ \<Rightarrow>
          Some [Some (mode_name (opt_operation_mode p)), Some (interface_id_text p),
            opt_start_address p, opt_end_address p, opt_subnet_mask p,
            Some (bool_str (opt_enable_tso p)), Some (bool_str (opt_enable_checksum_offload p)),
            Some (bool_str (opt_enable_isolation p))]
      | None \<Rightarrow> None)"

definition debug_start :: "(helper, unit) prog" where
  "debug_start =
     bind (gets h_verbose) (\<lambda>verbose.
     bind (gets (\<lambda>s. start_message (h_options s))) (\<lambda>message.
       case message of
         Some values \<Rightarrow> whenp verbose (emit (Debugf values))
       | None \<Rightarrow> ret ()))"

definition start_interface_with_options :: "(helper, unit) prog" where
  "start_interface_with_options =
     seq debug_start
    (bind (gets (\<lambda>s. interface_desc (h_options s))) (\<lambda>desc.
       case desc of
         None \<Rightarrow> abort_prog
       | Some d \<Rightarrow> bind (sys (Vmnet_start_interface d)) (started None)))"

section \<open>Starting with a network\<close>

text \<open>
  The network's addresses as text.  An answer of another shape cannot occur; it would leave the
  struct unset.
\<close>

definition network_from_ref :: "(helper, network) prog" where
  "network_from_ref =
     bind (sys Vmnet_network_info) (\<lambda>a.
       ret (case a of
              Network_info net \<Rightarrow> net
            | _ \<Rightarrow> \<lparr>subnet = [], mask_str = [], ipv6_prefix = [], prefix_len = 0\<rparr>))"

text \<open>
  A broker's answer is a serialization (\<open>None\<close> for NULL) and a status.  \<open>Release_serialization\<close> is
  the \<open>xpc_release\<close> after the network was created from it.
\<close>

definition acquire_network_from_broker :: "string \<Rightarrow> (helper, unit) prog" where
  "acquire_network_from_broker network_name =
     bind (sys (Broker_acquire_network network_name)) (\<lambda>a.
       case a of
         Acquired (Some serialization) status \<Rightarrow>
           bind (sys (Vmnet_network_create serialization)) (\<lambda>b.
           seq (emit Release_serialization)
               (case b of
                  Network_ref ref vmnet_status \<Rightarrow> if ref then ret () else exit_with EXIT_FAILURE
                | _ \<Rightarrow> exit_with EXIT_FAILURE))
       | _ \<Rightarrow> exit_with EXIT_FAILURE)"

definition network_desc :: "options \<Rightarrow> xpc_dict" where
  "network_desc p =
     [(''vmnet_allocate_mac_address'', XPC_BOOL False),
      (''vmnet_enable_tso'', XPC_BOOL (opt_enable_tso p)),
      (''vmnet_enable_checksum_offload'', XPC_BOOL (opt_enable_checksum_offload p)),
      (''vmnet_enable_isolation'', XPC_BOOL (opt_enable_isolation p))]"

definition start_interface_with_network :: "(helper, unit) prog" where
  "start_interface_with_network =
     bind network_from_ref (\<lambda>net.
     bind (gets (\<lambda>s. network_desc (h_options s))) (\<lambda>desc.
     bind (sys (Vmnet_interface_start_with_network desc)) (started (Some net))))"

section \<open>Start and stop\<close>

definition register_exit :: "exit_handler \<Rightarrow> (helper, unit) prog" where
  "register_exit h =
     seq (must (Atexit h)) (modify (\<lambda>s. s\<lparr>h_atexit := h # h_atexit s\<rparr>))"

text \<open>\<open>sdk26\<close>: the program was built with the macOS 26 SDK.\<close>

definition start_host_interface :: "bool \<Rightarrow> (helper, unit) prog" where
  "start_host_interface sdk26 =
     bind (gets (\<lambda>s. opt_network_name (h_options s))) (\<lambda>network_name.
     seq (case network_name of
            Some name \<Rightarrow>
              if sdk26
              then seq (acquire_network_from_broker name)
                  (seq start_interface_with_network (emit Release_network))
              else exit_with EXIT_FAILURE
          | None \<Rightarrow> start_interface_with_options)
         (register_exit Stop_host_interface))"

definition stop_host_interface :: "(helper, unit) prog" where
  "stop_host_interface =
     bind (gets h_interface) (\<lambda>interface.
       if \<not> interface then ret ()
       else bind (sys Vmnet_stop_interface) (\<lambda>a. ret ()))"

section \<open>Reading the description back\<close>

text \<open>
  A reader of one JSON object whose values are strings without escapes and integers, followed by a
  newline: what a client of the helper does with the first line of stdout.
\<close>

datatype json = J_int int | J_string string

definition plain_char :: "char \<Rightarrow> bool" where
  "plain_char c \<longleftrightarrow> c \<noteq> CHR 0x22 \<and> c \<noteq> CHR 0x5C \<and> (32 :: nat) \<le> of_char c"

definition read_string :: "string \<Rightarrow> (string \<times> string) option" where
  "read_string s = (case s of
      c # r \<Rightarrow> if c \<noteq> CHR 0x22 then None
        else (case dropWhile plain_char r of
                d # q \<Rightarrow> if d = CHR 0x22 then Some (takeWhile plain_char r, q) else None
              | [] \<Rightarrow> None)
    | [] \<Rightarrow> None)"

definition read_int :: "string \<Rightarrow> (int \<times> string) option" where
  "read_int s =
     (let (neg, r) = (case s of c # q \<Rightarrow> if c = CHR ''-'' then (True, q) else (False, s) | [] \<Rightarrow> (False, s));
          ds = takeWhile isdigit r
      in if ds = [] then None
         else Some (if neg then - digits_val ds else digits_val ds, dropWhile isdigit r))"

definition read_value :: "string \<Rightarrow> (json \<times> string) option" where
  "read_value s = (case read_string s of
      Some (v, r) \<Rightarrow> Some (J_string v, r)
    | None \<Rightarrow> map_option (\<lambda>(n, r). (J_int n, r)) (read_int s))"

definition read_member :: "string \<Rightarrow> ((string \<times> json) \<times> string) option" where
  "read_member s = (case read_string s of
      Some (k, c # r) \<Rightarrow>
        if c = CHR '':'' then map_option (\<lambda>(v, q). ((k, v), q)) (read_value r) else None
    | _ \<Rightarrow> None)"

text \<open>Members separated by commas; the fuel bounds their number.\<close>

fun read_members :: "nat \<Rightarrow> string \<Rightarrow> ((string \<times> json) list \<times> string) option" where
  "read_members 0 s = None"
| "read_members (Suc n) s = (case read_member s of
     None \<Rightarrow> None
   | Some (m, c # r) \<Rightarrow>
       if c = CHR '','' then map_option (\<lambda>(ms, q). (m # ms, q)) (read_members n r)
       else Some ([m], c # r)
   | Some (m, []) \<Rightarrow> Some ([m], []))"

definition read_json :: "string \<Rightarrow> (string \<times> json) list option" where
  "read_json s = (case s of
      c # r \<Rightarrow> if c \<noteq> CHR ''{'' then None
        else if r = [CHR ''}'', CHR 0x0A] then Some []
        else (case read_members (length r) r of
                Some (ms, q) \<Rightarrow> if q = [CHR ''}'', CHR 0x0A] then Some ms else None
              | None \<Rightarrow> None)
    | [] \<Rightarrow> None)"

text \<open>What an entry is in the object, and its text.\<close>

fun json_of :: "xpc \<Rightarrow> json option" where
  "json_of (XPC_UINT64 n) = Some (J_int (uint n))"
| "json_of (XPC_INT64 n) = Some (J_int (sint n))"
| "json_of (XPC_STRING s) = Some (J_string s)"
| "json_of (XPC_UUID u) = Some (J_string (uuid_unparse u))"
| "json_of _ = None"

definition info_items :: "xpc_dict \<Rightarrow> network option \<Rightarrow> (string \<times> json) list" where
  "info_items param net =
     List.map_filter (\<lambda>(k, v). map_option (Pair k) (json_of v)) param @
     (case net of
        None \<Rightarrow> []
      | Some n \<Rightarrow> [(''net_ipv4_subnet'', J_string (subnet n)), (''net_ipv4_mask'', J_string (mask_str n)),
          (''net_ipv6_prefix'', J_string (ipv6_prefix n)),
          (''net_ipv6_prefix_len'', J_int (uint (prefix_len n)))])"

fun value_text :: "json \<Rightarrow> string" where
  "value_text (J_int n) = fmt_d n"
| "value_text (J_string s) = quoted s"

definition member_text :: "string \<times> json \<Rightarrow> string" where
  "member_text m = quoted (fst m) @ '':'' @ value_text (snd m)"

fun members_text :: "(string \<times> json) list \<Rightarrow> string" where
  "members_text [] = []"
| "members_text [m] = member_text m"
| "members_text (m # ms) = member_text m @ '','' @ members_text ms"

lemma members_text_snoc:
  "members_text (ms @ [m]) = members_text ms @ (if ms = [] then [] else '','') @ member_text m"
  by (induction ms rule: members_text.induct) auto

text \<open>What was printed after some items: their count and their text after the brace.\<close>

definition printed :: "(string \<times> json) list \<Rightarrow> int \<times> string" where
  "printed ms = (int (length ms), ''{'' @ members_text ms)"

lemma print_member: "print_item (member_text m) (printed ms) = printed (ms @ [m])"
  by (auto simp: print_item_def printed_def members_text_snoc)

lemma print_entry_printed:
  "print_entry (k, v) (printed ms) = printed (ms @ (case json_of v of None \<Rightarrow> [] | Some j \<Rightarrow> [(k, j)]))"
proof -
  have member: "print_item (quoted k @ '':'' @ value_text j) (printed ms) = printed (ms @ [(k, j)])" for j
    using print_member[of "(k, j)" ms] by (simp add: member_text_def)
  show ?thesis
  proof (cases v)
    case (XPC_UINT64 n)
    then show ?thesis using member[of "J_int (uint n)"] by (simp add: print_entry_def fmt_llu_def)
  next
    case (XPC_INT64 n)
    then show ?thesis using member[of "J_int (sint n)"] by (simp add: print_entry_def)
  next
    case (XPC_STRING t)
    then show ?thesis using member[of "J_string t"] by (simp add: print_entry_def)
  next
    case (XPC_UUID u)
    then show ?thesis using member[of "J_string (uuid_unparse u)"] by (simp add: print_entry_def)
  qed (simp_all add: print_entry_def)
qed

lemma print_param_printed:
  "fold print_entry param (printed ms) =
     printed (ms @ List.map_filter (\<lambda>(k, v). map_option (Pair k) (json_of v)) param)"
proof (induction param arbitrary: ms)
  case Nil
  then show ?case by (simp add: List.map_filter_def)
next
  case (Cons e param)
  obtain k v where e: "e = (k, v)" by (cases e)
  show ?case
    using Cons[of "ms @ (case json_of v of None \<Rightarrow> [] | Some j \<Rightarrow> [(k, j)])"]
    by (cases "json_of v") (simp_all add: e print_entry_printed List.map_filter_def)
qed

lemma print_network_printed:
  "print_network n (printed ms) = printed (ms @
     [(''net_ipv4_subnet'', J_string (subnet n)), (''net_ipv4_mask'', J_string (mask_str n)),
      (''net_ipv6_prefix'', J_string (ipv6_prefix n)), (''net_ipv6_prefix_len'', J_int (uint (prefix_len n)))])"
proof -
  have "print_network n (printed ms) = print_item (member_text (''net_ipv6_prefix_len'', J_int (uint (prefix_len n))))
       (print_item (member_text (''net_ipv6_prefix'', J_string (ipv6_prefix n)))
         (print_item (member_text (''net_ipv4_mask'', J_string (mask_str n)))
           (print_item (member_text (''net_ipv4_subnet'', J_string (subnet n))) (printed ms))))"
    by (simp only: print_network_def member_text_def fst_conv snd_conv value_text.simps)
  then show ?thesis by (simp only: print_member append_assoc append.simps)
qed

lemma interface_info_text:
  "interface_info param net = ''{'' @ members_text (info_items param net) @ ''}'' @ [CHR 0x0A]"
proof -
  have start: "(0, ''{'') = printed []" by (simp add: printed_def)
  show ?thesis
    unfolding interface_info_def start Let_def print_param_printed
    by (cases net) (simp_all add: info_items_def print_network_printed, simp_all add: printed_def)
qed

subsection \<open>The reader on the text\<close>

text \<open>Text that needs no escape.\<close>

definition plain :: "string \<Rightarrow> bool" where
  "plain s \<longleftrightarrow> list_all plain_char s"

fun plain_json :: "json \<Rightarrow> bool" where
  "plain_json (J_int n) \<longleftrightarrow> True" | "plain_json (J_string s) \<longleftrightarrow> plain s"

lemma read_string_quoted:
  assumes "plain s" shows "read_string (quoted s @ r) = Some (s, r)"
proof -
  have q: "\<not> plain_char (CHR 0x22)" by (simp add: plain_char_def)
  have "\<forall>c \<in> set s. plain_char c" using assms by (simp add: plain_def list_all_iff)
  then have "dropWhile plain_char (s @ CHR 0x22 # r) = CHR 0x22 # r"
    "takeWhile plain_char (s @ CHR 0x22 # r) = s"
    using q by (simp_all add: dropWhile_append2 takeWhile_append2)
  then show ?thesis by (simp add: read_string_def quoted_def)
qed

lemma read_string_not: "c \<noteq> CHR 0x22 \<Longrightarrow> read_string (c # r) = None"
  by (simp add: read_string_def)

lemma read_int_dec:
  assumes "\<not> isdigit c"
  shows "read_int (dec n @ c # r) = Some (int n, c # r)"
proof -
  obtain d q where d: "dec n = d # q" "isdigit d" using dec_hd by blast
  have hd: "(case dec n @ c # r of x # q \<Rightarrow> if x = CHR ''-'' then (True, q) else (False, dec n @ c # r)
      | [] \<Rightarrow> (False, dec n @ c # r)) = (False, dec n @ c # r)"
    using d isdigit_not_special[of d] by (auto simp: d(1))
  have "takeWhile isdigit (dec n @ c # r) = dec n" "dropWhile isdigit (dec n @ c # r) = c # r"
    using assms by simp_all
  moreover have "dec n \<noteq> []" by (simp add: d(1))
  ultimately show ?thesis unfolding read_int_def hd by simp
qed

lemma read_int_fmt_d:
  assumes "\<not> isdigit c" shows "read_int (fmt_d n @ c # r) = Some (n, c # r)"
proof (cases "n < 0")
  case True
  have "takeWhile isdigit (dec (nat (- n)) @ c # r) = dec (nat (- n))"
    "dropWhile isdigit (dec (nat (- n)) @ c # r) = c # r"
    using assms by simp_all
  then show ?thesis using True by (simp add: read_int_def fmt_d_def Let_def)
next
  case False
  then show ?thesis using read_int_dec[OF assms, of "nat n" r] by (simp add: fmt_d_def)
qed

lemma fmt_d_hd: "\<exists>c q. fmt_d n = c # q \<and> c \<noteq> CHR 0x22"
proof (cases "n < 0")
  case False
  then show ?thesis using dec_hd[of "nat n"] by (auto simp: fmt_d_def isdigit_def)
qed (simp add: fmt_d_def)

lemma read_value_text:
  assumes "plain_json j" and "\<not> isdigit c"
  shows "read_value (value_text j @ c # r) = Some (j, c # r)"
proof (cases j)
  case (J_int n)
  obtain d q where "fmt_d n = d # q" "d \<noteq> CHR 0x22" using fmt_d_hd by blast
  then have "read_string (fmt_d n @ c # r) = None" by (simp add: read_string_not)
  then show ?thesis using J_int read_int_fmt_d[OF assms(2)] by (simp add: read_value_def)
next
  case (J_string s)
  then show ?thesis using assms(1) by (simp add: read_value_def read_string_quoted)
qed

lemma read_member_text:
  assumes "plain (fst m)" and "plain_json (snd m)" and "\<not> isdigit c"
  shows "read_member (member_text m @ c # r) = Some (m, c # r)"
  using read_value_text[OF assms(2,3)] read_string_quoted[OF assms(1)]
  by (simp add: read_member_def member_text_def)

lemma read_members_text:
  assumes "ms \<noteq> []" and "\<forall>m \<in> set ms. plain (fst m) \<and> plain_json (snd m)" and "length ms \<le> n"
  shows "read_members n (members_text ms @ CHR ''}'' # r) = Some (ms, CHR ''}'' # r)"
  using assms
proof (induction ms arbitrary: n rule: members_text.induct)
  case (2 m)
  then obtain k where n: "n = Suc k" by (cases n) auto
  have "\<not> isdigit (CHR ''}'')" by (simp add: isdigit_def)
  from read_member_text[OF _ _ this, of m r] 2 show ?case by (simp add: n)
next
  case (3 m m' ms)
  then obtain k where n: "n = Suc k" by (cases n) auto
  have "\<not> isdigit (CHR '','')" by (simp add: isdigit_def)
  from read_member_text[OF _ _ this, of m "members_text (m' # ms) @ CHR ''}'' # r"] 3
  show ?case by (simp add: n)
qed simp

lemma members_text_length: "length ms \<le> length (members_text ms)"
  by (induction ms rule: members_text.induct) (auto simp: member_text_def quoted_def)

lemma members_text_hd:
  assumes "ms \<noteq> []" shows "\<exists>q. members_text ms = CHR 0x22 # q"
  using assms by (induction ms rule: members_text.induct) (simp_all add: member_text_def quoted_def)

lemma read_json_text:
  assumes "\<forall>m \<in> set ms. plain (fst m) \<and> plain_json (snd m)"
  shows "read_json (''{'' @ members_text ms @ ''}'' @ [CHR 0x0A]) = Some ms"
proof (cases "ms = []")
  case True
  then show ?thesis by (simp add: read_json_def)
next
  case False
  then obtain q where q: "members_text ms = CHR 0x22 # q" using members_text_hd by blast
  have "length ms \<le> length (members_text ms @ ''}'' @ [CHR 0x0A])"
    using members_text_length[of ms] by simp
  from read_members_text[OF False assms this, of "[CHR 0x0A]"] show ?thesis
    by (simp add: read_json_def q)
qed

section \<open>Properties\<close>

text \<open>
  C36: The first line of stdout is read back as the interface's parameters: the strings,
  integers and UUIDs of the dictionary in its order, followed by the four network items with a
  broker network; as long as no key and no string needs a JSON escape, which the code does not
  write.
\<close>

theorem interface_info_roundtrip:
  assumes "\<forall>m \<in> set (info_items param net). plain (fst m) \<and> plain_json (snd m)"
  shows "read_json (interface_info param net) = Some (info_items param net)"
  unfolding interface_info_text by (rule read_json_text[OF assms])

definition sample_param :: xpc_dict where
  "sample_param = [(''vmnet_mac_address'', XPC_STRING ''92:c9:52:b7:6c:08''),
     (''vmnet_enable_tso'', XPC_BOOL True), (''vmnet_mtu'', XPC_UINT64 1500),
     (''vmnet_max_packet_size'', XPC_UINT64 1514), (''vmnet_offset'', XPC_INT64 (-3))]"

theorem interface_info_roundtrip_witness:
  "read_json (interface_info sample_param None) =
     Some [(''vmnet_mac_address'', J_string ''92:c9:52:b7:6c:08''), (''vmnet_mtu'', J_int 1500),
       (''vmnet_max_packet_size'', J_int 1514), (''vmnet_offset'', J_int (-3))]"
proof -
  have items: "info_items sample_param None =
      [(''vmnet_mac_address'', J_string ''92:c9:52:b7:6c:08''), (''vmnet_mtu'', J_int 1500),
       (''vmnet_max_packet_size'', J_int 1514), (''vmnet_offset'', J_int (-3))]"
    by (simp add: info_items_def sample_param_def List.map_filter_def)
  have "\<forall>m \<in> set (info_items sample_param None). plain (fst m) \<and> plain_json (snd m)"
    unfolding items by (simp add: plain_def plain_char_def)
  from interface_info_roundtrip[OF this] show ?thesis unfolding items .
qed

text \<open>The description of an interface for options that are valid.\<close>

lemma interface_desc_valid:
  assumes "abs_network p \<noteq> None" and "opt_network_name p = None"
  shows "interface_desc p \<noteq> None"
  using assms
  by (auto simp: abs_network_def abs_addresses_def interface_desc_def set_addresses_def set_string_def
      Let_def split: option.splits operating_mode.splits if_splits)

lemma started_ends:
  "started net a s = (Done u, t) \<longleftrightarrow> (\<exists>ref param. a = Started ref VMNET_SUCCESS param \<and>
     t = s\<lparr>history := history s @ [(Stdout (interface_info param net), None)], h_interface := ref,
       h_max_packet_size := get_uint64 ''vmnet_max_packet_size'' param\<rparr>)"
  "started net a s = (Exited c, t) \<longleftrightarrow>
     (\<nexists>ref param. a = Started ref VMNET_SUCCESS param) \<and> c = 1 \<and> t = s"
  "started net a s \<noteq> (Aborted, t)" "started net a s \<noteq> (Waiting, t)"
  by (cases a; auto simp: started_def write_interface_info_def prog_simps emit_def split: if_splits)+

lemma register_exit_Done:
  "register_exit h s = (Done u, t) \<longleftrightarrow> (\<exists>a as. answers s = a # as \<and> 0 \<le> retval a \<and>
     t = s\<lparr>answers := as, history := history s @ [(Atexit h, Some a)], h_atexit := h # h_atexit s\<rparr>)"
  by (auto simp: register_exit_def seq_Done must_Done)

lemma register_exit_Exited:
  "register_exit h s = (Exited c, t) \<longleftrightarrow> (\<exists>a as. answers s = a # as \<and> retval a < 0 \<and> c = 1 \<and>
     t = s\<lparr>answers := as, history := history s @ [(Atexit h, Some a)]\<rparr>)"
  by (auto simp: register_exit_def seq_Exited must_Exited)

lemma no_abort_started [never_aborts]: "no_abort (started net a)"
  by (simp add: no_abort_def started_ends)

lemma no_abort_register_exit [never_aborts]: "no_abort (register_exit h)"
  unfolding register_exit_def must_def by (auto intro!: never_aborts)

lemma no_abort_with_network [never_aborts]:
  "no_abort (acquire_network_from_broker name)" "no_abort start_interface_with_network"
  unfolding acquire_network_from_broker_def start_interface_with_network_def network_from_ref_def
  by (auto intro!: never_aborts split: hans.split option.split)

text \<open>The message of a start.\<close>

definition start_debug_calls :: "helper \<Rightarrow> hcall list" where
  "start_debug_calls s =
     (if h_verbose s then map Debugf (case start_message (h_options s) of None \<Rightarrow> [] | Some m \<Rightarrow> [m]) else [])"

lemma debug_start_run:
  "debug_start s = (Done (), s\<lparr>history := history s @ map (\<lambda>c. (c, None)) (start_debug_calls s)\<rparr>)"
  by (cases s) (simp add: debug_start_def start_debug_calls_def prog_simps emit_def split: option.split)

lemma no_abort_debug_start [never_aborts]: "no_abort debug_start"
  by (simp add: no_abort_def debug_start_run)

lemma exits_in_debug_start [exit_codes]: "exits_in C debug_start"
  by (simp add: exits_in_def debug_start_run)

lemma preserves_debug_start:
  assumes "\<And>s. R s s" and "\<And>s values. R s (s\<lparr>history := history s @ [(Debugf values, None)]\<rparr>)"
  shows "preserves R debug_start"
proof -
  have "R s (snd (debug_start s))" for s
  proof (cases "start_debug_calls s = []")
    case True
    then show ?thesis using assms(1) by (simp add: debug_start_run)
  next
    case False
    then obtain vs where "start_debug_calls s = [Debugf vs]"
      by (auto simp: start_debug_calls_def split: if_splits option.splits)
    then show ?thesis using assms(2) by (simp add: debug_start_run)
  qed
  then show ?thesis by (simp add: preserves_def)
qed

lemma runs_on_debug_start [intro]: "preserves runs_on debug_start"
  by (rule preserves_debug_start) (simp_all add: runs_on_def List.map_filter_def)

lemma calls_debug_start:
  assumes "\<And>values. P (Debugf values)" shows "preserves (calls_in P) debug_start"
  by (rule preserves_debug_start) (simp_all add: calls_in_def assms)

text \<open>Only an interface description that cannot be built aborts.\<close>

lemma start_host_interface_not_Aborted:
  assumes "abs_network (h_options s) \<noteq> None"
  shows "start_host_interface sdk26 s \<noteq> (Aborted, t)"
proof (cases "opt_network_name (h_options s)")
  case None
  obtain d where d: "interface_desc (h_options s) = Some d"
    using interface_desc_valid[OF assms None] by blast
  have "start_interface_with_options s = bind (sys (Vmnet_start_interface d)) (started None)
      (s\<lparr>history := history s @ map (\<lambda>c. (c, None)) (start_debug_calls s)\<rparr>)"
    by (simp add: start_interface_with_options_def debug_start_run seq_def bind_def gets_def d)
  moreover have "no_abort (bind (sys (Vmnet_start_interface d)) (started None))" by (intro never_aborts)
  ultimately have "\<And>u. start_interface_with_options s \<noteq> (Aborted, u)" by (auto dest: no_abortD)
  with None show ?thesis
    by (auto simp: start_host_interface_def seq_def bind_Aborted dest!: no_abortD[OF no_abort_register_exit, THEN notE])
next
  case (Some name)
  have "no_abort (seq (if sdk26 then seq (acquire_network_from_broker name)
      (seq start_interface_with_network (emit Release_network)) else exit_with EXIT_FAILURE)
      (register_exit Stop_host_interface))"
    by (auto intro!: never_aborts)
  from no_abortD[OF this] show ?thesis
    by (simp add: start_host_interface_def bind_Aborted Some)
qed

text \<open>A call other than the debug message.\<close>

definition not_debug :: "hcall \<Rightarrow> bool" where
  "not_debug c \<longleftrightarrow> (\<forall>values. c \<noteq> Debugf values)"

definition start_rest :: "(helper, unit) prog" where
  "start_rest =
     seq (bind (gets (\<lambda>s. interface_desc (h_options s))) (\<lambda>desc. case desc of
         None \<Rightarrow> abort_prog
       | Some d \<Rightarrow> bind (sys (Vmnet_start_interface d)) (started None)))
     (register_exit Stop_host_interface)"

lemma not_debug_parts:
  "preserves (calls_in not_debug) (register_exit Stop_host_interface)"
  "preserves (calls_in not_debug) (started net a)"
  unfolding register_exit_def must_def started_def write_interface_info_def
  by (auto intro!: calls_order.pres_bind calls_order.pres_seq calls_order.pres_exit calls_order.pres_ret
      calls_sys calls_emit calls_modify simp: not_debug_def split: hans.split)

lemma not_debug_rest:
  "preserves (calls_in not_debug) start_rest"
  "preserves (calls_in not_debug) (acquire_network_from_broker name)"
  "preserves (calls_in not_debug) start_interface_with_network"
  unfolding start_rest_def acquire_network_from_broker_def start_interface_with_network_def network_from_ref_def
  by (auto intro!: calls_order.pres_bind calls_order.pres_seq calls_order.pres_exit calls_order.pres_ret
      calls_order.pres_gets calls_order.pres_abort not_debug_parts calls_sys calls_emit simp: not_debug_def
      split: hans.split option.split)

lemma start_host_interface_debug:
  assumes "start_host_interface sdk26 s = (r, t)"
  shows "\<exists>g. history t = history s @
      (if opt_network_name (h_options s) = None then map (\<lambda>c. (c, None)) (start_debug_calls s) else []) @ g \<and>
    list_all (\<lambda>e. not_debug (fst e)) g"
proof (cases "opt_network_name (h_options s)")
  case None
  let ?u = "s\<lparr>history := history s @ map (\<lambda>c. (c, None)) (start_debug_calls s)\<rparr>"
  have "start_rest ?u = (r, t)"
    using assms None
    by (simp add: start_host_interface_def start_interface_with_options_def start_rest_def debug_start_run
        seq_def bind_def gets_def cong: option.case_cong split: prod.splits outcome.splits)
  from preservesD[OF not_debug_rest(1) this] None show ?thesis by (auto simp: calls_in_def)
next
  case (Some name)
  have "preserves (calls_in not_debug) (seq (if sdk26 then seq (acquire_network_from_broker name)
      (seq start_interface_with_network (emit Release_network)) else exit_with EXIT_FAILURE)
      (register_exit Stop_host_interface))"
    by (auto intro!: calls_order.pres_seq calls_order.pres_exit not_debug_rest not_debug_parts calls_emit
        simp: not_debug_def)
  from preservesD[OF this, of s r t] assms Some show ?thesis
    by (auto simp: start_host_interface_def bind_def gets_def calls_in_def)
qed

text \<open>The debug message has a NULL string among the values of its \<open>%s\<close>.\<close>

definition prints_null :: "(hcall \<times> hans option) list \<Rightarrow> bool" where
  "prints_null g \<longleftrightarrow> (\<exists>values. Debugf values \<in> set (map fst g) \<and> None \<in> set values)"

lemma start_message_null:
  assumes "abs_network p \<noteq> None" and "opt_network_name p = None"
  shows "(\<exists>m. start_message p = Some m \<and> None \<in> set m) \<longleftrightarrow>
    opt_operation_mode p \<noteq> Some VMNET_BRIDGED_MODE \<and> opt_start_address p = None"
  using assms
  by (auto simp: abs_network_def abs_addresses_def start_message_def split: option.splits operating_mode.splits if_splits)

text \<open>
  C22: With options that \<open>parse_options\<close> accepted, starting the interface fails no assertion and
  passes no NULL string to vmnet or XPC, whatever vmnet and the broker answer.  A NULL string is
  printed exactly in the debug message of a verbose run that starts a shared or host network
  without addresses.
\<close>

theorem start_host_interface_safe:
  assumes "parse_options e args cli_init = (Done (), c)"
    and "h_options s = cli_options c" and "h_verbose s = cli_verbose c"
    and "start_host_interface sdk26 s = (r, t)"
  shows "r \<noteq> Aborted \<and> (\<exists>g. history t = history s @ g \<and>
    (prints_null g \<longleftrightarrow> cli_verbose c \<and> opt_network_name (cli_options c) = None \<and>
       opt_operation_mode (cli_options c) \<noteq> Some VMNET_BRIDGED_MODE \<and>
       opt_start_address (cli_options c) = None))"
proof
  have net: "abs_network (h_options s) \<noteq> None" using parsed_options[OF assms(1)] assms(2) by simp
  then show "r \<noteq> Aborted" using assms(4) start_host_interface_not_Aborted[of s sdk26 t] by auto
  let ?d = "if opt_network_name (h_options s) = None then map (\<lambda>c. (c, None)) (start_debug_calls s) else []"
  obtain g where g: "history t = history s @ ?d @ g" "list_all (\<lambda>e. not_debug (fst e)) g"
    using start_host_interface_debug[OF assms(4)] by blast
  have "prints_null (?d @ g) \<longleftrightarrow> prints_null ?d"
    using g(2) by (fastforce simp: prints_null_def not_debug_def list_all_iff)
  also have "\<dots> \<longleftrightarrow> h_verbose s \<and> opt_network_name (h_options s) = None \<and>
      (\<exists>m. start_message (h_options s) = Some m \<and> None \<in> set m)"
    by (cases "start_message (h_options s)") (auto simp: prints_null_def start_debug_calls_def)
  finally show "\<exists>g. history t = history s @ g \<and>
    (prints_null g \<longleftrightarrow> cli_verbose c \<and> opt_network_name (cli_options c) = None \<and>
       opt_operation_mode (cli_options c) \<noteq> Some VMNET_BRIDGED_MODE \<and>
       opt_start_address (cli_options c) = None)"
    using start_message_null[OF net] g(1) assms(2,3) by (intro exI[of _ "?d @ g"]) auto
qed

definition sample_options :: options where
  "sample_options = cli_options (snd (parse_options sample_env
     [''--socket'', ''/tmp/s'', ''--operation-mode=host''] cli_init))"

definition sample_helper :: "options \<Rightarrow> hans list \<Rightarrow> helper" where
  "sample_helper p as = \<lparr>answers = as, history = [], h_options = p, h_verbose = False,
     h_interface = False,
     h_max_packet_size = 0, h_kq = -1, h_status = 0, h_lockfile = None, h_atexit = [],
     h_host = None, h_vm = None\<rparr>"

text \<open>A verbose run in host mode without addresses.\<close>

definition verbose_helper :: "options \<Rightarrow> hans list \<Rightarrow> helper" where
  "verbose_helper p as = (sample_helper p as)\<lparr>h_verbose := True\<rparr>"

theorem start_host_interface_safe_witness:
  "\<exists>g. fst (start_host_interface True (verbose_helper sample_options
       [Started True VMNET_SUCCESS sample_param, Returns 0])) \<noteq> Aborted \<and>
     history (snd (start_host_interface True (verbose_helper sample_options
       [Started True VMNET_SUCCESS sample_param, Returns 0]))) = g \<and> prints_null g"
proof -
  let ?r = "parse_options sample_env [''-v'', ''--socket'', ''/tmp/s'', ''--operation-mode=host''] cli_init"
  let ?s = "verbose_helper sample_options [Started True VMNET_SUCCESS sample_param, Returns 0]"
  have "fst ?r = Done ()" "cli_options (snd ?r) = sample_options" and v: "cli_verbose (snd ?r)" by code_simp+
  then have r: "?r = (Done (), snd ?r)" and p: "h_options ?s = cli_options (snd ?r)" "h_verbose ?s = cli_verbose (snd ?r)"
    by (simp_all add: prod_eq_iff verbose_helper_def sample_helper_def)
  have o: "opt_network_name (cli_options (snd ?r)) = None" "opt_start_address (cli_options (snd ?r)) = None"
    "opt_operation_mode (cli_options (snd ?r)) = Some VMNET_HOST_MODE" by code_simp+
  have "history ?s = []" by (simp add: verbose_helper_def sample_helper_def)
  with start_host_interface_safe[OF r p prod.collapse[symmetric], of True] v o show ?thesis by auto
qed

text \<open>The parts of a successful start, as the calls they make.\<close>

definition makes_calls :: "hcall list \<Rightarrow> helper \<Rightarrow> helper \<Rightarrow> bool" where
  "makes_calls cs s t \<longleftrightarrow> (\<exists>new. history t = history s @ new \<and> map fst new = cs)"

lemma makes_calls_trans:
  "makes_calls cs s t \<Longrightarrow> makes_calls ds t u \<Longrightarrow> makes_calls (cs @ ds) s u"
  unfolding makes_calls_def by (elim exE conjE) simp

lemma acquire_network_Done:
  assumes "acquire_network_from_broker name s = (Done u, t)"
  shows "\<exists>z. makes_calls [Broker_acquire_network name, Vmnet_network_create z,
      Release_serialization] s t \<and> h_options t = h_options s \<and> h_atexit t = h_atexit s"
proof -
  obtain a s1 where s1: "sys (Broker_acquire_network name) s = (Done a, s1)"
    using assms by (auto simp: acquire_network_from_broker_def bind_Done)
  show ?thesis
  proof (cases a)
    case (Acquired z st)
    with assms s1 obtain z' b s2 s3 where z: "z = Some z'"
      and s2: "sys (Vmnet_network_create z') s1 = (Done b, s2)"
      and s3: "emit Release_serialization s2 = (Done (), s3)"
      and last: "(case b of Network_ref ref st \<Rightarrow> if ref then ret () else exit_with EXIT_FAILURE
        | _ \<Rightarrow> exit_with EXIT_FAILURE) s3 = (Done u, t)"
      by (cases z) (auto simp: acquire_network_from_broker_def prog_ends)
    have "t = s3" using last by (cases b) (auto split: if_splits)
    with s1 s2 s3 show ?thesis
      by (auto simp: sys_Done makes_calls_def intro!: exI[of _ z'])
  qed (use assms s1 in \<open>simp_all add: acquire_network_from_broker_def bind_def\<close>)
qed

lemma start_with_network_Done:
  assumes "start_interface_with_network s = (Done u, t)"
  shows "\<exists>net param. makes_calls [Vmnet_network_info,
      Vmnet_interface_start_with_network (network_desc (h_options s)),
      Stdout (interface_info param (Some net))] s t \<and>
    h_max_packet_size t = get_uint64 ''vmnet_max_packet_size'' param \<and>
    h_options t = h_options s \<and> h_atexit t = h_atexit s"
proof -
  obtain net a s1 s2 where s1: "network_from_ref s = (Done net, s1)"
    and s2: "sys (Vmnet_interface_start_with_network (network_desc (h_options s1))) s1 = (Done a, s2)"
    and last: "started (Some net) a s2 = (Done u, t)"
    using assms by (auto simp: start_interface_with_network_def prog_ends)
  obtain b as where "answers s = b # as"
    and s1': "s1 = s\<lparr>answers := as, history := history s @ [(Vmnet_network_info, Some b)]\<rparr>"
    using s1 by (auto simp: network_from_ref_def prog_ends sys_Done)
  from last obtain ref param where
    "t = s2\<lparr>history := history s2 @ [(Stdout (interface_info param (Some net)), None)],
       h_interface := ref, h_max_packet_size := get_uint64 ''vmnet_max_packet_size'' param\<rparr>"
    unfolding started_ends by blast
  with s2 show ?thesis
    by (auto simp: sys_Done s1' makes_calls_def intro!: exI[of _ net] exI[of _ param])
qed

lemma start_with_options_Done:
  assumes "start_interface_with_options s = (Done u, t)"
  shows "\<exists>param. makes_calls (start_debug_calls s @ [Vmnet_start_interface (the (interface_desc (h_options s))),
      Stdout (interface_info param None)]) s t \<and>
    h_max_packet_size t = get_uint64 ''vmnet_max_packet_size'' param \<and>
    h_options t = h_options s \<and> h_atexit t = h_atexit s"
  using assms
  by (auto simp: start_interface_with_options_def debug_start_run prog_ends sys_Done started_ends abort_prog_def
      makes_calls_def comp_def split: option.splits)

text \<open>The calls of a successful start, in order; \<open>message\<close> is the debug message, when there is one.\<close>

definition start_calls ::
    "options \<Rightarrow> hcall list \<Rightarrow> string \<Rightarrow> network \<Rightarrow> xpc_dict \<Rightarrow> hcall list" where
  "start_calls p message serialization net param =
     (case opt_network_name p of
        None \<Rightarrow> message @ [Vmnet_start_interface (the (interface_desc p)),
          Stdout (interface_info param None), Atexit Stop_host_interface]
      | Some name \<Rightarrow> [Broker_acquire_network name, Vmnet_network_create serialization,
          Release_serialization, Vmnet_network_info,
          Vmnet_interface_start_with_network (network_desc p),
          Stdout (interface_info param (Some net)), Release_network, Atexit Stop_host_interface])"

text \<open>
  C23: When the start returns, the calls were made in this order, the debug message first when the
  run is verbose and the network is its own, with one line on stdout that
  describes the started interface; the largest packet size is the one vmnet gave, and stopping the
  interface is the newest exit handler.
\<close>

theorem start_host_interface_calls:
  assumes "start_host_interface sdk26 s = (Done u, t)"
  shows "\<exists>serialization net param.
    makes_calls (start_calls (h_options s) (start_debug_calls s) serialization net param) s t \<and>
    h_max_packet_size t = get_uint64 ''vmnet_max_packet_size'' param \<and>
    h_atexit t = Stop_host_interface # h_atexit s \<and> h_options t = h_options s \<and>
    (opt_network_name (h_options s) \<noteq> None \<longrightarrow> sdk26)"
proof (cases "opt_network_name (h_options s)")
  case None
  with assms obtain t1 a as where run: "start_interface_with_options s = (Done (), t1)"
    and t: "t = t1\<lparr>answers := as, history := history t1 @ [(Atexit Stop_host_interface, Some a)],
      h_atexit := Stop_host_interface # h_atexit t1\<rparr>"
    by (auto simp: start_host_interface_def prog_ends register_exit_Done)
  have last: "makes_calls [Atexit Stop_host_interface] t1 t" by (simp add: t makes_calls_def)
  obtain param where p: "makes_calls (start_debug_calls s @ [Vmnet_start_interface (the (interface_desc (h_options s))),
      Stdout (interface_info param None)]) s t1"
    and "h_max_packet_size t1 = get_uint64 ''vmnet_max_packet_size'' param"
      "h_options t1 = h_options s" "h_atexit t1 = h_atexit s"
    using start_with_options_Done[OF run] by blast
  then show ?thesis
    using makes_calls_trans[OF p last] None by (auto simp: start_calls_def t)
next
  case (Some name)
  with assms obtain t1 t2 a as where sdk: "sdk26"
    and acq: "acquire_network_from_broker name s = (Done (), t1)"
    and net: "start_interface_with_network t1 = (Done (), t2)"
    and t: "t = t2\<lparr>answers := as, history := history t2 @
      [(Release_network, None), (Atexit Stop_host_interface, Some a)],
      h_atexit := Stop_host_interface # h_atexit t2\<rparr>"
    by (auto simp: start_host_interface_def prog_ends register_exit_Done split: if_splits)
  have last: "makes_calls [Release_network, Atexit Stop_host_interface] t2 t"
    by (simp add: t makes_calls_def)
  obtain z where z: "makes_calls [Broker_acquire_network name, Vmnet_network_create z,
      Release_serialization] s t1" and "h_options t1 = h_options s" "h_atexit t1 = h_atexit s"
    using acquire_network_Done[OF acq] by blast
  moreover obtain ni param where p: "makes_calls [Vmnet_network_info,
      Vmnet_interface_start_with_network (network_desc (h_options t1)),
      Stdout (interface_info param (Some ni))] t1 t2"
    and "h_max_packet_size t2 = get_uint64 ''vmnet_max_packet_size'' param"
      "h_options t2 = h_options t1" "h_atexit t2 = h_atexit t1"
    using start_with_network_Done[OF net] by blast
  ultimately show ?thesis
    using makes_calls_trans[OF z makes_calls_trans[OF p last]] Some sdk
    by (auto simp: start_calls_def t)
qed

theorem start_host_interface_calls_witness:
  "\<exists>t. start_host_interface False (sample_helper sample_options
      [Started True VMNET_SUCCESS sample_param, Returns 0]) = (Done (), t) \<and>
     h_atexit t = [Stop_host_interface] \<and>
     (\<exists>param. h_max_packet_size t = get_uint64 ''vmnet_max_packet_size'' param)"
proof -
  let ?s = "sample_helper sample_options [Started True VMNET_SUCCESS sample_param, Returns 0]"
  have "opt_network_name sample_options = None" "interface_desc sample_options \<noteq> None"
    by code_simp+
  then obtain t where t: "start_host_interface False ?s = (Done (), t)"
    by (auto simp: start_host_interface_def start_interface_with_options_def debug_start_run prog_simps
        sample_helper_def started_def write_interface_info_def emit_def register_exit_def must_def
        split: option.splits)
  from start_host_interface_calls[OF t] t show ?thesis by (auto simp: sample_helper_def)
qed

end
