(* ===== verification/Socket.thy ===== *)
theory Socket
  imports Interface
begin

text \<open>
  The helper's socket (\<open>programs/helper.c\<close>): the lock file that makes a process the only server on
  the socket path, the socket itself, the first client, and the exit handlers that remove the two
  files.  \<open>Rendezvous\<close> runs several such processes on one path.
\<close>

section \<open>The lock file\<close>

text \<open>\<open>options.socket\<close> where the code needs a string; NULL crashes.\<close>

definition socket_path :: "(helper, string) prog" where
  "socket_path = bind (gets (\<lambda>s. opt_socket (h_options s)))
     (\<lambda>v. case v of None \<Rightarrow> abort_prog | Some path \<Rightarrow> ret path)"

definition lockfile_of :: "string \<Rightarrow> string" where
  "lockfile_of path = path @ ''.lock''"

definition remove_socket_lockfile :: "(helper, unit) prog" where
  "remove_socket_lockfile =
     bind (gets h_lockfile) (\<lambda>v.
       case v of
         None \<Rightarrow> ret ()
       | Some file \<Rightarrow> bind (sys (Remove file)) (\<lambda>a. modify (\<lambda>s. s\<lparr>h_lockfile := None\<rparr>)))"

definition create_socket_lockfile :: "(helper, unit) prog" where
  "create_socket_lockfile =
     bind socket_path (\<lambda>path.
     seq (must (Asprintf (lockfile_of path)))
    (seq (modify (\<lambda>s. s\<lparr>h_lockfile := Some (lockfile_of path)\<rparr>))
    (seq (must (Open_lockfile (lockfile_of path)))
         (register_exit Remove_socket_lockfile))))"

section \<open>The socket\<close>

definition remove_socket_silently :: "(helper, unit) prog" where
  "remove_socket_silently =
     bind (gets (\<lambda>s. opt_socket (h_options s))) (\<lambda>v.
       case v of
         None \<Rightarrow> ret ()
       | Some path \<Rightarrow> bind (sys (Remove path)) (\<lambda>a.
           modify (\<lambda>s. s\<lparr>h_options := (h_options s)\<lparr>opt_socket := None\<rparr>\<rparr>)))"

definition SEND_BUFFER_SIZE :: int where "SEND_BUFFER_SIZE = 65 * 1024"
definition RECV_BUFFER_SIZE :: int where "RECV_BUFFER_SIZE = 4 * 1024 * 1024"
definition RECV_BUFFER_SIZE_OFFLOAD :: int where "RECV_BUFFER_SIZE_OFFLOAD = 8 * 1024 * 1024"

text \<open>The results are only logged.\<close>

definition set_socket_buffers :: "int \<Rightarrow> (helper, unit) prog" where
  "set_socket_buffers fd =
     bind (sys (Setsockopt_sndbuf fd SEND_BUFFER_SIZE)) (\<lambda>_.
     bind (gets (\<lambda>s. if opt_enable_tso (h_options s) then RECV_BUFFER_SIZE_OFFLOAD
                      else RECV_BUFFER_SIZE)) (\<lambda>rcvbuf_size.
     bind (sys (Setsockopt_rcvbuf fd rcvbuf_size)) (\<lambda>_. ret ())))"

definition set_fd :: "int \<Rightarrow> helper \<Rightarrow> helper" where
  "set_fd fd s = s\<lparr>h_options := (h_options s)\<lparr>opt_fd := fd\<rparr>\<rparr>"

text \<open>\<open>strncpy\<close> into \<open>sun_path\<close>, whose last byte stays 0.\<close>

definition sun_path :: "string \<Rightarrow> string" where
  "sun_path path = take (sizeof_sun_path - 1) path"

text \<open>The socket's file: a stale one is removed, then the socket is bound and made private.\<close>

definition place_socket :: "int \<Rightarrow> (helper, unit) prog" where
  "place_socket fd =
     bind socket_path (\<lambda>path.
     bind (sys (Remove path)) (\<lambda>a.
     seq (if retval a < 0 \<and> errno_of a \<noteq> ENOENT then exit_with EXIT_FAILURE else ret ())
    (seq (must (Bind fd (sun_path path)))
    (seq (must (Chmod path))
         (register_exit Remove_socket_silently)))))"

definition create_socket :: "(helper, unit) prog" where
  "create_socket =
     bind (sys Socket) (\<lambda>a.
     seq (modify (set_fd (retval a)))
    (seq (if retval a < 0 then exit_with EXIT_FAILURE else ret ())
    (seq (set_socket_buffers (retval a))
         (place_socket (retval a)))))"

section \<open>The client\<close>

text \<open>The answer to \<open>recvfrom\<close> is the length of the first packet, at most 64, and its sender.\<close>

definition connect_socket :: "(helper, unit) prog" where
  "connect_socket =
     bind (gets (\<lambda>s. opt_fd (h_options s))) (\<lambda>fd.
     bind (sys (Recvfrom_peek fd 64)) (\<lambda>a.
       case a of
         Received n client \<Rightarrow>
           if n < 0 then exit_with EXIT_FAILURE
           else seq (must (Connect fd client))
                    (whenp (n < 64) (seq (must (Read fd 64)) (ret ())))
       | _ \<Rightarrow> exit_with EXIT_FAILURE))"

definition setup_socket :: "(helper, unit) prog" where
  "setup_socket =
     bind (gets (\<lambda>s. opt_fd (h_options s))) (\<lambda>fd.
       if fd \<noteq> -1 then ret ()
       else seq create_socket_lockfile
           (seq create_socket
           (seq wait_for_client
                connect_socket)))"

section \<open>Exit\<close>

text \<open>\<open>exit\<close> runs the registered functions, the last one first.\<close>

fun run_handler :: "exit_handler \<Rightarrow> (helper, unit) prog" where
  "run_handler Stop_host_interface = stop_host_interface"
| "run_handler Remove_socket_lockfile = remove_socket_lockfile"
| "run_handler Remove_socket_silently = remove_socket_silently"

primrec run_handlers :: "exit_handler list \<Rightarrow> (helper, unit) prog" where
  "run_handlers [] = ret ()"
| "run_handlers (h # hs) = seq (run_handler h) (run_handlers hs)"

definition exit_process :: "(helper, unit) prog" where
  "exit_process = bind (gets h_atexit) run_handlers"

section \<open>The protocol on the two files\<close>

text \<open>
  Where a process is with the two files: no lock yet, the lock refused, the lock held but not yet
  registered for removal, registered, the socket bound but not registered, serving, and in the exit
  handlers after the removal of the socket and after that of the lock file.
\<close>

datatype stage = Fresh | Refused | Opened | Locked | Bound | Serving | Leaving | Gone

text \<open>
  One call of a process and what it leads to; a call on a file that does not belong at that stage has
  no successor.  \<open>path\<close> is the path of the socket.
\<close>

fun file_next :: "string \<Rightarrow> stage \<Rightarrow> hcall \<times> hans option \<Rightarrow> stage option" where
  "file_next path q (Open_lockfile f, a) =
     (if q = Fresh \<and> f = lockfile_of path
      then Some (if a \<noteq> None \<and> 0 \<le> retval (the a) then Opened else Refused) else None)"
| "file_next path q (Bind fd f, a) =
     (if q = Locked \<and> f = path
      then Some (if a \<noteq> None \<and> 0 \<le> retval (the a) then Bound else Locked) else None)"
| "file_next path q (Chmod f, a) = (if q = Bound \<and> f = path then Some Bound else None)"
| "file_next path q (Atexit Remove_socket_lockfile, a) =
     (if q = Opened then Some (if a \<noteq> None \<and> 0 \<le> retval (the a) then Locked else Opened) else None)"
| "file_next path q (Atexit Remove_socket_silently, a) =
     (if q = Bound then Some (if a \<noteq> None \<and> 0 \<le> retval (the a) then Serving else Bound) else None)"
| "file_next path q (Remove f, a) =
     (if f = path
      then (case q of Locked \<Rightarrow> Some Locked | Serving \<Rightarrow> Some Leaving | _ \<Rightarrow> None)
      else if f = lockfile_of path
      then (if q \<in> {Locked, Bound, Leaving} then Some Gone else None)
      else None)"
| "file_next path q _ = Some q"

fun run_files :: "string \<Rightarrow> stage \<Rightarrow> (hcall \<times> hans option) list \<Rightarrow> stage option" where
  "run_files path q [] = Some q"
| "run_files path q (e # h) = Option.bind (file_next path q e) (\<lambda>q. run_files path q h)"

fun on_files :: "hcall \<Rightarrow> bool" where
  "on_files (Open_lockfile f) = True"
| "on_files (Bind fd f) = True"
| "on_files (Chmod f) = True"
| "on_files (Atexit h) = (h \<noteq> Stop_host_interface)"
| "on_files (Remove f) = True"
| "on_files _ = False"

lemma file_next_other: "\<not> on_files c \<Longrightarrow> file_next path q (c, a) = Some q"
  by (cases "(path, q, (c, a))" rule: file_next.cases) auto

lemma run_files_append:
  "run_files path q (g @ h) = Option.bind (run_files path q g) (\<lambda>q. run_files path q h)"
  by (induction g arbitrary: q) (simp_all split: option.splits Option.bind_split)

text \<open>What the state of a process at a stage says of its exit handlers.\<close>

fun handlers_at :: "stage \<Rightarrow> exit_handler list" where
  "handlers_at Locked = [Remove_socket_lockfile]"
| "handlers_at Bound = [Remove_socket_lockfile]"
| "handlers_at Serving = [Remove_socket_silently, Remove_socket_lockfile]"
| "handlers_at _ = []"

definition at_stage :: "string \<Rightarrow> stage \<Rightarrow> helper \<Rightarrow> bool" where
  "at_stage path q s \<longleftrightarrow> run_files path Fresh (history s) = Some q \<and>
     q \<in> {Fresh, Refused, Opened, Locked, Bound, Serving} \<and>
     filter (\<lambda>h. h \<noteq> Stop_host_interface) (h_atexit s) = handlers_at q \<and>
     (q \<noteq> Fresh \<longrightarrow> h_lockfile s = Some (lockfile_of path) \<and> opt_socket (h_options s) = Some path)"

definition follows :: "string \<Rightarrow> helper \<Rightarrow> bool" where
  "follows path s \<longleftrightarrow> (\<exists>q. at_stage path q s)"

lemma at_stage_follows: "at_stage path q s \<Longrightarrow> follows path s"
  by (auto simp: follows_def)

text \<open>A part of the program that leaves the two files alone.\<close>

definition no_files :: "helper \<Rightarrow> helper \<Rightarrow> bool" where
  "no_files s t \<longleftrightarrow> (\<exists>g. history t = history s @ g \<and> list_all (\<lambda>e. \<not> on_files (fst e)) g) \<and>
     filter (\<lambda>h. h \<noteq> Stop_host_interface) (h_atexit t) =
       filter (\<lambda>h. h \<noteq> Stop_host_interface) (h_atexit s) \<and>
     h_lockfile t = h_lockfile s \<and> h_options t = h_options s"

interpretation files_order: step_order no_files
  by unfold_locales (auto simp: no_files_def)

lemma run_files_other: "list_all (\<lambda>e. \<not> on_files (fst e)) g \<Longrightarrow> run_files path q g = Some q"
  by (induction g) (auto simp: file_next_other)

lemma no_files_at: "no_files s t \<Longrightarrow> at_stage path q s \<Longrightarrow> at_stage path q t"
  unfolding no_files_def at_stage_def by (elim exE conjE) (simp add: run_files_append run_files_other)

subsection \<open>The code follows the protocol\<close>

lemma lockfile_differs [simp]: "lockfile_of path \<noteq> path" "path \<noteq> lockfile_of path"
  by (simp_all add: lockfile_of_def)

text \<open>A call that leads to a stage with the same exit handlers.\<close>

lemma at_stage_call:
  assumes "at_stage path q s" and "file_next path q (c, Some a) = Some q'"
    and "handlers_at q' = handlers_at q" and "q' \<in> {Fresh, Refused, Opened, Locked, Bound, Serving}"
    and "q' \<noteq> Fresh \<Longrightarrow> h_lockfile s = Some (lockfile_of path) \<and> opt_socket (h_options s) = Some path"
  shows "at_stage path q' (s\<lparr>answers := as, history := history s @ [(c, Some a)]\<rparr>)"
  using assms by (auto simp: at_stage_def run_files_append)

lemma at_stage_other:
  assumes "at_stage path q s" and "\<not> on_files c"
  shows "at_stage path q (s\<lparr>answers := as, history := history s @ [(c, Some a)]\<rparr>)"
  using assms by (auto simp: at_stage_def run_files_append file_next_other)

lemma at_stage_set:
  "at_stage path q (set_fd fd s) = at_stage path q s"
  "at_stage path Fresh (s\<lparr>h_lockfile := v\<rparr>) = at_stage path Fresh s"
  by (simp_all add: at_stage_def set_fd_def)

lemma triple_register:
  assumes "file_next path q (Atexit h, Some (Returns 0)) = Some q'"
    and "handlers_at q' = h # handlers_at q" and "h \<noteq> Stop_host_interface"
    and "q \<in> {Opened, Bound}"
  shows "triple (at_stage path q) (register_exit h) (\<lambda>_. at_stage path q') (follows path)"
  unfolding register_exit_def
proof (rule triple_seq)
  let ?R = "\<lambda>s. run_files path Fresh (history s) = Some q' \<and>
    filter (\<lambda>h. h \<noteq> Stop_host_interface) (h_atexit s) = handlers_at q \<and>
    h_lockfile s = Some (lockfile_of path) \<and> opt_socket (h_options s) = Some path"
  show "triple (at_stage path q) (must (Atexit h)) (\<lambda>_. ?R) (follows path)"
  proof (rule triple_must)
    fix s a as assume s: "at_stage path q s" and a: "answers s = a # as" and ok: "0 \<le> retval a"
    have "file_next path q (Atexit h, Some a) = Some q'"
      using assms(1,3,4) ok by (cases h) (auto split: if_splits)
    then show "?R (s\<lparr>answers := as, history := history s @ [(Atexit h, Some a)]\<rparr>)"
      using s assms(4) by (auto simp: at_stage_def run_files_append)
  next
    fix s a as assume s: "at_stage path q s" and a: "answers s = a # as" and f: "retval a < 0"
    have "file_next path q (Atexit h, Some a) = Some q"
      using assms(1,3,4) f by (cases h) (auto split: if_splits)
    then show "follows path (s\<lparr>answers := as, history := history s @ [(Atexit h, Some a)]\<rparr>)"
      using s assms(4) by (intro at_stage_follows[of path q]) (auto simp: at_stage_def run_files_append)
  qed (rule at_stage_follows)
  show "triple ?R (modify (\<lambda>s. s\<lparr>h_atexit := h # h_atexit s\<rparr>)) (\<lambda>_. at_stage path q') (follows path)"
    using assms(1-4) by (intro triple_modify) (cases h; auto simp: at_stage_def split: if_splits)
qed

lemma triple_must_other:
  assumes "\<not> on_files c"
  shows "triple (at_stage path q) (must c) (\<lambda>_. at_stage path q) (follows path)"
  by (rule triple_must) (auto intro: at_stage_other[OF _ assms] at_stage_follows)

lemma triple_sys_other:
  assumes "\<not> on_files c"
  shows "triple (at_stage path q) (sys c) (\<lambda>_. at_stage path q) (follows path)"
  by (rule triple_sys) (auto intro: at_stage_other[OF _ assms] at_stage_follows)

definition has_path :: "string \<Rightarrow> helper \<Rightarrow> bool" where
  "has_path path s \<longleftrightarrow> opt_socket (h_options s) = Some path"

lemma triple_socket_path:
  assumes "\<And>s. P s \<Longrightarrow> has_path path s"
  shows "triple P socket_path (\<lambda>v s. v = path \<and> P s) E"
  using assms by (auto simp: triple_def socket_path_def has_path_def prog_simps)

lemma create_socket_lockfile_follows:
  "triple (\<lambda>s. at_stage path Fresh s \<and> has_path path s) create_socket_lockfile
     (\<lambda>_. at_stage path Locked) (follows path)"
  unfolding create_socket_lockfile_def
proof (rule triple_bind[OF triple_socket_path])
  fix v
  let ?P = "\<lambda>s. v = path \<and> at_stage path Fresh s \<and> has_path path s"
  let ?R = "\<lambda>s. v = path \<and> at_stage path Fresh s \<and> has_path path s \<and> h_lockfile s = Some (lockfile_of path)"
  show "triple ?P (seq (must (Asprintf (lockfile_of v)))
    (seq (modify (\<lambda>s. s\<lparr>h_lockfile := Some (lockfile_of v)\<rparr>))
    (seq (must (Open_lockfile (lockfile_of v))) (register_exit Remove_socket_lockfile))))
      (\<lambda>_. at_stage path Locked) (follows path)"
  proof (rule triple_seq[where R = ?P], goal_cases)
    case 1
    show ?case
      by (rule triple_must)
         (auto simp: has_path_def intro: at_stage_other at_stage_follows at_stage_follows[OF at_stage_other])
  next
    case 2
    show ?case
    proof (rule triple_seq[where R = ?R], goal_cases)
      case 1
      show ?case by (rule triple_modify) (auto simp: at_stage_set has_path_def)
    next
      case 2
      show ?case
      proof (rule triple_seq[where R = "at_stage path Opened"], goal_cases)
        case 1
        show ?case
          by (rule triple_must)
             (auto simp: has_path_def intro!: at_stage_call at_stage_follows[of path Refused, OF at_stage_call]
               intro: at_stage_follows)
      next
        case 2
        show ?case by (rule triple_register) auto
      qed
    qed
  qed
qed simp

lemma set_socket_buffers_follows:
  "triple (at_stage path q) (set_socket_buffers fd) (\<lambda>_. at_stage path q) (follows path)"
proof -
  have gets: "triple (at_stage path q) (gets f) (\<lambda>_. at_stage path q) (follows path)" for f :: "helper \<Rightarrow> int"
    by (rule triple_gets)
  show ?thesis
    unfolding set_socket_buffers_def
    by (rule triple_bind[OF triple_sys_other], simp, rule triple_bind[OF gets],
        rule triple_bind[OF triple_sys_other], simp, rule triple_ret)
qed

text \<open>The address is the whole path when it is as short as \<open>parse_socket\<close> requires.\<close>

lemma create_socket_follows:
  assumes "length path < sizeof_sun_path"
  shows "triple (at_stage path Locked) create_socket (\<lambda>_. at_stage path Serving) (follows path)"
proof -
  have whole: "sun_path path = path" using assms by (simp add: sun_path_def)
  have exit: "triple (at_stage path q) (if b then exit_with EXIT_FAILURE else ret ())
      (\<lambda>_. at_stage path q) (follows path)" for b q
    by (auto intro: triples at_stage_follows)
  have facts: "at_stage path q s \<Longrightarrow> q \<noteq> Fresh \<Longrightarrow>
      h_lockfile s = Some (lockfile_of path) \<and> opt_socket (h_options s) = Some path" for q s
    by (simp add: at_stage_def)
  have remove: "triple (at_stage path Locked) (sys (Remove path)) (\<lambda>_. at_stage path Locked) (follows path)"
    by (rule triple_sys) (auto intro: at_stage_call at_stage_follows dest: facts)
  have bind: "triple (at_stage path Locked) (must (Bind fd path)) (\<lambda>_. at_stage path Bound) (follows path)" for fd
    by (rule triple_must)
       (auto intro: at_stage_call at_stage_follows intro!: at_stage_follows[OF at_stage_call] dest: facts)
  have chmod: "triple (at_stage path Bound) (must (Chmod path)) (\<lambda>_. at_stage path Bound) (follows path)"
    by (rule triple_must)
       (auto intro: at_stage_call at_stage_follows intro!: at_stage_follows[OF at_stage_call] dest: facts)
  have set_fd: "triple (at_stage path q) (modify (set_fd fd)) (\<lambda>_. at_stage path q) (follows path)" for q fd
    by (rule triple_modify) (simp add: at_stage_set)
  have reg: "triple (at_stage path Bound) (register_exit Remove_socket_silently)
      (\<lambda>_. at_stage path Serving) (follows path)"
    by (rule triple_register) auto
  have path: "triple (at_stage path Locked) socket_path (\<lambda>v s. v = path \<and> at_stage path Locked s) (follows path)"
    by (rule triple_socket_path) (simp add: has_path_def at_stage_def)
  have place: "triple (at_stage path Locked) (place_socket fd) (\<lambda>_. at_stage path Serving) (follows path)" for fd
    unfolding place_socket_def
  proof (rule triple_bind[OF path], goal_cases)
    case (1 v)
    show ?case
    proof (cases "v = path")
      case True
      show ?thesis
        unfolding True whole
        by simp (rule triple_bind[OF remove] triple_seq[OF exit] triple_seq[OF bind]
          triple_seq[OF chmod] reg)+
    qed (simp add: triple_def)
  qed
  show ?thesis
    unfolding create_socket_def
    by (rule triple_bind[OF triple_sys_other] triple_seq[OF set_fd] triple_seq[OF exit]
      triple_seq[OF set_socket_buffers_follows] place; (simp; fail)?)+
qed

text \<open>The rest of the program leaves the files alone, so it stays at its stage.\<close>

lemma no_files_sys [intro]: "\<not> on_files c \<Longrightarrow> preserves no_files (sys c)"
  by (auto simp: preserves_def sys_def no_files_def split: list.splits)

lemma no_files_emit [intro]: "\<not> on_files c \<Longrightarrow> preserves no_files (emit c)"
  by (auto simp: preserves_def emit_def no_files_def)

lemma no_files_modify [intro]:
  "(\<And>s. history (f s) = history s \<and> h_atexit (f s) = h_atexit s \<and> h_lockfile (f s) = h_lockfile s \<and>
    h_options (f s) = h_options s) \<Longrightarrow> preserves no_files (modify f)"
  by (simp add: preserves_def modify_def no_files_def)

lemma no_files_must [intro]: "\<not> on_files c \<Longrightarrow> preserves no_files (must c)"
  unfolding must_def by (intro files_order.pres_bind no_files_sys) auto

lemma no_files_triple:
  assumes "preserves no_files m"
  shows "triple (at_stage path q) m (\<lambda>_. at_stage path q) (follows path)"
  unfolding triple_def
proof (intro allI impI)
  fix s r t assume "at_stage path q s" "m s = (r, t)"
  then have "at_stage path q t" using preservesD[OF assms] no_files_at by blast
  then show "case r of Done x \<Rightarrow> at_stage path q t | _ \<Rightarrow> follows path t"
    by (cases r) (auto intro: at_stage_follows)
qed

lemmas no_files_repeat = preserves_repeat[OF files_order.step_order_axioms]

lemma no_files_must_be_zero [intro]: "\<not> on_files c \<Longrightarrow> preserves no_files (must_be_zero c)"
  unfolding must_be_zero_def by (intro files_order.pres_bind no_files_sys) auto

lemma no_files_wait_for_client: "preserves no_files wait_for_client"
proof -
  have "preserves no_files client_round"
    unfolding client_round_def
    by (intro files_order.pres_bind no_files_sys) (auto split: option.splits)
  then show ?thesis
    unfolding wait_for_client_def
    by (intro files_order.pres_bind files_order.pres_gets files_order.pres_seq
        no_files_must_be_zero no_files_repeat) simp_all
qed

lemma no_files_connect_socket: "preserves no_files connect_socket"
  unfolding connect_socket_def
  by (intro files_order.pres_bind files_order.pres_gets no_files_sys)
     (auto split: hans.split intro!: files_order.pres_seq files_order.pres_whenp no_files_must)

text \<open>The whole set-up, from a process that has not touched the files.\<close>

lemma setup_socket_follows:
  assumes "length path < sizeof_sun_path"
  shows "triple (\<lambda>s. at_stage path Fresh s \<and> (opt_fd (h_options s) = -1 \<longrightarrow> has_path path s)) setup_socket
     (\<lambda>_. follows path) (follows path)"
proof -
  have all: "triple (\<lambda>s. at_stage path Fresh s \<and> has_path path s)
      (seq create_socket_lockfile (seq create_socket (seq wait_for_client connect_socket)))
      (\<lambda>_. at_stage path Serving) (follows path)"
    by (rule triple_seq[OF create_socket_lockfile_follows] triple_seq[OF create_socket_follows[OF assms]]
      triple_seq[OF no_files_triple[OF no_files_wait_for_client]]
      no_files_triple[OF no_files_connect_socket])+
  show ?thesis
    unfolding triple_def setup_socket_def
  proof (intro allI impI, elim conjE)
    fix s r t
    assume s: "at_stage path Fresh s" "opt_fd (h_options s) = -1 \<longrightarrow> has_path path s"
      and run: "bind (gets (\<lambda>s. opt_fd (h_options s))) (\<lambda>fd. if fd \<noteq> -1 then ret ()
         else seq create_socket_lockfile (seq create_socket (seq wait_for_client connect_socket))) s = (r, t)"
    show "case r of Done x \<Rightarrow> follows path t | _ \<Rightarrow> follows path t"
    proof (cases "opt_fd (h_options s) = -1")
      case True
      then have "seq create_socket_lockfile (seq create_socket (seq wait_for_client connect_socket)) s = (r, t)"
        using run by (simp add: bind_def gets_def)
      then show ?thesis
        using all s True unfolding triple_def
        by (cases r) (fastforce intro: at_stage_follows)+
    next
      case False
      then show ?thesis
        using run s by (auto simp: bind_def gets_def ret_def intro: at_stage_follows)
    qed
  qed
qed

lemma no_files_follows:
  assumes "preserves no_files m"
  shows "triple (follows path) m (\<lambda>_. follows path) (follows path)"
  using assms unfolding triple_preserves preserves_def follows_def by (meson no_files_at)

text \<open>
  The exit handlers at the end of a process that follows the protocol: the socket is removed while
  the lock is still held, and then the lock file.
\<close>

lemma no_files_stop: "preserves no_files stop_host_interface"
  unfolding stop_host_interface_def
  by (intro files_order.pres_bind files_order.pres_gets)
     (auto intro!: files_order.pres_bind no_files_sys)

definition leaving :: "string \<Rightarrow> exit_handler list \<Rightarrow> helper \<Rightarrow> bool" where
  "leaving path hs s \<longleftrightarrow> (\<exists>q. run_files path Fresh (history s) = Some q \<and>
     filter (\<lambda>h. h \<noteq> Stop_host_interface) hs =
       (if q = Leaving then [Remove_socket_lockfile] else handlers_at q) \<and>
     (q \<in> {Locked, Bound, Serving, Leaving} \<longrightarrow> h_lockfile s = Some (lockfile_of path)) \<and>
     (q = Serving \<longrightarrow> has_path path s))"

definition follows_to_end :: "string \<Rightarrow> helper \<Rightarrow> bool" where
  "follows_to_end path s \<longleftrightarrow> (\<exists>q. run_files path Fresh (history s) = Some q)"

lemma leaving_end: "leaving path hs s \<Longrightarrow> follows_to_end path s"
  by (auto simp: leaving_def follows_to_end_def)

lemma leaving_stop:
  "triple (leaving path (Stop_host_interface # hs)) stop_host_interface
     (\<lambda>_. leaving path hs) (follows_to_end path)"
  unfolding triple_def
proof (intro allI impI)
  fix s r t
  assume l: "leaving path (Stop_host_interface # hs) s" and run: "stop_host_interface s = (r, t)"
  have "no_files s t" using preservesD[OF no_files_stop run] .
  with l have "leaving path hs t"
    unfolding leaving_def no_files_def has_path_def
    by (elim exE conjE) (auto simp: run_files_append run_files_other)
  then show "case r of Done x \<Rightarrow> leaving path hs t | _ \<Rightarrow> follows_to_end path t"
    by (cases r) (auto intro: leaving_end)
qed

lemma leaving_lockfile:
  "triple (leaving path (Remove_socket_lockfile # hs)) remove_socket_lockfile
     (\<lambda>_. leaving path hs) (follows_to_end path)"
  unfolding triple_def
proof (intro allI impI)
  fix s r t
  assume l: "leaving path (Remove_socket_lockfile # hs) s"
    and run: "remove_socket_lockfile s = (r, t)"
  then obtain q where q: "run_files path Fresh (history s) = Some q"
    "q \<in> {Locked, Bound, Leaving}" "h_lockfile s = Some (lockfile_of path)"
    "filter (\<lambda>h. h \<noteq> Stop_host_interface) hs = []"
    unfolding leaving_def by (elim exE conjE, case_tac q) (auto split: if_splits)
  show "case r of Done x \<Rightarrow> leaving path hs t | _ \<Rightarrow> follows_to_end path t"
  proof (cases "answers s")
    case Nil
    then show ?thesis
      using run q by (auto simp: remove_socket_lockfile_def bind_def gets_def follows_to_end_def)
  next
    case (Cons a as)
    have "file_next path q (Remove (lockfile_of path), Some a) = Some Gone" using q(2) by auto
    then show ?thesis
      using run q Cons
      by (auto simp: remove_socket_lockfile_def bind_def gets_def modify_def leaving_def run_files_append)
  qed
qed

lemma leaving_socket:
  "triple (leaving path (Remove_socket_silently # hs)) remove_socket_silently
     (\<lambda>_. leaving path hs) (follows_to_end path)"
  unfolding triple_def
proof (intro allI impI)
  fix s r t
  assume l: "leaving path (Remove_socket_silently # hs) s"
    and run: "remove_socket_silently s = (r, t)"
  then obtain q where q: "run_files path Fresh (history s) = Some q"
    "q = Serving" "h_lockfile s = Some (lockfile_of path)" "opt_socket (h_options s) = Some path"
    "filter (\<lambda>h. h \<noteq> Stop_host_interface) hs = [Remove_socket_lockfile]"
    unfolding leaving_def has_path_def by (elim exE conjE, case_tac q) (auto split: if_splits)
  show "case r of Done x \<Rightarrow> leaving path hs t | _ \<Rightarrow> follows_to_end path t"
  proof (cases "answers s")
    case Nil
    then show ?thesis
      using run q by (auto simp: remove_socket_silently_def bind_def gets_def follows_to_end_def)
  next
    case (Cons a as)
    have "file_next path q (Remove path, Some a) = Some Leaving" using q(2) by auto
    then show ?thesis
      using run q Cons
      by (auto simp: remove_socket_silently_def bind_def gets_def modify_def leaving_def run_files_append)
  qed
qed

lemma leaving_handlers:
  "triple (leaving path hs) (run_handlers hs) (\<lambda>_. leaving path []) (follows_to_end path)"
proof (induction hs)
  case (Cons h hs)
  have "triple (leaving path (h # hs)) (run_handler h) (\<lambda>_. leaving path hs) (follows_to_end path)"
    using leaving_stop leaving_lockfile leaving_socket by (cases h) simp_all
  from triple_seq[OF this Cons] show ?case by simp
qed (simp add: triple_ret)

lemma exit_process_follows:
  "triple (follows path) exit_process (\<lambda>_. leaving path []) (follows_to_end path)"
  unfolding triple_def
proof (intro allI impI)
  fix s r t assume "follows path s" and run: "exit_process s = (r, t)"
  then have "leaving path (h_atexit s) s"
    by (auto simp: follows_def at_stage_def leaving_def has_path_def)
  moreover have "run_handlers (h_atexit s) s = (r, t)"
    using run by (simp add: exit_process_def bind_def gets_def)
  ultimately show "case r of Done x \<Rightarrow> leaving path [] t | _ \<Rightarrow> follows_to_end path t"
    using leaving_handlers unfolding triple_def by blast
qed

text \<open>What is left behind: without a registered handler, the file stays.\<close>

lemma leaving_over:
  "leaving path [] s \<Longrightarrow> \<exists>q. run_files path Fresh (history s) = Some q \<and> q \<in> {Fresh, Refused, Opened, Gone}"
  unfolding leaving_def by (elim exE conjE, case_tac q) (auto split: if_splits)

section \<open>The calls of the set-up\<close>

text \<open>What is done before the wait for a client, and after it.\<close>

definition socket_calls :: "string \<Rightarrow> int \<Rightarrow> bool \<Rightarrow> hcall list" where
  "socket_calls path fd tso =
     [Asprintf (lockfile_of path), Open_lockfile (lockfile_of path), Atexit Remove_socket_lockfile,
      Socket, Setsockopt_sndbuf fd 66560,
      Setsockopt_rcvbuf fd (if tso then 8388608 else 4194304),
      Remove path, Bind fd (sun_path path), Chmod path, Atexit Remove_socket_silently]"

definition client_calls :: "int \<Rightarrow> string \<Rightarrow> int \<Rightarrow> hcall list" where
  "client_calls fd client n = [Recvfrom_peek fd 64, Connect fd client] @ (if n < 64 then [Read fd 64] else [])"

lemma create_socket_lockfile_Done:
  assumes "create_socket_lockfile s = (Done u, t)" and "opt_socket (h_options s) = Some path"
  shows "makes_calls [Asprintf (lockfile_of path), Open_lockfile (lockfile_of path), Atexit Remove_socket_lockfile] s t \<and>
    h_options t = h_options s \<and> h_atexit t = Remove_socket_lockfile # h_atexit s"
  using assms
  by (auto simp: create_socket_lockfile_def socket_path_def prog_ends must_Done register_exit_Done
      makes_calls_def)

lemma create_socket_Done:
  assumes "create_socket s = (Done u, t)" and "opt_socket (h_options s) = Some path"
  shows "\<exists>fd. makes_calls (drop 3 (socket_calls path fd (opt_enable_tso (h_options s)))) s t \<and> 0 \<le> fd \<and>
    h_options t = (h_options s)\<lparr>opt_fd := fd\<rparr> \<and> h_atexit t = Remove_socket_silently # h_atexit s"
proof -
  obtain a s1 where a: "sys Socket s = (Done a, s1)" and ok: "0 \<le> retval a"
    using assms(1) by (auto simp: create_socket_def prog_ends split: if_splits)
  obtain s2 where s2: "set_socket_buffers (retval a) (set_fd (retval a) s1) = (Done (), s2)"
    and rest: "place_socket (retval a) s2 = (Done u, t)"
    using assms(1) a ok by (auto simp: create_socket_def prog_ends split: if_splits)
  have p1: "makes_calls [Socket] s (set_fd (retval a) s1)"
    using a by (auto simp: sys_Done makes_calls_def set_fd_def)
  have o1: "h_options s1 = h_options s" "h_atexit s1 = h_atexit s" using a by (auto simp: sys_Done)
  have p2: "makes_calls [Setsockopt_sndbuf (retval a) 66560, Setsockopt_rcvbuf (retval a)
      (if opt_enable_tso (h_options s) then 8388608 else 4194304)] (set_fd (retval a) s1) s2"
    and o2: "h_options s2 = (h_options s)\<lparr>opt_fd := retval a\<rparr>" "h_atexit s2 = h_atexit s"
    using s2 o1
    by (auto simp: set_socket_buffers_def prog_ends sys_Done makes_calls_def SEND_BUFFER_SIZE_def
        RECV_BUFFER_SIZE_def RECV_BUFFER_SIZE_OFFLOAD_def set_fd_def)
  have path: "socket_path s2 = (Done path, s2)"
    using assms(2) o2 by (simp add: socket_path_def bind_def gets_def ret_def)
  have p3: "makes_calls [Remove path, Bind (retval a) (sun_path path), Chmod path, Atexit Remove_socket_silently] s2 t"
    and o3: "h_options t = h_options s2" "h_atexit t = Remove_socket_silently # h_atexit s2"
    using rest path
    by (auto simp: place_socket_def prog_ends sys_Done must_Done register_exit_Done makes_calls_def split: if_splits)
  from makes_calls_trans[OF makes_calls_trans[OF p1 p2] p3] o2 o3 ok show ?thesis
    by (intro exI[of _ "retval a"]) (simp add: socket_calls_def)
qed

lemma connect_socket_Done:
  assumes "connect_socket s = (Done u, t)"
  shows "\<exists>n client g. history t = history s @ (Recvfrom_peek (opt_fd (h_options s)) 64, Some (Received n client)) # g \<and>
    0 \<le> n \<and> map fst g = tl (client_calls (opt_fd (h_options s)) client n) \<and>
    h_options t = h_options s \<and> h_atexit t = h_atexit s"
proof -
  obtain a s1 where a: "sys (Recvfrom_peek (opt_fd (h_options s)) 64) s = (Done a, s1)"
    using assms by (auto simp: connect_socket_def prog_ends)
  show ?thesis
  proof (cases a)
    case (Received n client)
    have 0: "0 \<le> n" and c: "seq (must (Connect (opt_fd (h_options s)) client))
        (whenp (n < 64) (seq (must (Read (opt_fd (h_options s)) 64)) (ret ()))) s1 = (Done u, t)"
      using assms a Received by (auto simp: connect_socket_def prog_ends split: if_splits)
    have s1: "history s1 = history s @ [(Recvfrom_peek (opt_fd (h_options s)) 64, Some a)]"
      "h_options s1 = h_options s" "h_atexit s1 = h_atexit s"
      using a by (auto simp: sys_Done)
    show ?thesis
    proof (cases "n < 64")
      case True
      with c show ?thesis
        using s1 0 Received
        by (intro exI[of _ n] exI[of _ client])
           (auto simp: prog_ends must_Done client_calls_def whenp_def)
    next
      case False
      with c show ?thesis
        using s1 0 Received
        by (intro exI[of _ n] exI[of _ client])
           (auto simp: prog_ends must_Done client_calls_def whenp_def)
    qed
  qed (use assms a in \<open>simp_all add: connect_socket_def bind_def gets_def\<close>)
qed

text \<open>
  The wait for the first client: the filter of the socket is added, nothing but an event of the
  socket ends the wait, and the filter is deleted again.
\<close>

definition client_wait :: "int \<Rightarrow> (hcall \<times> hans option) list \<Rightarrow> bool" where
  "client_wait fd h \<longleftrightarrow> (\<exists>a g e b. h = [(Kevent_change [fd_event fd EV_ADD], Some a)] @ g @
     [(Kevent_wait, Some (Event e)), (Kevent_change [fd_event fd EV_DELETE], Some b)] \<and>
     list_all no_client g \<and> ev_filter e = EVFILT_READ)"

lemma client_waited:
  assumes "wait_for_client s = (Done (), t)" and "opt_fd (h_options s) = fd"
  obtains g where "history t = history s @ g" "client_wait fd g" "h_options t = h_options s" "h_atexit t = h_atexit s"
  by (rule wait_for_client_Done[OF assms(1) assms(2)[symmetric]], rule that)
     (simp_all add: client_wait_def, blast)

text \<open>
  C24: When the set-up of the socket returns, it made exactly these calls: the lock file, then the
  socket with its buffers, bound at the path after a stale socket was removed and made private, each
  with its exit handler once it exists; then the wait for an event of that socket, with its filter
  added before and deleted after, in which no signal arrived; then the first packet is peeked at, its
  sender connected, and the packet dropped exactly when it is shorter than 64 bytes.  The socket is
  the newest exit handler, so it is removed before the lock file.
\<close>

theorem setup_socket_sequence:
  assumes "setup_socket s = (Done u, t)" and "opt_fd (h_options s) = -1"
    and "opt_socket (h_options s) = Some path"
  shows "\<exists>fd g1 g2 g3 n client. history t = history s @ g1 @ g2 @ g3 \<and>
    map fst g1 = socket_calls path fd (opt_enable_tso (h_options s)) \<and> client_wait fd g2 \<and>
    map fst g3 = client_calls fd client n \<and> snd (hd g3) = Some (Received n client) \<and>
    0 \<le> fd \<and> 0 \<le> n \<and> opt_fd (h_options t) = fd \<and>
    h_atexit t = [Remove_socket_silently, Remove_socket_lockfile] @ h_atexit s"
proof -
  obtain t1 t2 t3 where c1: "create_socket_lockfile s = (Done (), t1)"
    and c2: "create_socket t1 = (Done (), t2)" and c3: "wait_for_client t2 = (Done (), t3)"
    and c4: "connect_socket t3 = (Done u, t)"
    using assms by (auto simp: setup_socket_def prog_ends)
  note l = create_socket_lockfile_Done[OF c1 assms(3)]
  then obtain fd where f: "0 \<le> fd" "h_options t2 = (h_options s)\<lparr>opt_fd := fd\<rparr>"
      "h_atexit t2 = Remove_socket_silently # Remove_socket_lockfile # h_atexit s"
    and m2: "makes_calls (drop 3 (socket_calls path fd (opt_enable_tso (h_options s)))) t1 t2"
    using create_socket_Done[OF c2, of path] assms(3) by auto
  from l have "makes_calls (take 3 (socket_calls path fd (opt_enable_tso (h_options s)))) s t1"
    by (simp add: socket_calls_def)
  from makes_calls_trans[OF this m2] obtain g1 where g1: "history t2 = history s @ g1"
    "map fst g1 = socket_calls path fd (opt_enable_tso (h_options s))"
    by (auto simp: makes_calls_def)
  have "opt_fd (h_options t2) = fd" by (simp add: f(2))
  from client_waited[OF c3 this] obtain g2 where w: "history t3 = history t2 @ g2" "client_wait fd g2"
    "h_options t3 = h_options t2" "h_atexit t3 = h_atexit t2" .
  obtain n client g where c: "history t = history t3 @ (Recvfrom_peek fd 64, Some (Received n client)) # g"
    "0 \<le> n" "map fst g = tl (client_calls fd client n)" "h_options t = h_options t3" "h_atexit t = h_atexit t3"
    using connect_socket_Done[OF c4] w f by auto
  let ?g3 = "(Recvfrom_peek fd 64, Some (Received n client)) # g"
  have "map fst ?g3 = client_calls fd client n" using c(3) by (simp add: client_calls_def)
  moreover have "history t = history s @ g1 @ g2 @ ?g3" using c(1) w(1) g1(1) by simp
  ultimately show ?thesis
    using c f w g1(2) by (intro exI[of _ fd] exI[of _ g1] exI[of _ g2] exI[of _ ?g3] exI[of _ n]
        exI[of _ client]) simp
qed

definition sample_socket_answers :: "hans list" where
  "sample_socket_answers = [Returns 0, Returns 7, Returns 0, Returns 5, Returns 0, Returns 0,
     Fails ENOENT, Returns 0, Returns 0, Returns 0, Returns 0, Event (an_event EVFILT_READ 5 0),
     Returns 0, Received 4 ''/tmp/c'', Returns 0, Returns 4]"

theorem setup_socket_sequence_witness:
  "\<exists>t. setup_socket (sample_helper sample_options sample_socket_answers) = (Done (), t) \<and>
     h_atexit t = [Remove_socket_silently, Remove_socket_lockfile]"
proof -
  let ?s = "sample_helper sample_options sample_socket_answers"
  have o: "opt_socket sample_options = Some ''/tmp/s''" "opt_fd sample_options = -1" by code_simp+
  have "fst (setup_socket ?s) = Done ()" by code_simp
  then have r: "setup_socket ?s = (Done (), snd (setup_socket ?s))" by (metis prod.collapse)
  from setup_socket_sequence[OF r, of "''/tmp/s''"] o r show ?thesis
    by (auto simp: sample_helper_def)
qed

end
