(* ===== verification/Rendezvous.thy ===== *)
theory Rendezvous
  imports Socket
begin

text \<open>
  Any number of helpers started with the same \<open>--socket\<close> path.  Each follows the protocol of
  \<open>Socket\<close> at its own pace and may be killed at any point; the kernel answers by the state of the
  two files.  A lock file is an inode: \<open>open\<close> with \<open>O_EXLOCK\<close> opens or creates the file and takes
  its lock in one step, removing the file removes the name only, and a process keeps its lock until
  it ends.
\<close>

section \<open>The two files\<close>

text \<open>
  \<open>lk_name\<close>: the inode the lock file's name leads to; \<open>lk_held\<close>: the inode a process has locked;
  \<open>lk_next\<close>: the next inode number; \<open>sk_owner\<close>: the process whose socket is bound at the path.
\<close>

record files =
  lk_name :: "nat option"
  lk_held :: "nat \<Rightarrow> nat option"
  lk_next :: nat
  sk_owner :: "nat option"

definition lock_free :: "files \<Rightarrow> bool" where
  "lock_free f \<longleftrightarrow> (\<forall>p. lk_held f p = None \<or> lk_held f p \<noteq> lk_name f)"

definition lock_inode :: "files \<Rightarrow> nat" where
  "lock_inode f = (case lk_name f of None \<Rightarrow> lk_next f | Some i \<Rightarrow> i)"

definition take_lock :: "nat \<Rightarrow> files \<Rightarrow> files" where
  "take_lock p f = f\<lparr>lk_name := Some (lock_inode f), lk_held := (lk_held f)(p := Some (lock_inode f)),
     lk_next := (if lk_name f = None then Suc (lk_next f) else lk_next f)\<rparr>"

text \<open>
  A call of process \<open>p\<close>, the answer, and the files after it.  A refused \<open>open\<close> may have created the
  file; \<open>bind\<close> needs the name to be free.
\<close>

inductive file_call :: "string \<Rightarrow> nat \<Rightarrow> hcall \<Rightarrow> hans \<Rightarrow> files \<Rightarrow> files \<Rightarrow> bool"
  for path :: string and p :: nat where
  open_ok: "lock_free f \<Longrightarrow> 0 \<le> retval a \<Longrightarrow>
    file_call path p (Open_lockfile l) a f (take_lock p f)"
| open_fails: "retval a < 0 \<Longrightarrow> file_call path p (Open_lockfile l) a f f"
| open_creates: "retval a < 0 \<Longrightarrow> lk_name f = None \<Longrightarrow>
    file_call path p (Open_lockfile l) a f (f\<lparr>lk_name := Some (lk_next f), lk_next := Suc (lk_next f)\<rparr>)"
| bind_ok: "sk_owner f = None \<Longrightarrow> 0 \<le> retval a \<Longrightarrow>
    file_call path p (Bind fd path) a f (f\<lparr>sk_owner := Some p\<rparr>)"
| bind_fails: "retval a < 0 \<Longrightarrow> file_call path p (Bind fd x) a f f"
| remove_socket: "0 \<le> retval a \<Longrightarrow> file_call path p (Remove path) a f (f\<lparr>sk_owner := None\<rparr>)"
| remove_lockfile: "0 \<le> retval a \<Longrightarrow>
    file_call path p (Remove (lockfile_of path)) a f (f\<lparr>lk_name := None\<rparr>)"
| remove_fails: "retval a < 0 \<Longrightarrow> file_call path p (Remove x) a f f"
| other: "(\<forall>l. c \<noteq> Open_lockfile l) \<Longrightarrow> (\<forall>fd x. c \<noteq> Bind fd x) \<Longrightarrow> (\<forall>x. c \<noteq> Remove x) \<Longrightarrow>
    file_call path p c a f f"

inductive_cases file_callE: "file_call path p c a f g"

section \<open>The processes\<close>

text \<open>A process that has ended: no stage.\<close>

record world =
  w_stage :: "nat \<Rightarrow> stage option"
  w_files :: files

definition set_stage :: "nat \<Rightarrow> stage option \<Rightarrow> world \<Rightarrow> world" where
  "set_stage p q w = w\<lparr>w_stage := (w_stage w)(p := q)\<rparr>"

definition drop_lock :: "nat \<Rightarrow> files \<Rightarrow> files" where
  "drop_lock p f = f\<lparr>lk_held := (lk_held f)(p := None)\<rparr>"

inductive world_step :: "string \<Rightarrow> world \<Rightarrow> world \<Rightarrow> bool" for path :: string where
  call: "w_stage w p = Some q \<Longrightarrow> file_next path q (c, Some a) = Some q' \<Longrightarrow>
    file_call path p c a (w_files w) f \<Longrightarrow>
    world_step path w ((set_stage p (Some q') w)\<lparr>w_files := f\<rparr>)"
| ends: "w_stage w p = Some q \<Longrightarrow>
    world_step path w ((set_stage p None w)\<lparr>w_files := drop_lock p (w_files w)\<rparr>)"

text \<open>At the start no process has touched the files, which may be there from earlier runs.\<close>

definition world_start :: "world \<Rightarrow> bool" where
  "world_start w \<longleftrightarrow> (\<forall>p. w_stage w p \<in> {None, Some Fresh}) \<and>
     (\<forall>p. lk_held (w_files w) p = None) \<and>
     (\<forall>i. lk_name (w_files w) = Some i \<longrightarrow> i < lk_next (w_files w))"

text \<open>The stages at which a process holds the lock that the name leads to.\<close>

definition holding :: "stage option \<Rightarrow> bool" where
  "holding q \<longleftrightarrow> q \<in> {Some Opened, Some Locked, Some Bound, Some Serving, Some Leaving}"

definition world_inv :: "world \<Rightarrow> bool" where
  "world_inv w \<longleftrightarrow> (let f = w_files w in
     (\<forall>p. holding (w_stage w p) \<longrightarrow> lk_name f \<noteq> None \<and> lk_held f p = lk_name f) \<and>
     (\<forall>p q i. lk_held f p = Some i \<and> lk_held f q = Some i \<longrightarrow> p = q) \<and>
     (\<forall>p. w_stage w p \<in> {Some Bound, Some Serving} \<longrightarrow> sk_owner f = Some p) \<and>
     (\<forall>p i. lk_held f p = Some i \<longrightarrow> i < lk_next f) \<and> (\<forall>i. lk_name f = Some i \<longrightarrow> i < lk_next f))"

lemma holding_simps [simp]:
  "holding (Some q) \<longleftrightarrow> q \<in> {Opened, Locked, Bound, Serving, Leaving}" "\<not> holding None"
  by (auto simp: holding_def)

lemma holding_unique:
  assumes "world_inv w" and "holding (w_stage w p)" and "holding (w_stage w q)"
  shows "p = q"
proof -
  have "lk_name (w_files w) \<noteq> None" "lk_held (w_files w) p = lk_name (w_files w)"
    "lk_held (w_files w) q = lk_name (w_files w)"
    using assms unfolding world_inv_def Let_def by blast+
  with assms(1) show ?thesis unfolding world_inv_def Let_def by (metis not_None_eq)
qed

lemma lock_free_holding:
  assumes "world_inv w" and "lock_free (w_files w)"
  shows "\<not> holding (w_stage w p)"
  using assms unfolding world_inv_def Let_def lock_free_def by metis

text \<open>A step of a process that leaves the files alone and does not come to hold or to bind more.\<close>

lemma world_inv_move:
  assumes "world_inv w" and "holding q' \<Longrightarrow> holding (w_stage w p)"
    and "q' \<in> {Some Bound, Some Serving} \<Longrightarrow> w_stage w p \<in> {Some Bound, Some Serving}"
  shows "world_inv (set_stage p q' w)"
  using assms unfolding world_inv_def set_stage_def Let_def by auto

text \<open>A step of the only process that holds the lock, which changes the names of the files.\<close>

lemma world_inv_alone:
  assumes "world_inv w" and "holding (w_stage w p)"
    and "lk_held f = lk_held (w_files w)" and "lk_next f = lk_next (w_files w)"
    and "lk_name f = lk_name (w_files w) \<or> lk_name f = None \<and> \<not> holding q'"
    and "q' \<in> {Some Bound, Some Serving} \<Longrightarrow> sk_owner f = Some p"
  shows "world_inv ((set_stage p q' w)\<lparr>w_files := f\<rparr>)"
proof -
  have other: "\<not> holding (w_stage w r)" if "r \<noteq> p" for r
    using holding_unique[OF assms(1,2)] that by blast
  let ?st = "(w_stage w)(p := q')"
  have 1: "holding (?st r) \<Longrightarrow> lk_name f \<noteq> None \<and> lk_held f r = lk_name f" for r
  proof -
    assume h: "holding (?st r)"
    then have r: "r = p" using other[of r] by (cases "r = p") simp_all
    then have "lk_name f = lk_name (w_files w)" using h assms(5) by auto
    moreover have "lk_name (w_files w) \<noteq> None \<and> lk_held (w_files w) p = lk_name (w_files w)"
      using assms(1,2) unfolding world_inv_def Let_def by blast
    ultimately show ?thesis using r assms(3) by simp
  qed
  have 2: "?st r \<in> {Some Bound, Some Serving} \<Longrightarrow> sk_owner f = Some r" for r
  proof -
    assume b: "?st r \<in> {Some Bound, Some Serving}"
    then have r: "r = p" using other[of r] by (cases "r = p") auto
    with b assms(6) show ?thesis by simp
  qed
  have 3: "lk_held f r = Some i \<Longrightarrow> lk_held f q = Some i \<Longrightarrow> r = q" for r q i
    using assms(1,3) unfolding world_inv_def Let_def by metis
  have 4: "lk_held f r = Some i \<Longrightarrow> i < lk_next f" "lk_name f = Some i \<Longrightarrow> i < lk_next f" for r i
    using assms(1,3-5) unfolding world_inv_def Let_def by auto
  have eq: "w_stage ((set_stage p q' w)\<lparr>w_files := f\<rparr>) = ?st"
    "w_files ((set_stage p q' w)\<lparr>w_files := f\<rparr>) = f" by (simp_all add: set_stage_def)
  have "\<forall>r. holding (?st r) \<longrightarrow> lk_name f \<noteq> None \<and> lk_held f r = lk_name f" using 1 by blast
  moreover have "\<forall>r q i. lk_held f r = Some i \<and> lk_held f q = Some i \<longrightarrow> r = q" using 3 by blast
  moreover have "\<forall>r. ?st r \<in> {Some Bound, Some Serving} \<longrightarrow> sk_owner f = Some r" using 2 by blast
  moreover have "\<forall>r i. lk_held f r = Some i \<longrightarrow> i < lk_next f" "\<forall>i. lk_name f = Some i \<longrightarrow> i < lk_next f"
    using 4 by blast+
  ultimately show ?thesis unfolding world_inv_def Let_def eq by (intro conjI)
qed

lemma world_inv_open:
  assumes "world_inv w" and "lock_free (w_files w)"
  shows "world_inv ((set_stage p (Some Opened) w)\<lparr>w_files := take_lock p (w_files w)\<rparr>)"
proof -
  let ?f = "w_files w"
  note none = lock_free_holding[OF assms]
  have "lk_held ?f r \<noteq> Some (lock_inode ?f)" for r
    using assms unfolding world_inv_def Let_def lock_free_def lock_inode_def
    by (metis less_irrefl not_None_eq option.simps(4,5))
  moreover have "lock_inode ?f < lk_next (take_lock p ?f)"
    using assms(1) by (auto simp: world_inv_def Let_def lock_inode_def take_lock_def split: option.splits)
  moreover have "lk_next ?f \<le> lk_next (take_lock p ?f)" by (simp add: take_lock_def)
  ultimately show ?thesis
    using assms(1) none unfolding world_inv_def set_stage_def Let_def
    by (auto simp: take_lock_def fun_upd_def less_SucI split: if_splits)
qed

lemma world_inv_call:
  assumes "world_inv w" and "w_stage w p = Some q" and "file_next path q (c, Some a) = Some q'"
    and "file_call path p c a (w_files w) f"
  shows "world_inv ((set_stage p (Some q') w)\<lparr>w_files := f\<rparr>)"
proof -
  have same: "(set_stage p (Some q') w)\<lparr>w_files := w_files w\<rparr> = set_stage p (Some q') w"
    by (simp add: set_stage_def)
  have alone: "world_inv ((set_stage p (Some q') w)\<lparr>w_files := f\<rparr>)"
    if "q \<in> {Opened, Locked, Bound, Serving, Leaving}" "lk_held f = lk_held (w_files w)"
      "lk_next f = lk_next (w_files w)"
      "lk_name f = lk_name (w_files w) \<or> lk_name f = None \<and> \<not> holding (Some q')"
      "q' \<in> {Bound, Serving} \<Longrightarrow> sk_owner f = Some p"
    using world_inv_alone[OF assms(1), of p f "Some q'"] that assms(2) by auto
  from assms(4) show ?thesis
  proof cases
    case (open_ok l)
    then show ?thesis
      using assms(1,3) world_inv_open[OF assms(1), of p] by (auto split: if_splits)
  next
    case (open_fails l)
    then have "q' = Refused" using assms(3) by (auto split: if_splits)
    then show ?thesis
      using world_inv_move[OF assms(1), of "Some q'" p] same open_fails by auto
  next
    case (open_creates l)
    then have "q' = Refused" using assms(3) by (auto split: if_splits)
    have none: "\<not> holding (w_stage w r)" for r
      using assms(1) open_creates unfolding world_inv_def Let_def by blast
    then have "w_stage w r \<notin> {Some Bound, Some Serving}" for r by (auto simp: holding_def)
    then show ?thesis
      using assms(1) open_creates none \<open>q' = Refused\<close> unfolding world_inv_def set_stage_def Let_def
      by (auto simp: less_Suc_eq)
  next
    case (bind_ok fd)
    then show ?thesis using assms(3) by (intro alone) (auto split: if_splits)
  next
    case (bind_fails fd x)
    then show ?thesis
      using assms(2,3) same world_inv_move[OF assms(1), of "Some q'" p] by (auto split: if_splits)
  next
    case remove_socket
    then show ?thesis
      using assms(3) by (intro alone) (auto split: if_splits stage.splits)
  next
    case remove_lockfile
    then show ?thesis
      using assms(3) by (intro alone) (auto split: if_splits stage.splits)
  next
    case (remove_fails x)
    then show ?thesis
      using assms(2,3) same world_inv_move[OF assms(1), of "Some q'" p]
      by (auto split: if_splits stage.splits)
  next
    case other
    have "(holding (Some q') \<longrightarrow> holding (Some q)) \<and> (q' \<in> {Bound, Serving} \<longrightarrow> q \<in> {Bound, Serving})"
      using assms(3) other(2-4)
      by (cases "(path, q, (c, Some a))" rule: file_next.cases) (auto split: if_splits)
    then show ?thesis
      using assms(2) same world_inv_move[OF assms(1), of "Some q'" p] other(1) by auto
  qed
qed

lemma world_inv_ends:
  assumes "world_inv w"
  shows "world_inv ((set_stage p None w)\<lparr>w_files := drop_lock p (w_files w)\<rparr>)"
  using assms unfolding world_inv_def set_stage_def drop_lock_def Let_def
  by (auto split: if_splits)

interpretation world_run: inductive_invariant world_start "world_step path" world_inv for path
proof unfold_locales
  fix w :: world assume "world_start w"
  then have "w_stage w p \<in> {None, Some Fresh}" for p by (simp add: world_start_def)
  then have "\<not> holding (w_stage w p)" "w_stage w p \<notin> {Some Bound, Some Serving}" for p
    by (auto dest!: meta_spec[of _ p])
  then show "world_inv w"
    using \<open>world_start w\<close> unfolding world_inv_def world_start_def Let_def by simp
next
  fix w v assume "world_inv w" and "world_step path w v"
  from this(2,1) show "world_inv v"
    by cases (auto intro: world_inv_call world_inv_ends)
qed


text \<open>Only a process that took the lock, and has not ended, holds one.\<close>

definition no_stale_lock :: "world \<Rightarrow> bool" where
  "no_stale_lock w \<longleftrightarrow> (\<forall>p. w_stage w p \<in> {None, Some Fresh, Some Refused} \<longrightarrow>
     lk_held (w_files w) p = None)"

lemma no_stale_call:
  assumes "no_stale_lock w" and "w_stage w p = Some q" and "file_next path q (c, Some a) = Some q'"
    and "file_call path p c a (w_files w) f"
  shows "no_stale_lock ((set_stage p (Some q') w)\<lparr>w_files := f\<rparr>)"
proof -
  have keep: "no_stale_lock ((set_stage p (Some q') w)\<lparr>w_files := f\<rparr>)"
    if "lk_held f = lk_held (w_files w)" "q' \<in> {Fresh, Refused} \<Longrightarrow> q \<in> {Fresh, Refused}"
    using assms(1,2) that unfolding no_stale_lock_def set_stage_def by auto
  from assms(4) show ?thesis
  proof cases
    case (open_ok l)
    then have "q' = Opened" using assms(3) by (auto split: if_splits)
    then show ?thesis
      using assms(1) open_ok by (auto simp: no_stale_lock_def set_stage_def take_lock_def)
  next
    case other
    have "q' \<in> {Fresh, Refused} \<longrightarrow> q \<in> {Fresh, Refused}"
      using assms(3) other(2-4)
      by (cases "(path, q, (c, Some a))" rule: file_next.cases) (auto split: if_splits)
    then show ?thesis using other(1) by (intro keep) auto
  qed (rule keep; use assms(3) in \<open>auto split: if_splits stage.splits\<close>)+
qed

interpretation lock_run: inductive_invariant world_start "world_step path" no_stale_lock for path
proof unfold_locales
  fix w :: world assume "world_start w"
  then show "no_stale_lock w" by (simp add: world_start_def no_stale_lock_def)
next
  fix w v assume "no_stale_lock w" and "world_step path w v"
  from this(2,1) show "no_stale_lock v"
  proof cases
    case (call p q c a q' f)
    then show ?thesis using no_stale_call[OF \<open>no_stale_lock w\<close>] by simp
  next
    case (ends p q)
    then show ?thesis
      using \<open>no_stale_lock w\<close> by (auto simp: no_stale_lock_def set_stage_def drop_lock_def)
  qed
qed

text \<open>What the invariant says of a server.\<close>

lemma one_server_world:
  assumes "reachable world_start (world_step path) w" and "w_stage w p = Some Serving"
  shows "sk_owner (w_files w) = Some p \<and> (\<forall>q. holding (w_stage w q) \<longrightarrow> q = p)"
proof -
  have inv: "world_inv w" using assms(1) by (rule world_run.inv_reachable)
  then show ?thesis
    using assms(2) holding_unique[OF inv] unfolding world_inv_def Let_def by auto
qed

end
