(* ===== verification/Privileges.thy ===== *)
theory Privileges
  imports Events
begin

text \<open>
  Dropping root (\<open>drop_privileges\<close> in \<open>programs/helper.c\<close>) and what the kernel makes of its calls:
  the credentials of a process and the rules of \<open>setuid\<close> and \<open>setgid\<close> for them, as their manual
  pages state.
\<close>

definition must_if :: "bool \<Rightarrow> hcall \<Rightarrow> (helper, unit) prog" where
  "must_if b c = whenp b (seq (must c) (ret ()))"

definition drop_privileges :: "(helper, unit) prog" where
  "drop_privileges =
     bind (sys Geteuid) (\<lambda>a.
       if retval a \<noteq> 0 then ret ()
       else bind (gets (\<lambda>s. opt_gid (h_options s))) (\<lambda>gid.
            bind (gets (\<lambda>s. opt_uid (h_options s))) (\<lambda>uid.
            seq (must_if (gid \<noteq> 0) (Setgid gid))
           (seq (must_if (uid \<noteq> 0) (Setuid uid))
                (if gid \<noteq> 0 \<or> uid \<noteq> 0 then bind (sys Geteuid) (\<lambda>_. ret ()) else ret ())))))"

section \<open>Credentials\<close>

text \<open>The real, effective and saved ids, and the supplementary groups.\<close>

record cred =
  ruid :: "32 word"
  euid :: "32 word"
  suid :: "32 word"
  rgid :: "32 word"
  egid :: "32 word"
  sgid :: "32 word"
  groups :: "32 word list"

definition set_user :: "32 word \<Rightarrow> cred \<Rightarrow> cred option" where
  "set_user u c =
     (if euid c = 0 then Some (c\<lparr>ruid := u, euid := u, suid := u\<rparr>)
      else if u = ruid c \<or> u = suid c then Some (c\<lparr>euid := u\<rparr>)
      else None)"

definition set_group :: "32 word \<Rightarrow> cred \<Rightarrow> cred option" where
  "set_group g c =
     (if euid c = 0 then Some (c\<lparr>rgid := g, egid := g, sgid := g\<rparr>)
      else if g = rgid c \<or> g = sgid c then Some (c\<lparr>egid := g\<rparr>)
      else None)"

text \<open>
  What a call does to the credentials when the kernel answers \<open>a\<close>: a call that may not be made
  fails; \<open>None\<close> is an answer the kernel does not give.
\<close>

fun kernel :: "cred \<Rightarrow> hcall \<times> hans option \<Rightarrow> cred option" where
  "kernel c (Geteuid, a) = (if a = Some (Returns (uint (euid c))) then Some c else None)"
| "kernel c (Setuid u, a) =
     (if a \<noteq> None \<and> 0 \<le> retval (the a) then set_user u c else Some c)"
| "kernel c (Setgid g, a) =
     (if a \<noteq> None \<and> 0 \<le> retval (the a) then set_group g c else Some c)"
| "kernel c _ = Some c"

fun kernel_run :: "cred \<Rightarrow> (hcall \<times> hans option) list \<Rightarrow> cred option" where
  "kernel_run c [] = Some c"
| "kernel_run c (e # h) = Option.bind (kernel c e) (\<lambda>c. kernel_run c h)"

lemma kernel_run_append:
  "kernel_run c (g @ h) = Option.bind (kernel_run c g) (\<lambda>c. kernel_run c h)"
  by (induction g arbitrary: c) (simp_all split: Option.bind_split)

section \<open>No way back\<close>

text \<open>
  The steps that the rest of a process may take with its credentials: any \<open>setuid\<close> or \<open>setgid\<close>
  the kernel accepts.
\<close>

inductive cred_step :: "cred \<Rightarrow> cred \<Rightarrow> bool" where
  user: "set_user u c = Some d \<Longrightarrow> cred_step c d"
| group: "set_group g c = Some d \<Longrightarrow> cred_step c d"

inductive_cases cred_stepE: "cred_step c d"

definition unprivileged :: "32 word \<Rightarrow> cred \<Rightarrow> bool" where
  "unprivileged u c \<longleftrightarrow> ruid c = u \<and> euid c = u \<and> suid c = u"

definition grouped :: "32 word \<Rightarrow> cred \<Rightarrow> bool" where
  "grouped g c \<longleftrightarrow> rgid c = g \<and> egid c = g \<and> sgid c = g"

definition dropped_to :: "32 word \<Rightarrow> 32 word \<Rightarrow> cred \<Rightarrow> bool" where
  "dropped_to u g c \<longleftrightarrow> u \<noteq> 0 \<and> unprivileged u c \<and> grouped g c"

interpretation dropped: inductive_invariant "dropped_to u g" cred_step "dropped_to u g" for u g
  by unfold_locales
     (auto elim!: cred_stepE simp: dropped_to_def unprivileged_def grouped_def set_user_def
        set_group_def split: if_splits)

section \<open>Properties\<close>

lemma must_if_Done:
  "must_if b c s = (Done u, t) \<longleftrightarrow>
     (if b then \<exists>a as. answers s = a # as \<and> 0 \<le> retval a \<and>
        t = s\<lparr>answers := as, history := history s @ [(c, Some a)]\<rparr>
      else t = s)"
  by (auto simp: must_if_def whenp_ends seq_Done must_Done)

lemma drop_privileges_Done:
  assumes "drop_privileges s = (Done u, t)" and "history t = history s @ h"
    and "kernel_run c h = Some d" and "euid c = 0"
  shows "(opt_gid (h_options s) \<noteq> 0 \<longrightarrow> grouped (opt_gid (h_options s)) d) \<and>
    (opt_gid (h_options s) = 0 \<longrightarrow> rgid d = rgid c \<and> egid d = egid c \<and> sgid d = sgid c) \<and>
    (opt_uid (h_options s) \<noteq> 0 \<longrightarrow> unprivileged (opt_uid (h_options s)) d) \<and>
    (opt_uid (h_options s) = 0 \<longrightarrow> ruid d = ruid c \<and> euid d = 0 \<and> suid d = suid c) \<and>
    groups d = groups c"
proof -
  obtain a s1 where a: "sys Geteuid s = (Done a, s1)"
    using assms(1) by (auto simp: drop_privileges_def bind_Done)
  then have s1: "history s1 = history s @ [(Geteuid, Some a)]" "h_options s1 = h_options s"
    by (auto simp: sys_Done)
  show ?thesis
  proof (cases "retval a = 0")
    case False
    then have "t = s1" using assms(1) a by (auto simp: drop_privileges_def bind_Done)
    then have "h = [(Geteuid, Some a)]" using s1 assms(2) by simp
    then show ?thesis using assms(3,4) False by (auto split: if_splits)
  next
    case True
    let ?gid = "opt_gid (h_options s)" and ?uid = "opt_uid (h_options s)"
    obtain s2 s3 where s2: "must_if (?gid \<noteq> 0) (Setgid ?gid) s1 = (Done (), s2)"
      and s3: "must_if (?uid \<noteq> 0) (Setuid ?uid) s2 = (Done (), s3)"
      and last: "(if ?gid \<noteq> 0 \<or> ?uid \<noteq> 0 then bind (sys Geteuid) (\<lambda>_. ret ()) else ret ()) s3 = (Done u, t)"
      using assms(1) a True s1(2) by (auto simp: drop_privileges_def bind_Done seq_Done)
    obtain x where x: "history s2 = history s1 @ x"
      and kx: "kernel_run c x = Some (if ?gid \<noteq> 0 then c\<lparr>rgid := ?gid, egid := ?gid, sgid := ?gid\<rparr> else c)"
      using s2 assms(4) by (auto simp: must_if_Done set_group_def split: if_splits)
    obtain y where y: "history s3 = history s2 @ y"
      and ky: "\<And>d. euid d = 0 \<Longrightarrow> kernel_run d y = Some (if ?uid \<noteq> 0 then d\<lparr>ruid := ?uid, euid := ?uid, suid := ?uid\<rparr> else d)"
      using s3 by (auto simp: must_if_Done set_user_def split: if_splits)
    have same: "kernel_run d [(Geteuid, b)] = Some e \<Longrightarrow> e = d" for d e b by (simp split: if_splits)
    obtain z where z: "history t = history s3 @ z" "\<And>d e. kernel_run d z = Some e \<Longrightarrow> e = d"
    proof (cases "?gid \<noteq> 0 \<or> ?uid \<noteq> 0")
      case True
      with last show ?thesis by (auto simp: bind_Done sys_Done intro!: that same)
    next
      case False
      with last show ?thesis by (auto intro!: that[of "[]"])
    qed
    have h: "h = (Geteuid, Some a) # x @ y @ z" using assms(2) s1 x y z(1) by simp
    let ?c = "if ?gid \<noteq> 0 then c\<lparr>rgid := ?gid, egid := ?gid, sgid := ?gid\<rparr> else c"
    have "euid ?c = 0" using assms(4) by simp
    with kx have "d = (if ?uid \<noteq> 0 then ?c\<lparr>ruid := ?uid, euid := ?uid, suid := ?uid\<rparr> else ?c)"
      using assms(3) ky[of ?c] z(2) unfolding h
      by (auto simp: kernel_run_append split: if_splits bind_splits)
    then show ?thesis using assms(4) by (simp add: unprivileged_def grouped_def)
  qed
qed

text \<open>
  C25: A helper started as root that returns from \<open>drop_privileges\<close> is the user and the group of
  its options, in all three ids, and no later \<open>setuid\<close> or \<open>setgid\<close> makes it anyone else.  The
  supplementary groups are those of root: they are not dropped.
\<close>

theorem drop_privileges_final:
  assumes "drop_privileges s = (Done u, t)" and "history t = history s @ h"
    and "kernel_run c h = Some d" and "euid c = 0"
    and "opt_uid (h_options s) \<noteq> 0" and "opt_gid (h_options s) \<noteq> 0"
    and "cred_step\<^sup>*\<^sup>* d d'"
  shows "unprivileged (opt_uid (h_options s)) d' \<and> grouped (opt_gid (h_options s)) d' \<and>
    groups d = groups c"
proof -
  from drop_privileges_Done[OF assms(1-4)] assms(5,6)
  have "dropped_to (opt_uid (h_options s)) (opt_gid (h_options s)) d" "groups d = groups c"
    by (simp_all add: dropped_to_def)
  with dropped.inv_steps[OF assms(7)] show ?thesis by (simp add: dropped_to_def)
qed

definition root_cred :: cred where
  "root_cred = \<lparr>ruid = 501, euid = 0, suid = 0, rgid = 20, egid = 20, sgid = 20, groups = [0, 1]\<rparr>"

definition drop_state :: helper where
  "drop_state = (helper_init [Returns 0, Returns 0, Returns 0, Returns 501])
     \<lparr>h_options := options_init\<lparr>opt_uid := 501, opt_gid := 20\<rparr>\<rparr>"

theorem drop_privileges_final_witness:
  "\<exists>t h d. drop_privileges drop_state = (Done (), t) \<and> history t = h \<and>
     kernel_run root_cred h = Some d \<and> unprivileged 501 d \<and> grouped 20 d \<and> groups d = [0, 1]"
proof -
  let ?h = "[(Geteuid, Some (Returns 0)), (Setgid 20, Some (Returns 0)),
    (Setuid 501, Some (Returns 0)), (Geteuid, Some (Returns 501))]"
  let ?t = "drop_state\<lparr>answers := [], history := ?h\<rparr>"
  have o: "opt_uid (h_options drop_state) = 501" "opt_gid (h_options drop_state) = 20"
    by (simp_all add: drop_state_def)
  have run: "drop_privileges drop_state = (Done (), ?t)"
    by (simp add: drop_privileges_def must_if_def prog_defs must_def sys_def drop_state_def helper_init_def)
  obtain d where d: "kernel_run root_cred ?h = Some d"
    by (simp add: set_user_def set_group_def root_cred_def)
  have "history ?t = history drop_state @ ?h" by (simp add: drop_state_def helper_init_def)
  from drop_privileges_final[OF run this d _ _ _ rtranclp.rtrancl_refl]
  have "unprivileged 501 d \<and> grouped 20 d \<and> groups d = groups root_cred"
    unfolding o by (simp add: root_cred_def)
  then have "unprivileged 501 d" "grouped 20 d" "groups d = [0, 1]" by (simp_all add: root_cred_def)
  with run d show ?thesis by (intro exI[of _ ?t] exI[of _ ?h] exI[of _ d]) simp
qed
end
