(* ===== verification/Helper_Main.thy ===== *)
theory Helper_Main
  imports Rendezvous Privileges Os_Version
begin

text \<open>
  \<open>main\<close> of the helper (\<open>programs/helper.c\<close>): the steps in their order, from the command line to the
  exit handlers, and what holds of every run of it.
\<close>

section \<open>The steps\<close>

text \<open>The last call stands for the ids in the log message.\<close>

definition check_os_version :: "(helper, unit) prog" where
  "check_os_version =
     bind (sys (Sysctlbyname ''kern.osproductversion'')) (\<lambda>a.
       case a of
         Version answer \<Rightarrow>
           (case os_product_version answer os_version_zero of
              (r, v) \<Rightarrow>
                if r \<noteq> 0 then exit_with EXIT_FAILURE
                else bind (gets (\<lambda>s. opt_network_name (h_options s))) (\<lambda>network_name.
                     if network_name \<noteq> None \<and> major v < 26 then exit_with EXIT_FAILURE
                     else bind (sys Geteuid) (\<lambda>_. ret ())))
       | _ \<Rightarrow> exit_with EXIT_FAILURE)"

definition setup_endpoints :: "(helper, unit) prog" where
  "setup_endpoints =
     bind (gets h_max_packet_size) (\<lambda>mps.
     bind (init_endpoint ''host'' mps) (\<lambda>e.
     seq (modify (\<lambda>s. s\<lparr>h_host := Some e\<rparr>))
    (bind (init_endpoint ''vm'' mps) (\<lambda>e.
          modify (\<lambda>s. s\<lparr>h_vm := Some e\<rparr>)))))"

definition start_forwarding_from_host :: "(helper, unit) prog" where
  "start_forwarding_from_host =
     bind (sys Vmnet_set_event_callback) (\<lambda>a.
       case a of
         Vmnet_status status \<Rightarrow> if status \<noteq> VMNET_SUCCESS then exit_with EXIT_FAILURE else ret ()
       | _ \<Rightarrow> exit_with EXIT_FAILURE)"

definition start_forwarding_from_vm :: "(helper, unit) prog" where
  "start_forwarding_from_vm = emit Start_vm_queue"

definition main_end :: "(helper, unit) prog" where
  "main_end = bind (gets h_status) (\<lambda>status. exit_with (exit_status status))"

definition main_body :: "bool \<Rightarrow> (helper, unit) prog" where
  "main_body sdk26 =
     seq check_os_version
    (seq setup_kq
    (seq (start_host_interface sdk26)
    (seq drop_privileges
    (seq setup_socket
    (seq setup_endpoints
    (seq start_forwarding_from_host
    (seq start_forwarding_from_vm
    (seq start_stats_timer
    (seq run_until_termination
         main_end)))))))))"

text \<open>A program that exits runs its exit handlers.\<close>

definition finish :: "(helper, unit) prog \<Rightarrow> (helper, unit) prog" where
  "finish m s =
     (case m s of
        (Exited c, t) \<Rightarrow> seq exit_process (exit_with c) t
      | r \<Rightarrow> r)"

text \<open>
  The run of the main thread.  The VM thread calls \<open>exit\<close> when it cannot trigger the shutdown: that is an
  outcome of \<open>forward_from_vm\<close>, not of \<open>helper_main\<close>.
\<close>

definition main_start :: "hans list \<Rightarrow> cli \<Rightarrow> helper" where
  "main_start as c = (helper_init as)\<lparr>h_options := cli_options c, h_verbose := cli_verbose c\<rparr>"

definition helper_main :: "env \<Rightarrow> bool \<Rightarrow> string list \<Rightarrow> hans list \<Rightarrow> unit outcome \<times> helper" where
  "helper_main e sdk26 args as =
     (case parse_options e args cli_init of
        (Done _, c) \<Rightarrow> finish (main_body sdk26) (main_start as c)
      | (Exited n, c) \<Rightarrow> (Exited n, helper_init as)
      | (Aborted, c) \<Rightarrow> (Aborted, helper_init as)
      | (Waiting, c) \<Rightarrow> (Waiting, helper_init as))"

section \<open>How the steps end\<close>

lemma no_abort_init_endpoint [never_aborts]: "no_abort (init_endpoint nm mps)"
  unfolding init_endpoint_def Let_def by (intro never_aborts)

lemma exits_in_init_endpoint [exit_codes]: "1 \<in> C \<Longrightarrow> exits_in C (init_endpoint nm mps)"
  unfolding init_endpoint_def Let_def by (intro exit_codes)

lemma no_abort_must_be_zero [never_aborts]: "no_abort (must_be_zero c)"
  unfolding must_be_zero_def by (auto intro!: never_aborts)

lemma exits_in_must_be_zero [exit_codes]: "1 \<in> C \<Longrightarrow> exits_in C (must_be_zero c)"
  unfolding must_be_zero_def by (auto intro!: exit_codes)

lemma no_abort_steps [never_aborts]:
  "no_abort check_os_version" "no_abort setup_kq" "no_abort drop_privileges"
  "no_abort setup_endpoints" "no_abort start_forwarding_from_host"
  "no_abort start_forwarding_from_vm" "no_abort start_stats_timer" "no_abort main_end"
  unfolding check_os_version_def setup_kq_def drop_privileges_def must_if_def setup_endpoints_def
    start_forwarding_from_host_def start_forwarding_from_vm_def start_stats_timer_def main_end_def
  by (auto intro!: never_aborts split: hans.split prod.split)

lemma exit_status_range: "exit_status st \<in> {0, 1}"
  by (simp add: exit_status_def)

lemma exits_in_steps [exit_codes]:
  "exits_in {0, 1} check_os_version" "exits_in {0, 1} setup_kq" "exits_in {0, 1} drop_privileges"
  "exits_in {0, 1} setup_endpoints" "exits_in {0, 1} start_forwarding_from_host"
  "exits_in {0, 1} start_forwarding_from_vm" "exits_in {0, 1} start_stats_timer"
  "exits_in {0, 1} main_end"
  unfolding check_os_version_def setup_kq_def drop_privileges_def must_if_def setup_endpoints_def
    start_forwarding_from_host_def start_forwarding_from_vm_def start_stats_timer_def main_end_def
  by (auto intro!: exit_codes exit_status_range simp del: insert_iff split: hans.split prod.split)

lemma exits_in_interface [exit_codes]: "exits_in {0, 1} (start_host_interface sdk26)"
proof -
  have st: "exits_in {0, 1} (started net a)" for net a
    by (auto simp: exits_in_def started_ends)
  show ?thesis
    unfolding start_host_interface_def start_interface_with_options_def acquire_network_from_broker_def
      start_interface_with_network_def network_from_ref_def register_exit_def
    by (auto intro!: exit_codes st split: option.split hans.split)
qed

lemma exits_in_socket [exit_codes]: "exits_in {0, 1} setup_socket"
  unfolding setup_socket_def create_socket_lockfile_def create_socket_def socket_path_def
    set_socket_buffers_def place_socket_def wait_for_client_def client_round_def connect_socket_def register_exit_def
  by (auto intro!: exit_codes split: option.split hans.split)

lemma exits_in_run [exit_codes]: "exits_in {0, 1} run_until_termination"
  unfolding run_until_termination_def event_round_def print_stats_def add_status_def
  by (auto intro!: exit_codes split: option.split hans.split reaction.split outcome.split)

lemma exits_in_main: "exits_in {0, 1} (main_body sdk26)"
  unfolding main_body_def by (intro exit_codes)

lemma no_abort_handlers [never_aborts]: "no_abort (run_handlers hs)"
proof (induction hs)
  case (Cons h hs)
  have "no_abort (run_handler h)"
    by (cases h) (auto simp: stop_host_interface_def remove_socket_lockfile_def remove_socket_silently_def
        intro!: never_aborts split: option.split)
  with Cons show ?case by (auto intro: never_aborts)
qed (simp add: never_aborts)

section \<open>Files and credentials\<close>

lemma no_files_init_endpoint: "preserves no_files (init_endpoint nm mps)"
  unfolding init_endpoint_def Let_def
  by (intro files_order.pres_seq no_files_must files_order.pres_ret) simp_all

lemma no_files_start: "preserves no_files (start_host_interface sdk26)"
proof -
  have st: "preserves no_files (started net a)" for net a
    unfolding started_def write_interface_info_def
    by (auto intro!: files_order.pres_seq files_order.pres_exit no_files_emit no_files_modify split: hans.split)
  have reg: "preserves no_files (register_exit Stop_host_interface)"
    unfolding register_exit_def preserves_def
    by (auto simp: seq_def bind_def must_def sys_def modify_def ret_def exit_with_def no_files_def
        split: list.split)
  have dbg: "preserves no_files debug_start"
    by (rule preserves_debug_start) (simp_all add: no_files_def)
  show ?thesis
    unfolding start_host_interface_def start_interface_with_options_def acquire_network_from_broker_def
      start_interface_with_network_def network_from_ref_def
    by (auto intro!: dbg files_order.pres_bind files_order.pres_seq files_order.pres_exit files_order.pres_ret
        files_order.pres_gets files_order.pres_abort no_files_sys no_files_emit st reg
        split: option.split hans.split)
qed

lemma no_files_before:
  "preserves no_files check_os_version" "preserves no_files setup_kq"
  unfolding check_os_version_def setup_kq_def
  by (auto intro!: files_order.pres_bind files_order.pres_seq files_order.pres_exit files_order.pres_ret
      files_order.pres_gets no_files_sys no_files_modify no_files_emit no_files_must_be_zero
      split: hans.split prod.split)

lemma no_files_drop: "preserves no_files drop_privileges"
  unfolding drop_privileges_def must_if_def
  by (auto intro!: files_order.pres_bind files_order.pres_seq files_order.pres_ret
      files_order.pres_gets files_order.pres_whenp no_files_sys no_files_must)

lemma no_files_after:
  "preserves no_files setup_endpoints" "preserves no_files start_forwarding_from_host"
  "preserves no_files start_forwarding_from_vm" "preserves no_files start_stats_timer"
  "preserves no_files run_until_termination" "preserves no_files main_end"
  unfolding setup_endpoints_def start_forwarding_from_host_def start_forwarding_from_vm_def
    start_stats_timer_def run_until_termination_def event_round_def print_stats_def add_status_def main_end_def
  by (auto intro!: files_order.pres_bind files_order.pres_seq files_order.pres_exit files_order.pres_ret
      files_order.pres_gets files_order.pres_abort no_files_sys no_files_modify no_files_emit
      no_files_must_be_zero no_files_init_endpoint no_files_repeat
      split: option.split hans.split reaction.split outcome.split)

text \<open>The part of \<open>main\<close> before the socket, the socket, and the part after it.\<close>

definition before_socket :: "bool \<Rightarrow> (helper, unit) prog" where
  "before_socket sdk26 =
     seq check_os_version (seq setup_kq (seq (start_host_interface sdk26) drop_privileges))"

definition after_socket :: "(helper, unit) prog" where
  "after_socket =
     seq setup_endpoints
    (seq start_forwarding_from_host
    (seq start_forwarding_from_vm
    (seq start_stats_timer
    (seq run_until_termination
         main_end))))"

lemma seq_assoc: "seq (seq l m) n = seq l (seq m n)"
  by (simp add: seq_def bind_assoc)

lemma main_parts: "main_body sdk26 = seq (before_socket sdk26) (seq setup_socket after_socket)"
  by (simp add: main_body_def before_socket_def after_socket_def seq_assoc)

lemma no_files_parts:
  "preserves no_files (before_socket sdk26)" "preserves no_files after_socket"
  unfolding before_socket_def after_socket_def
  by (intro files_order.pres_seq no_files_before no_files_start no_files_drop no_files_after)+

lemma main_start_at [simp]: "at_stage path Fresh (main_start as p)"
  by (simp add: at_stage_def main_start_def helper_init_def)

lemma main_body_not_Done: "main_body sdk26 s \<noteq> (Done x, u)"
  by (auto simp: main_body_def main_end_def seq_Done bind_Done)

lemma run_handlers_not_Exited: "exits_in {} (run_handlers hs)"
proof (induction hs)
  case (Cons h hs)
  have "exits_in {} (run_handler h)"
    by (cases h) (auto simp: stop_host_interface_def remove_socket_lockfile_def remove_socket_silently_def
        intro!: exit_codes split: option.split)
  with Cons show ?case by (auto intro: exit_codes)
qed (simp add: exit_codes)

lemma exit_process_not_Exited: "exit_process s \<noteq> (Exited n, t)"
  using exits_inD[OF run_handlers_not_Exited] by (auto simp: exit_process_def bind_Exited)

lemma setup_socket_stays:
  "triple (\<lambda>s. at_stage path Fresh s \<and>
      (opt_fd (h_options s) = -1 \<longrightarrow> has_path path s \<and> length path < sizeof_sun_path)) setup_socket
     (\<lambda>_. follows path) (follows path)"
proof (cases "length path < sizeof_sun_path")
  case True
  then show ?thesis by (intro triple_weaken[OF setup_socket_follows]) auto
next
  case False
  then show ?thesis
    by (auto simp: triple_def setup_socket_def bind_def gets_def ret_def intro: at_stage_follows)
qed

lemma main_body_follows:
  assumes "opt_fd (cli_options c) = -1 \<longrightarrow> opt_socket (cli_options c) = Some path \<and> length path < sizeof_sun_path"
    and "main_body sdk26 (main_start as c) = (r, t)"
  shows "follows path t"
proof -
  obtain r1 s1 where b: "before_socket sdk26 (main_start as c) = (r1, s1)" by fastforce
  have n: "no_files (main_start as c) s1" using preservesD[OF no_files_parts(1) b] .
  then have o: "h_options s1 = cli_options c" by (simp add: no_files_def main_start_def)
  have s1: "at_stage path Fresh s1" using no_files_at[OF n] main_start_at by blast
  have rest: "triple (\<lambda>s. at_stage path Fresh s \<and>
      (opt_fd (h_options s) = -1 \<longrightarrow> has_path path s \<and> length path < sizeof_sun_path))
      (seq setup_socket after_socket) (\<lambda>_. follows path) (follows path)"
    by (rule triple_seq[OF setup_socket_stays no_files_follows[OF no_files_parts(2)]])
  show ?thesis
  proof (cases "r1 = Done ()")
    case True
    then have "seq setup_socket after_socket s1 = (r, t)"
      using assms(2) b by (simp add: main_parts seq_def[of "before_socket sdk26"] bind_def)
    moreover have "opt_fd (h_options s1) = -1 \<longrightarrow> has_path path s1 \<and> length path < sizeof_sun_path"
      using assms(1) o by (simp add: has_path_def)
    ultimately have "case r of Done x \<Rightarrow> follows path t | _ \<Rightarrow> follows path t"
      using rest s1 unfolding triple_def by blast
    then show ?thesis by (cases r) simp_all
  next
    case False
    then have "t = s1"
      using assms(2) b by (cases r1) (auto simp: main_parts seq_def bind_def)
    then show ?thesis using at_stage_follows[OF s1] by simp
  qed
qed

lemma finish_follows:
  assumes "\<And>r t. m s = (r, t) \<Longrightarrow> follows path t" and "finish m s = (r, t)" and "\<And>x u. m s \<noteq> (Done x, u)"
  shows "\<exists>q. run_files path Fresh (history t) = Some q \<and>
    (\<forall>n. r = Exited n \<longrightarrow> q \<in> {Fresh, Refused, Opened, Gone})"
proof -
  obtain r1 u where m: "m s = (r1, u)" by fastforce
  have fu: "follows path u" using assms(1) m by blast
  have tr: "triple (follows path) (seq exit_process (exit_with n)) (\<lambda>_ s. False)
      (\<lambda>s. follows_to_end path s)" for n
    by (rule triple_seq[OF exit_process_follows]) (auto intro: triple_exit leaving_end)
  show ?thesis
  proof (cases r1)
    case (Exited n)
    obtain x v where ep: "exit_process u = (x, v)" by fastforce
    have e: "case x of Done y \<Rightarrow> leaving path [] v | _ \<Rightarrow> follows_to_end path v"
      using exit_process_follows[of path] fu ep unfolding triple_def by blast
    have rt: "seq exit_process (exit_with n) u = (r, t)" using assms(2) m Exited by (simp add: finish_def)
    show ?thesis
    proof (cases x)
      case (Done y)
      then have "t = v" using rt ep by (simp add: seq_def bind_def exit_with_def)
      then show ?thesis using e Done leaving_over by auto
    next
      case (Exited n')
      then have "r = Exited n'" "t = v" using rt ep by (simp_all add: seq_def bind_def)
      then show ?thesis using exit_process_not_Exited ep Exited by blast
    next
      case Aborted
      then have "r = Aborted" "t = v" using rt ep by (simp_all add: seq_def bind_def)
      then show ?thesis using e Aborted by (simp add: follows_to_end_def)
    next
      case Waiting
      then have "r = Waiting" "t = v" using rt ep by (simp_all add: seq_def bind_def)
      then show ?thesis using e Waiting by (simp add: follows_to_end_def)
    qed
  next
    case (Done x)
    then show ?thesis using assms(3) m by blast
  qed (use fu assms(2) m in \<open>auto simp: finish_def follows_def at_stage_def\<close>)
qed

lemma run_follows:
  assumes "parse_options e args cli_init = (Done (), c)"
    and "opt_socket (cli_options c) \<in> {None, Some path}"
    and "helper_main e sdk26 args as = (r, t)"
  shows "\<exists>q. run_files path Fresh (history t) = Some q \<and>
    (\<forall>n. r = Exited n \<longrightarrow> q \<in> {Fresh, Refused, Opened, Gone})"
proof -
  let ?p = "cli_options c"
  have "opt_fd ?p = -1 \<longrightarrow> opt_socket ?p = Some path \<and> length path < sizeof_sun_path"
    using parsed_options[OF assms(1)] assms(2)
    by (auto simp: abs_transport_def fields_ok_def split: option.splits if_splits)
  note body = main_body_follows[OF this]
  have "finish (main_body sdk26) (main_start as c) = (r, t)"
    using assms(1,3) by (simp add: helper_main_def)
  from finish_follows[OF body this main_body_not_Done] show ?thesis .
qed

text \<open>
  C7: Every run of the helper follows the protocol of the lock file and the socket to its end:
  with \<open>--socket path\<close> for that path, and with \<open>--fd\<close> without a call on any file; and when the
  process ends, it has given up the lock file it registered.
\<close>

theorem helper_follows_protocol:
  assumes "parse_options e args cli_init = (Done (), c)"
    and "opt_socket (cli_options c) \<in> {None, Some path}"
    and "helper_main e sdk26 args as = (r, t)"
  shows "\<exists>q. run_files path Fresh (history t) = Some q \<and>
    (\<forall>n. r = Exited n \<longrightarrow> q \<in> {Fresh, Refused, Opened, Gone})"
  using assms by (rule run_follows)

definition sample_main_options :: "string list" where
  "sample_main_options = [''--socket'', ''/tmp/s'', ''--operation-mode=host'']"

text \<open>The allocation of the endpoints fails once the client is connected.\<close>

definition sample_main_answers :: "hans list" where
  "sample_main_answers = [Version (Inr ''26.1''), Returns 501, Returns 3, Returns 0, Returns 0,
     Started True VMNET_SUCCESS sample_param, Returns 0, Returns 501] @ sample_socket_answers @
     [Fails ENOMEM, Returns 0, Returns 0, Stopped VMNET_SUCCESS VMNET_SUCCESS]"

theorem helper_follows_protocol_witness:
  "\<exists>t. helper_main sample_env True sample_main_options sample_main_answers = (Exited 1, t) \<and>
     run_files ''/tmp/s'' Fresh (history t) = Some Gone"
proof -
  let ?p = "parse_options sample_env sample_main_options cli_init"
  let ?r = "helper_main sample_env True sample_main_options sample_main_answers"
  have "fst ?p = Done ()" "opt_socket (cli_options (snd ?p)) = Some ''/tmp/s''"
    unfolding sample_main_options_def by code_simp+
  then have p: "?p = (Done (), snd ?p)" and o: "opt_socket (cli_options (snd ?p)) \<in> {None, Some ''/tmp/s''}"
    by (simp_all add: prod_eq_iff)
  have x: "fst ?r = Exited 1" by code_simp
  then have r: "?r = (Exited 1, snd ?r)" by (metis prod.collapse)
  have "run_files ''/tmp/s'' Fresh (history (snd ?r)) \<notin> {Some Fresh, Some Refused, Some Opened}"
    by code_simp
  with helper_follows_protocol[OF p o r] r show ?thesis by blast
qed

section \<open>Every run ends well\<close>

lemmas runs_on_intros = run_order.pres_bind run_order.pres_seq run_order.pres_exit run_order.pres_ret
  run_order.pres_gets run_order.pres_whenp run_order.pres_abort runs_on_sys runs_on_emit runs_on_modify
  runs_on_must preserves_repeat[OF run_order.step_order_axioms]

lemma runs_on_must_be_zero: "preserves runs_on (must_be_zero c)"
  unfolding must_be_zero_def by (auto intro!: runs_on_intros)

lemma runs_on_register: "preserves runs_on (register_exit h)"
  unfolding register_exit_def by (intro runs_on_intros) simp

lemma runs_on_before: "preserves runs_on (before_socket sdk26)"
proof -
  have "preserves runs_on (started net a)" for net a
    unfolding started_def write_interface_info_def by (auto intro!: runs_on_intros split: hans.split)
  then show ?thesis
    unfolding before_socket_def check_os_version_def setup_kq_def start_host_interface_def
      start_interface_with_options_def acquire_network_from_broker_def start_interface_with_network_def
      network_from_ref_def drop_privileges_def must_if_def
    by (auto intro!: runs_on_intros runs_on_must_be_zero runs_on_register runs_on_debug_start
        split: hans.split option.split prod.split)
qed

lemma runs_on_socket: "preserves runs_on setup_socket"
  unfolding setup_socket_def create_socket_lockfile_def create_socket_def socket_path_def
    set_socket_buffers_def place_socket_def wait_for_client_def client_round_def connect_socket_def
  by (auto intro!: runs_on_intros runs_on_must_be_zero runs_on_register simp: set_fd_def
      split: hans.split option.split)

lemma runs_on_steps:
  "preserves runs_on setup_endpoints" "preserves runs_on start_forwarding_from_host"
  "preserves runs_on start_forwarding_from_vm" "preserves runs_on start_stats_timer"
  "preserves runs_on run_until_termination" "preserves runs_on main_end"
  unfolding setup_endpoints_def start_forwarding_from_host_def init_endpoint_def Let_def
    start_forwarding_from_vm_def start_stats_timer_def run_until_termination_def event_round_def
    print_stats_def add_status_def main_end_def
  by (auto intro!: runs_on_intros runs_on_must_be_zero
      split: hans.split option.split reaction.split outcome.split)

lemma runs_on_after: "preserves runs_on after_socket"
  unfolding after_socket_def by (intro run_order.pres_seq runs_on_steps)

lemma runs_on_exit_process: "preserves runs_on exit_process"
proof -
  have "preserves runs_on (run_handlers hs)" for hs
  proof (induction hs)
    case (Cons h hs)
    have "preserves runs_on (run_handler h)"
      by (cases h) (auto simp: stop_host_interface_def remove_socket_lockfile_def remove_socket_silently_def
        intro!: runs_on_intros split: option.split)
    with Cons show ?case by (auto intro: runs_on_intros)
  qed (auto intro: runs_on_intros)
  then show ?thesis unfolding exit_process_def by (intro runs_on_intros)
qed

text \<open>With options that were accepted no assertion fails.\<close>

lemma socket_path_bind:
  "has_path path s \<Longrightarrow> bind socket_path f s = f path s"
  by (simp add: socket_path_def has_path_def bind_def gets_def ret_def)

lemma no_abort_register [never_aborts]: "no_abort (register_exit h)"
  by (rule no_abort_register_exit)

lemma create_lockfile_not_Aborted:
  "has_path path s \<Longrightarrow> create_socket_lockfile s \<noteq> (Aborted, t)"
  unfolding create_socket_lockfile_def by (simp add: socket_path_bind no_abortD never_aborts)

lemma no_abort_buffers [never_aborts]: "no_abort (set_socket_buffers fd)"
  unfolding set_socket_buffers_def by (auto intro!: never_aborts)

lemma place_socket_not_Aborted:
  "has_path path s \<Longrightarrow> place_socket fd s \<noteq> (Aborted, t)"
  unfolding place_socket_def by (auto simp: socket_path_bind intro!: no_abortD never_aborts)

lemma create_socket_not_Aborted:
  assumes "has_path path s"
  shows "create_socket s \<noteq> (Aborted, t)"
proof -
  have "has_path path u" if "sys Socket s = (Done a, v)"
    and "set_socket_buffers fd (set_fd fd v) = (Done (), u)" for a u v fd
    using that assms by (auto simp: set_socket_buffers_def bind_Done sys_Done has_path_def set_fd_def)
  then show ?thesis
    using no_abortD[OF no_abort_buffers] place_socket_not_Aborted[of path]
    by (auto simp: create_socket_def seq_def bind_Aborted modify_ends split: if_splits)
qed

lemma socket_not_Aborted:
  assumes "opt_fd (h_options s) = -1 \<longrightarrow> has_path path s"
  shows "setup_socket s \<noteq> (Aborted, t)"
proof (cases "opt_fd (h_options s) = -1")
  case True
  have rest: "no_abort (seq wait_for_client connect_socket)"
    unfolding wait_for_client_def client_round_def connect_socket_def
    by (auto intro!: never_aborts split: option.split hans.split)
  have keep: "has_path path u" if "create_socket_lockfile s = (Done (), u)" for u
    using create_socket_lockfile_Done[OF that] assms True by (simp add: has_path_def)
  show ?thesis
    using True assms create_lockfile_not_Aborted create_socket_not_Aborted[OF keep] no_abortD[OF rest]
    by (auto simp: setup_socket_def seq_def[of create_socket_lockfile] seq_def[of create_socket] bind_Aborted)
next
  case False
  then show ?thesis by (simp add: setup_socket_def bind_def gets_def ret_def)
qed

lemma main_body_not_Aborted:
  assumes "abs_network (cli_options c) \<noteq> None" and "abs_transport (cli_options c) \<noteq> None" and "list_all clock_ok as"
  shows "main_body sdk26 (main_start as c) \<noteq> (Aborted, t)"
proof
  assume run: "main_body sdk26 (main_start as c) = (Aborted, t)"
  have early: "before_socket sdk26 (main_start as c) \<noteq> (Aborted, t)"
  proof
    assume "before_socket sdk26 (main_start as c) = (Aborted, t)"
    then obtain u v where "check_os_version (main_start as c) = (Done (), u)" "setup_kq u = (Done (), v)"
      "start_host_interface sdk26 v = (Aborted, t)"
      by (auto simp: before_socket_def seq_def bind_Aborted no_abortD never_aborts)
    moreover have "no_files (main_start as c) v"
      using calculation files_order.trans_step preservesD[OF no_files_before(1)] preservesD[OF no_files_before(2)]
      by blast
    then have "h_options v = cli_options c" by (simp add: no_files_def main_start_def)
    ultimately show False using start_host_interface_not_Aborted[of v] assms(1) by simp
  qed
  then obtain s1 where s1: "before_socket sdk26 (main_start as c) = (Done (), s1)"
    and rest: "seq setup_socket after_socket s1 = (Aborted, t)"
    using run by (auto simp: main_parts seq_def[of "before_socket sdk26"] bind_Aborted)
  have "no_files (main_start as c) s1" using preservesD[OF no_files_parts(1) s1] .
  then have o: "h_options s1 = cli_options c" by (simp add: no_files_def main_start_def)
  have "opt_fd (cli_options c) = -1 \<longrightarrow> (\<exists>path. opt_socket (cli_options c) = Some path)"
    using assms(2) by (auto simp: abs_transport_def split: option.splits if_splits)
  then have "setup_socket s1 \<noteq> (Aborted, t)"
    using socket_not_Aborted[of s1] o by (auto simp: has_path_def)
  then obtain s2 where s2: "setup_socket s1 = (Done (), s2)" and after: "after_socket s2 = (Aborted, t)"
    using rest by (auto simp: seq_def bind_Aborted)
  have "list_all clock_ok (answers (main_start as c))" using assms(3) by (simp add: main_start_def helper_init_def)
  then have ok: "list_all clock_ok (answers s2)"
    using runs_on_answers preservesD[OF runs_on_before s1] preservesD[OF runs_on_socket s2] by blast
  obtain u1 u2 u3 u4 where u: "setup_endpoints s2 = (Done (), u1)"
    "start_forwarding_from_host u1 = (Done (), u2)" "start_forwarding_from_vm u2 = (Done (), u3)"
    "start_stats_timer u3 = (Done (), u4)" and run: "run_until_termination u4 = (Aborted, t)"
    using after by (auto simp: after_socket_def seq_def bind_Aborted no_abortD never_aborts)
  have "list_all clock_ok (answers u4)"
    using ok runs_on_answers preservesD[OF runs_on_steps(1) u(1)] preservesD[OF runs_on_steps(2) u(2)]
      preservesD[OF runs_on_steps(3) u(3)] preservesD[OF runs_on_steps(4) u(4)] by blast
  then show False using run_until_termination_since[OF run] by simp
qed

lemma exit_process_ends:
  assumes "seq exit_process (exit_with n) u = (r, t)" shows "r = Exited n \<or> r = Waiting"
proof -
  obtain x v where x: "exit_process u = (x, v)" by fastforce
  moreover have "x \<noteq> Aborted"
    using x no_abortD[OF no_abort_handlers] by (auto simp: exit_process_def bind_Aborted)
  moreover have "x \<noteq> Exited k" for k using exit_process_not_Exited x by blast
  ultimately show ?thesis
    using assms by (cases x) (auto simp: seq_def bind_def exit_with_def)
qed

text \<open>
  C11: Every run of the helper, whatever its command line, whatever the kernel, vmnet and the broker
  answer, exits with status 0 or 1 or waits for an answer: no assertion fails and no NULL string is
  passed to XPC or used as a path.  Assumes that the clock answers with a date in a year of four
  digits and a number of nanoseconds below a second (\<open>clock_ok\<close>).  The debug message of
  \<open>start_host_interface_safe\<close>, which may print a NULL string, does not end a run.
\<close>

theorem helper_main_ends:
  assumes "list_all clock_ok as" and "helper_main e sdk26 args as = (r, t)"
  shows "r \<in> {Exited 0, Exited 1, Waiting}"
proof -
  consider c where "parse_options e args cli_init = (Done (), c)"
    | x c where "parse_options e args cli_init = (Exited x, c)"
    using ends_parse_options unfolding ends_def by (metis old.unit.exhaust)
  then show ?thesis
  proof cases
    case (1 c)
    then have fin: "finish (main_body sdk26) (main_start as c) = (r, t)"
      using assms(2) by (simp add: helper_main_def)
    obtain r1 u where m: "main_body sdk26 (main_start as c) = (r1, u)" by fastforce
    have "r1 \<noteq> Aborted"
      using main_body_not_Aborted parsed_options[OF 1] assms(1) m by blast
    moreover have "r1 \<noteq> Done ()" using main_body_not_Done m by blast
    moreover have "n \<in> {0, 1}" if "r1 = Exited n" for n
      using exits_inD[OF exits_in_main] m that by blast
    moreover have "r = Exited n \<or> r = Waiting" if "r1 = Exited n" for n
    proof -
      have "seq exit_process (exit_with n) u = (r, t)" using fin m that by (simp add: finish_def)
      then show ?thesis by (rule exit_process_ends)
    qed
    moreover have "r = Waiting" if "r1 = Waiting" using fin m that by (simp add: finish_def)
    ultimately show ?thesis by (cases r1) auto
  next
    case (2 x c)
    then show ?thesis using parse_options_exit[OF 2] assms(2) by (auto simp: helper_main_def)
  qed
qed

theorem helper_main_ends_witness:
  "fst (helper_main sample_env True sample_main_options sample_main_answers) \<in> {Exited 0, Exited 1, Waiting}"
proof -
  have "list_all clock_ok sample_main_answers"
    by (simp add: sample_main_answers_def sample_socket_answers_def)
  from helper_main_ends[OF this prod.collapse[symmetric]] show ?thesis .
qed

section \<open>The order of the steps\<close>

text \<open>The calls before the identity is dropped.\<close>

fun plain_call :: "hcall \<Rightarrow> bool" where
  "plain_call (Setuid u) = False"
| "plain_call (Setgid g) = False"
| "plain_call Start_vm_queue = False"
| "plain_call c = (\<not> on_files c)"

definition before_drop :: "bool \<Rightarrow> (helper, unit) prog" where
  "before_drop sdk26 = seq check_os_version (seq setup_kq (start_host_interface sdk26))"

lemma before_socket_drop: "before_socket sdk26 = seq (before_drop sdk26) drop_privileges"
  by (simp add: before_socket_def before_drop_def seq_assoc)

lemmas calls_intros = calls_order.pres_bind calls_order.pres_seq calls_order.pres_exit
  calls_order.pres_ret calls_order.pres_gets calls_order.pres_whenp calls_order.pres_abort
  calls_sys calls_emit calls_modify calls_must calls_debug_start

lemma plain_before: "preserves (calls_in plain_call) (before_drop sdk26)"
proof -
  have "preserves (calls_in plain_call) (started net a)" for net a
    unfolding started_def write_interface_info_def by (auto intro!: calls_intros split: hans.split)
  moreover have "preserves (calls_in plain_call) (must_be_zero c)" if "plain_call c" for c
    unfolding must_be_zero_def using that by (auto intro!: calls_intros)
  ultimately show ?thesis
    unfolding before_drop_def check_os_version_def setup_kq_def start_host_interface_def
      start_interface_with_options_def acquire_network_from_broker_def start_interface_with_network_def
      network_from_ref_def register_exit_def
    by (auto intro!: calls_intros split: hans.split option.split prod.split)
qed

lemma plain_kernel: "list_all (\<lambda>e. plain_call (fst e)) g \<Longrightarrow> kernel_run c g = Some d \<Longrightarrow> d = c"
proof (induction g)
  case (Cons e g)
  then have "kernel c e = Some c \<or> kernel c e = None"
    by (cases "(c, e)" rule: kernel.cases) auto
  with Cons show ?case by (auto split: Option.bind_splits)
qed simp

lemma kernel_step: "kernel c e = Some d \<Longrightarrow> cred_step\<^sup>*\<^sup>* c d"
  by (cases "(c, e)" rule: kernel.cases) (auto intro: cred_step.intros split: if_splits)

lemma kernel_run_steps: "kernel_run c h = Some d \<Longrightarrow> cred_step\<^sup>*\<^sup>* c d"
  by (induction h arbitrary: c) (auto split: Option.bind_splits dest: kernel_step intro: rtranclp_trans)

text \<open>A process that does not come to the socket makes no call on a file.\<close>

lemma stopped_before_socket:
  assumes "before_socket sdk26 (main_start as p) = (r1, s1)" and "r1 \<noteq> Done ()"
    and "finish (main_body sdk26) (main_start as p) = (r, t)" and "e \<in> set (history t)"
  shows "\<not> on_files (fst e)"
proof -
  have m: "main_body sdk26 (main_start as p) = (r1, s1)"
    using assms(1,2) by (cases r1) (auto simp: main_parts seq_def bind_def)
  have n: "no_files (main_start as p) s1" using preservesD[OF no_files_parts(1) assms(1)] .
  then have stop: "filter (\<lambda>h. h \<noteq> Stop_host_interface) (h_atexit s1) = []"
    by (simp add: no_files_def main_start_def helper_init_def)
  have hs: "preserves no_files (run_handlers hs)" if "filter (\<lambda>h. h \<noteq> Stop_host_interface) hs = []" for hs
    using that
  proof (induction hs)
    case (Cons h hs)
    then have "h = Stop_host_interface" by (simp split: if_splits)
    with Cons show ?case by (auto intro!: files_order.pres_seq no_files_stop)
  qed (simp add: files_order.pres_ret)
  have "no_files s1 t"
  proof (cases "\<exists>n. r1 = Exited n")
    case True
    then obtain n where "seq exit_process (exit_with n) s1 = (r, t)"
      using assms(3) m by (auto simp: finish_def)
    then have "seq (run_handlers (h_atexit s1)) (exit_with n) s1 = (r, t)"
      by (simp add: exit_process_def seq_def bind_def gets_def)
    moreover have "preserves no_files (seq (run_handlers (h_atexit s1)) (exit_with n))"
      using hs[OF stop] by (auto intro: files_order.pres_seq)
    ultimately show ?thesis by (rule preservesD[rotated])
  next
    case False
    then have "t = s1" using assms(2,3) m by (cases r1) (auto simp: finish_def)
    then show ?thesis using files_order.refl_step by simp
  qed
  with n have "no_files (main_start as p) t" using files_order.trans_step by blast
  then show ?thesis using assms(4) by (auto simp: no_files_def main_start_def helper_init_def list_all_iff)
qed

lemma finish_extends:
  assumes "before_socket sdk26 (main_start as p) = (Done (), s1)"
    and "finish (main_body sdk26) (main_start as p) = (r, t)"
  shows "\<exists>g. history t = history s1 @ g"
proof -
  obtain r2 s2 where m: "seq setup_socket after_socket s1 = (r2, s2)" by fastforce
  then have body: "main_body sdk26 (main_start as p) = (r2, s2)"
    using assms(1) by (simp add: main_parts seq_def[of "before_socket sdk26"] bind_def)
  have "preserves runs_on (seq setup_socket after_socket)"
    by (intro run_order.pres_seq runs_on_socket runs_on_after)
  then have 1: "runs_on s1 s2" using m by (rule preservesD)
  have "runs_on s2 t"
  proof (cases "\<exists>n. r2 = Exited n")
    case True
    then obtain n where "seq exit_process (exit_with n) s2 = (r, t)"
      using assms(2) body by (auto simp: finish_def)
    moreover have "preserves runs_on (seq exit_process (exit_with n))"
      by (intro run_order.pres_seq runs_on_exit_process run_order.pres_exit)
    ultimately show ?thesis by (rule preservesD[rotated])
  next
    case False
    then have "t = s2" using assms(2) body by (cases r2) (auto simp: finish_def)
    then show ?thesis using run_order.refl_step by simp
  qed
  with 1 have "runs_on s1 t" by (rule run_order.trans_step)
  then show ?thesis by (rule runs_on_history)
qed

lemma later_call:
  assumes "h1 @ e # h2 = g1 @ g2" and "e \<notin> set g1"
  shows "\<exists>x. h1 = g1 @ x"
  using assms by (auto simp: append_eq_append_conv2 Cons_eq_append_conv)

text \<open>
  C5: Started as root for a user, the helper makes every call on the lock file and the socket, from
  the first to those of the exit handlers, as that user and that group in all three ids, never as
  root.
\<close>

theorem files_as_user:
  assumes "parse_options e args cli_init = (Done (), c)"
    and "helper_main e sdk26 args as = (r, t)"
    and "kernel_run root (history t) = Some d" and "euid root = 0"
    and "opt_uid (cli_options c) \<noteq> 0" and "opt_gid (cli_options c) \<noteq> 0"
    and "history t = h1 @ (call, a) # h2" and "on_files call"
  shows "\<exists>d1. kernel_run root h1 = Some d1 \<and> unprivileged (opt_uid (cli_options c)) d1 \<and>
    grouped (opt_gid (cli_options c)) d1"
proof -
  let ?p = "cli_options c"
  have fin: "finish (main_body sdk26) (main_start as c) = (r, t)"
    using assms(1,2) by (simp add: helper_main_def)
  obtain r1 s1 where b: "before_socket sdk26 (main_start as c) = (r1, s1)" by fastforce
  have "r1 = Done ()"
    using stopped_before_socket[OF b _ fin, of "(call, a)"] assms(7,8) by auto
  then obtain s0 where s0: "before_drop sdk26 (main_start as c) = (Done (), s0)"
    and drop: "drop_privileges s0 = (Done (), s1)"
    using b by (auto simp: before_socket_drop seq_Done)
  obtain g where g: "history t = history s1 @ g"
    using finish_extends[OF _ fin] b \<open>r1 = Done ()\<close> by blast
  obtain g0 where g0: "history s0 = g0" "list_all (\<lambda>e. plain_call (fst e)) g0"
    using preservesD[OF plain_before s0] by (auto simp: calls_in_def main_start_def helper_init_def)
  have nf: "no_files (main_start as c) s1" using preservesD[OF no_files_parts(1) b] .
  have "no_files s0 s1" using preservesD[OF no_files_drop drop] .
  then obtain gd where gd: "history s1 = history s0 @ gd" and o: "h_options s1 = h_options s0"
    by (auto simp: no_files_def)
  have ho: "h_options s0 = ?p" using nf o by (simp add: no_files_def main_start_def)
  obtain k0 where k0: "kernel_run root g0 = Some k0"
    and k: "kernel_run k0 (gd @ g) = Some d"
    using assms(3) g gd g0(1) by (auto simp: kernel_run_append split: Option.bind_splits)
  have "k0 = root" using plain_kernel[OF g0(2) k0] .
  then obtain k1 where k1: "kernel_run root gd = Some k1"
    using k by (auto simp: kernel_run_append split: Option.bind_splits)
  have dropped: "dropped_to (opt_uid ?p) (opt_gid ?p) k1"
    using drop_privileges_Done[OF drop gd k1 assms(4)] ho assms(5,6) by (simp add: dropped_to_def)
  have "(call, a) \<notin> set (history s1)"
    using nf assms(8) by (auto simp: no_files_def main_start_def helper_init_def list_all_iff)
  then obtain x where x: "h1 = history s1 @ x" using later_call[of h1 "(call, a)" h2] g assms(7) by metis
  have "kernel_run root h1 \<noteq> None"
    using assms(3) unfolding assms(7) kernel_run_append by (auto split: Option.bind_splits)
  then obtain d1 where d1: "kernel_run root h1 = Some d1" by blast
  then have "kernel_run k1 x = Some d1"
    using x gd g0(1) k0 \<open>k0 = root\<close> k1 by (simp add: kernel_run_append)
  then have "cred_step\<^sup>*\<^sup>* k1 d1" by (rule kernel_run_steps)
  with dropped have "dropped_to (opt_uid ?p) (opt_gid ?p) d1" by (rule dropped.inv_steps[rotated])
  with d1 show ?thesis by (simp add: dropped_to_def)
qed

definition sample_root_answers :: "hans list" where
  "sample_root_answers = [Version (Inr ''26.1''), Returns 0, Returns 3, Returns 0, Returns 0,
     Started True VMNET_SUCCESS sample_param, Returns 0,
     Returns 0, Returns 0, Returns 0, Returns 501, Returns 0, Fails (E_other 35), Stopped VMNET_SUCCESS VMNET_SUCCESS]"

text \<open>Another server holds the lock file: the helper exits, and the call was made as the user.\<close>

theorem files_as_user_witness:
  "\<exists>t h1 h2 d. helper_main sample_env True sample_main_options sample_root_answers = (Exited 1, t) \<and>
     history t = h1 @ (Open_lockfile ''/tmp/s.lock'', Some (Fails (E_other 35))) # h2 \<and>
     kernel_run root_cred h1 = Some d \<and> unprivileged 501 d"
proof -
  let ?p = "parse_options sample_env sample_main_options cli_init"
  let ?r = "helper_main sample_env True sample_main_options sample_root_answers"
  let ?h = "history (snd ?r)"
  let ?i = "length ?h - 2"
  have "fst ?p = Done ()" and o: "opt_uid (cli_options (snd ?p)) = 501" "opt_gid (cli_options (snd ?p)) = 20"
    unfolding sample_main_options_def by code_simp+
  then have p: "?p = (Done (), snd ?p)" by (simp add: prod_eq_iff)
  have "fst ?r = Exited 1" by code_simp
  then have r: "?r = (Exited 1, snd ?r)" by (simp add: prod_eq_iff)
  have "kernel_run root_cred ?h \<noteq> None" by code_simp
  then obtain d where d: "kernel_run root_cred ?h = Some d" by blast
  have "?i < length ?h" by code_simp
  moreover have "?h ! ?i = (Open_lockfile ''/tmp/s.lock'', Some (Fails (E_other 35)))" by code_simp
  ultimately have h: "?h = take ?i ?h @ (Open_lockfile ''/tmp/s.lock'', Some (Fails (E_other 35))) # drop (Suc ?i) ?h"
    by (metis id_take_nth_drop)
  have e: "euid root_cred = 0" by (simp add: root_cred_def)
  have n: "opt_uid (cli_options (snd ?p)) \<noteq> 0" "opt_gid (cli_options (snd ?p)) \<noteq> 0" using o by simp_all
  from files_as_user[OF p r d e n h] obtain d1
    where "kernel_run root_cred (take ?i ?h) = Some d1" "unprivileged 501 d1" using o by auto
  with r h show ?thesis by blast
qed

text \<open>
  C35: With \<open>--network\<close> on a macOS before 26 the helper exits with status 1 before it calls
  vmnet, the broker or the kernel's event queue: asking for the version is its only call.
\<close>

theorem network_requires_26:
  assumes "parse_options e args cli_init = (Done (), c)" and "opt_network_name (cli_options c) \<noteq> None"
    and "os_product_version answer os_version_zero = (0, v)"
    and "v < \<lparr>major = 26, minor = 0, point = 0\<rparr>" and "0 \<le> minor v" and "0 \<le> point v"
  shows "\<exists>t. helper_main e sdk26 args (Version answer # as) = (Exited 1, t) \<and>
    map fst (history t) = [Sysctlbyname ''kern.osproductversion'']"
proof -
  have "major v < 26" using assms(4) major_before[OF assms(5,6)] by blast
  then have "check_os_version (main_start (Version answer # as) c) =
      (Exited 1, (main_start as c)\<lparr>history :=
        [(Sysctlbyname ''kern.osproductversion'', Some (Version answer))]\<rparr>)"
    using assms(2,3)
    by (auto simp: check_os_version_def prog_defs sys_def main_start_def helper_init_def)
  then show ?thesis
    using assms(1)
    by (auto simp: helper_main_def finish_def main_body_def seq_def bind_def exit_process_def gets_def
        main_start_def helper_init_def ret_def exit_with_def)
qed

theorem network_requires_26_witness:
  "\<exists>t. helper_main sample_env True [''--fd=3'', ''--network=shared''] [Version (Inr ''15.7.1'')] = (Exited 1, t) \<and>
     map fst (history t) = [Sysctlbyname ''kern.osproductversion'']"
proof -
  let ?p = "parse_options sample_env [''--fd=3'', ''--network=shared''] cli_init"
  let ?v = "\<lparr>major = 15, minor = 7, point = 1\<rparr> :: os_version"
  have "fst ?p = Done ()" and o: "opt_network_name (cli_options (snd ?p)) \<noteq> None" by code_simp+
  then have p: "?p = (Done (), snd ?p)" by (simp add: prod_eq_iff)
  have v: "os_product_version (Inr ''15.7.1'') os_version_zero = (0, ?v)" by code_simp
  have "?v < \<lparr>major = 26, minor = 0, point = 0\<rparr>" by (simp add: major_before)
  from network_requires_26[OF p o v this] show ?thesis by simp
qed

end
