(* ===== verification/Workers.thy ===== *)
theory Workers
  imports Helper_Main
begin

text \<open>
  What is in place when the thread that reads from the VM starts (\<open>main\<close> of \<open>programs/helper.c\<close>), and
  what is no longer done after it.
\<close>

section \<open>Before and after the thread\<close>

definition in_place :: "(hcall \<times> hans option) list \<Rightarrow> bool" where
  "in_place g \<longleftrightarrow> (\<exists>a. (Kevent_change kq_changes, Some a) \<in> set g \<and> retval a = 0) \<and>
     (Vmnet_set_event_callback, Some (Vmnet_status VMNET_SUCCESS)) \<in> set g"

fun late_call :: "hcall \<Rightarrow> bool" where
  "late_call Start_vm_queue = False"
| "late_call (Setuid u) = False"
| "late_call (Setgid g) = False"
| "late_call (Open_lockfile f) = False"
| "late_call (Bind fd f) = False"
| "late_call (Connect fd c) = False"
| "late_call (Vmnet_start_interface d) = False"
| "late_call (Vmnet_interface_start_with_network d) = False"
| "late_call (Calloc n u) = False"
| "late_call Kqueue = False"
| "late_call c = True"

text \<open>The phases of a run: no thread yet, the events registered, the callback set, the thread started.\<close>

definition no_thread :: "helper \<Rightarrow> bool" where
  "no_thread s \<longleftrightarrow> list_all (\<lambda>e. fst e \<noteq> Start_vm_queue) (history s)"

definition with_events :: "helper \<Rightarrow> bool" where
  "with_events s \<longleftrightarrow> no_thread s \<and> (\<exists>a. (Kevent_change kq_changes, Some a) \<in> set (history s) \<and> retval a = 0)"

definition with_callback :: "helper \<Rightarrow> bool" where
  "with_callback s \<longleftrightarrow> no_thread s \<and> in_place (history s)"

definition with_thread :: "helper \<Rightarrow> bool" where
  "with_thread s \<longleftrightarrow> (\<exists>g h. history s = g @ (Start_vm_queue, None) # h \<and>
     list_all (\<lambda>e. fst e \<noteq> Start_vm_queue) g \<and> in_place g \<and> list_all (\<lambda>e. late_call (fst e)) h)"

definition well_started :: "helper \<Rightarrow> bool" where
  "well_started s \<longleftrightarrow> no_thread s \<or> with_thread s"

lemma phases:
  "no_thread s \<Longrightarrow> well_started s" "with_events s \<Longrightarrow> well_started s"
  "with_callback s \<Longrightarrow> well_started s" "with_thread s \<Longrightarrow> well_started s"
  by (simp_all add: well_started_def with_events_def with_callback_def)

abbreviation not_start :: "hcall \<Rightarrow> bool" where
  "not_start c \<equiv> c \<noteq> Start_vm_queue"

lemma phases_kept:
  "calls_in not_start s t \<Longrightarrow> no_thread s \<Longrightarrow> no_thread t"
  "calls_in not_start s t \<Longrightarrow> with_events s \<Longrightarrow> with_events t"
  "calls_in late_call s t \<Longrightarrow> with_thread s \<Longrightarrow> with_thread t"
  unfolding calls_in_def no_thread_def with_events_def with_thread_def by fastforce+

lemma keeps_triple:
  assumes "preserves (calls_in C) m" and "\<And>s t. calls_in C s t \<Longrightarrow> P s \<Longrightarrow> P t" and "\<And>s. P s \<Longrightarrow> well_started s"
  shows "triple P m (\<lambda>_. P) well_started"
  unfolding triple_def
proof (intro allI impI)
  fix s r t assume "P s" "m s = (r, t)"
  then have "P t" using assms(2)[OF preservesD[OF assms(1)]] by blast
  then show "case r of Done x \<Rightarrow> P t | _ \<Rightarrow> well_started t" by (cases r) (auto intro: assms(3))
qed

section \<open>The calls of the steps\<close>

lemma calls_must_be_zero: "P c \<Longrightarrow> preserves (calls_in P) (must_be_zero c)"
  unfolding must_be_zero_def by (auto intro!: calls_intros)

lemma calls_register: "P (Atexit h) \<Longrightarrow> preserves (calls_in P) (register_exit h)"
  unfolding register_exit_def by (auto intro!: calls_intros)

lemma calls_init_endpoint: "(\<And>n u. P (Calloc n u)) \<Longrightarrow> preserves (calls_in P) (init_endpoint nm mps)"
  unfolding init_endpoint_def Let_def by (auto intro!: calls_intros)

lemmas step_intros = calls_intros calls_must_be_zero calls_register calls_init_endpoint
  preserves_repeat[OF calls_order.step_order_axioms]

lemma calls_start_host: "preserves (calls_in not_start) (start_host_interface sdk26)"
proof -
  have "preserves (calls_in not_start) (started net a)" for net a
    unfolding started_def write_interface_info_def by (auto intro!: step_intros split: hans.split)
  then show ?thesis
    unfolding start_host_interface_def start_interface_with_options_def acquire_network_from_broker_def
      start_interface_with_network_def network_from_ref_def
    by (auto intro!: step_intros split: hans.split option.split prod.split)
qed

lemma calls_setup_socket: "preserves (calls_in not_start) setup_socket"
  unfolding setup_socket_def create_socket_lockfile_def create_socket_def socket_path_def set_socket_buffers_def
    place_socket_def wait_for_client_def client_round_def connect_socket_def
  by (auto intro!: step_intros simp: set_fd_def split: hans.split option.split)

lemma calls_early:
  "preserves (calls_in not_start) check_os_version"
  "preserves (calls_in not_start) drop_privileges"
  "preserves (calls_in not_start) setup_endpoints"
  unfolding check_os_version_def drop_privileges_def must_if_def setup_endpoints_def
  by (auto intro!: step_intros split: hans.split prod.split)

lemma calls_late:
  "preserves (calls_in late_call) start_stats_timer"
  "preserves (calls_in late_call) run_until_termination"
  "preserves (calls_in late_call) main_end"
  unfolding start_stats_timer_def run_until_termination_def event_round_def print_stats_def add_status_def
    main_end_def
  by (auto intro!: step_intros split: option.split hans.split reaction.split outcome.split)

lemma calls_exit_process:
  assumes "\<And>f. P (Remove f)" and "P Vmnet_stop_interface"
  shows "preserves (calls_in P) exit_process"
proof -
  have "preserves (calls_in P) (run_handler h)" for h
    using assms by (cases h) (auto simp: stop_host_interface_def remove_socket_lockfile_def
        remove_socket_silently_def intro!: step_intros split: option.split hans.split)
  then have "preserves (calls_in P) (run_handlers hs)" for hs
    by (induction hs) (auto intro!: step_intros)
  then show ?thesis unfolding exit_process_def by (intro step_intros)
qed

section \<open>The phases of a run\<close>

lemma early_triple:
  "preserves (calls_in not_start) m \<Longrightarrow> triple no_thread m (\<lambda>_. no_thread) well_started"
  by (rule keeps_triple) (auto intro: phases_kept phases)

lemma events_triple:
  "preserves (calls_in not_start) m \<Longrightarrow> triple with_events m (\<lambda>_. with_events) well_started"
  by (rule keeps_triple) (auto intro: phases_kept phases)

lemma thread_triple:
  "preserves (calls_in late_call) m \<Longrightarrow> triple with_thread m (\<lambda>_. with_thread) well_started"
  by (rule keeps_triple) (auto intro: phases_kept phases)

lemma kq_phase: "triple no_thread (must_be_zero (Kevent_change kq_changes)) (\<lambda>_. with_events) well_started"
  unfolding must_be_zero_def
proof (rule triple_bind[where R = "\<lambda>a s. no_thread s \<and> (Kevent_change kq_changes, Some a) \<in> set (history s)"])
  show "triple no_thread (sys (Kevent_change kq_changes))
      (\<lambda>a s. no_thread s \<and> (Kevent_change kq_changes, Some a) \<in> set (history s)) well_started"
    by (rule triple_sys) (simp_all add: no_thread_def phases)
  fix a
  show "triple (\<lambda>s. no_thread s \<and> (Kevent_change kq_changes, Some a) \<in> set (history s))
      (if retval a \<noteq> 0 then exit_with EXIT_FAILURE else ret ()) (\<lambda>_. with_events) well_started"
    by (auto intro!: triple_exit triple_ret phases(1) simp: with_events_def)
qed

lemma setup_kq_phase: "triple no_thread setup_kq (\<lambda>_. with_events) well_started"
proof -
  have exit_if: "preserves (calls_in not_start) (if b then exit_with EXIT_FAILURE else ret ())" for b
    by (auto intro!: step_intros)
  show ?thesis
    unfolding setup_kq_def
    by (rule triple_bind[OF early_triple[OF calls_sys]], simp,
        rule triple_seq[OF early_triple[OF calls_modify]], simp,
        rule triple_seq[OF early_triple[OF exit_if]],
        rule triple_seq[OF early_triple[OF calls_must_be_zero]], simp,
        rule triple_seq[OF early_triple[OF calls_emit]], simp, rule kq_phase)
qed

lemma callback_phase: "triple with_events start_forwarding_from_host (\<lambda>_. with_callback) well_started"
  unfolding start_forwarding_from_host_def
proof (rule triple_bind[where R = "\<lambda>a s. with_events s \<and> (Vmnet_set_event_callback, Some a) \<in> set (history s)"])
  show "triple with_events (sys Vmnet_set_event_callback)
      (\<lambda>a s. with_events s \<and> (Vmnet_set_event_callback, Some a) \<in> set (history s)) well_started"
    by (rule triple_sys) (auto simp: no_thread_def with_events_def phases)
  fix a
  show "triple (\<lambda>s. with_events s \<and> (Vmnet_set_event_callback, Some a) \<in> set (history s))
      (case a of Vmnet_status status \<Rightarrow> if status \<noteq> VMNET_SUCCESS then exit_with EXIT_FAILURE else ret ()
       | _ \<Rightarrow> exit_with EXIT_FAILURE) (\<lambda>_. with_callback) well_started"
    by (auto intro!: triple_exit triple_ret phases(1) split: hans.split
        simp: with_callback_def with_events_def in_place_def)
qed

lemma thread_phase: "triple with_callback start_forwarding_from_vm (\<lambda>_. with_thread) well_started"
  unfolding start_forwarding_from_vm_def
proof (rule triple_emit)
  fix s assume "with_callback s"
  then show "with_thread (s\<lparr>history := history s @ [(Start_vm_queue, None)]\<rparr>)"
    unfolding with_callback_def no_thread_def with_thread_def
    by (intro exI[of _ "history s"] exI[of _ "[]"]) simp
qed

lemma main_phases: "triple no_thread (main_body sdk26) (\<lambda>_. well_started) well_started"
proof -
  have last: "triple with_thread main_end (\<lambda>_. well_started) well_started"
    by (rule triple_weaken[OF thread_triple[OF calls_late(3)]]) (auto intro: phases)
  show ?thesis
    unfolding main_body_def
    by (rule triple_seq[OF early_triple[OF calls_early(1)]] triple_seq[OF setup_kq_phase]
      triple_seq[OF events_triple[OF calls_start_host]] triple_seq[OF events_triple[OF calls_early(2)]]
      triple_seq[OF events_triple[OF calls_setup_socket]] triple_seq[OF events_triple[OF calls_early(3)]]
      triple_seq[OF callback_phase] triple_seq[OF thread_phase] triple_seq[OF thread_triple[OF calls_late(1)]]
      triple_seq[OF thread_triple[OF calls_late(2)]] last)+
qed

lemma exit_phases:
  assumes "well_started s" and "exit_process s = (r, t)"
  shows "well_started t"
proof -
  have "calls_in not_start s t" "calls_in late_call s t"
    by (rule preservesD[OF calls_exit_process assms(2)]; simp)+
  then show ?thesis using assms(1) phases_kept unfolding well_started_def by blast
qed

section \<open>Property\<close>

text \<open>
  C13: In every run of the helper the thread that reads from the VM is started at most once, and only
  when the shutdown event it will trigger and the signals are registered and vmnet's events are
  set up; after it the helper opens, binds and connects nothing, starts no interface, allocates no
  endpoint and changes no identity.
\<close>

theorem thread_starts_last:
  assumes "helper_main e sdk26 args as = (r, t)"
  shows "list_all (\<lambda>c. fst c \<noteq> Start_vm_queue) (history t) \<or>
    (\<exists>g h. history t = g @ (Start_vm_queue, None) # h \<and>
       list_all (\<lambda>c. fst c \<noteq> Start_vm_queue) g \<and> in_place g \<and> list_all (\<lambda>c. late_call (fst c)) h)"
proof -
  have start: "no_thread (main_start as p)" "no_thread (helper_init as)" for p
    by (simp_all add: no_thread_def main_start_def helper_init_def)
  have body: "well_started (snd (main_body sdk26 (main_start as p)))" for p
    using main_phases start(1)[of p] unfolding triple_def
    by (cases "main_body sdk26 (main_start as p)"; cases "fst (main_body sdk26 (main_start as p))") fastforce+
  have "well_started t"
  proof (cases "\<exists>c. parse_options e args cli_init = (Done (), c)")
    case True
    then obtain c where "parse_options e args cli_init = (Done (), c)" by blast
    then have f: "finish (main_body sdk26) (main_start as c) = (r, t)"
      using assms by (simp add: helper_main_def)
    obtain r1 u where m: "main_body sdk26 (main_start as c) = (r1, u)" by fastforce
    then have u: "well_started u" using body[of c] by simp
    show ?thesis
    proof (cases "\<exists>n. r1 = Exited n")
      case True
      then obtain n where "seq exit_process (exit_with n) u = (r, t)"
        using f m by (auto simp: finish_def)
      then have "t = snd (exit_process u)"
        by (auto simp: seq_def bind_def exit_with_def split: prod.splits outcome.splits)
      then show ?thesis using exit_phases[OF u prod.collapse[symmetric]] by simp
    next
      case False
      then have "t = u" using f m by (cases r1) (auto simp: finish_def)
      then show ?thesis using u by simp
    qed
  next
    case False
    then have "t = helper_init as"
      using assms by (auto simp: helper_main_def split: prod.splits outcome.splits)
    then show ?thesis using phases(1)[OF start(2)] by simp
  qed
  then show ?thesis by (simp add: well_started_def no_thread_def with_thread_def)
qed

text \<open>A run with a connected descriptor that a signal ends; vmnet gives no parameters.\<close>

definition sample_thread_answers :: "hans list" where
  "sample_thread_answers = [Version (Inr ''26.1''), Returns 501, Returns 3, Returns 0, Returns 0,
     Started True VMNET_SUCCESS [], Returns 0, Returns 501,
     Returns 0, Returns 0, Returns 0, Returns 0, Returns 0, Returns 0, Returns 0, Returns 0,
     Vmnet_status VMNET_SUCCESS, Event (an_event EVFILT_SIGNAL 15 0), Stopped VMNET_SUCCESS VMNET_SUCCESS]"

theorem thread_starts_last_witness:
  "\<exists>t g h. helper_main sample_env True [''--fd=3''] sample_thread_answers = (Exited 0, t) \<and>
     history t = g @ (Start_vm_queue, None) # h \<and> in_place g"
proof -
  let ?r = "helper_main sample_env True [''--fd=3''] sample_thread_answers"
  have x: "case ?r of (x, t) \<Rightarrow> x = Exited 0 \<and> \<not> list_all (\<lambda>c. fst c \<noteq> Start_vm_queue) (history t)"
    by code_simp
  then have r: "?r = (Exited 0, snd ?r)" and "\<not> list_all (\<lambda>c. fst c \<noteq> Start_vm_queue) (history (snd ?r))"
    by (auto simp: prod_eq_iff split: prod.splits)
  with thread_starts_last[OF r] r show ?thesis by blast
qed

end
