(* ===== verification/Run_Options.thy ===== *)
theory Run_Options
  imports Options
begin

text \<open>
  The command line of vmnet-run (\<open>programs/run.c\<close>): options for the helper, checked but kept as
  text, and the command to run.  The environment \<open>env\<close> is that of \<open>Options\<close>.
\<close>

section \<open>State\<close>

record client_options =
  cl_interface_id :: "string option"
  cl_operation_mode :: "string option"
  cl_start_address :: "string option"
  cl_end_address :: "string option"
  cl_subnet_mask :: "string option"
  cl_shared_interface :: "string option"
  cl_network_name :: "string option"
  cl_stats_interval :: "string option"
  cl_enable_tso :: bool
  cl_enable_checksum_offload :: bool
  cl_enable_isolation :: bool

definition client_options_init :: client_options where
  "client_options_init = \<lparr>cl_interface_id = None, cl_operation_mode = None, cl_start_address = None,
     cl_end_address = None, cl_subnet_mask = None, cl_shared_interface = None, cl_network_name = None,
     cl_stats_interval = None, cl_enable_tso = False, cl_enable_checksum_offload = False,
     cl_enable_isolation = False\<rparr>"

record run_cli =
  rc_options :: client_options
  rc_verbose :: bool
  rc_stdout :: string
  rc_command :: "string list"

definition run_cli_init :: run_cli where
  "run_cli_init = \<lparr>rc_options = client_options_init, rc_verbose = False, rc_stdout = [], rc_command = []\<rparr>"

definition set_client :: "(client_options \<Rightarrow> client_options) \<Rightarrow> (run_cli, unit) prog" where
  "set_client f = modify (\<lambda>c. c\<lparr>rc_options := f (rc_options c)\<rparr>)"

section \<open>The option table\<close>

datatype run_opt =
    Run_Short char
  | RUN_INTERFACE_ID
  | RUN_OPERATION_MODE
  | RUN_SHARED_INTERFACE
  | RUN_START_ADDRESS
  | RUN_END_ADDRESS
  | RUN_SUBNET_MASK
  | RUN_ENABLE_TSO
  | RUN_ENABLE_CHECKSUM_OFFLOAD
  | RUN_ENABLE_ISOLATION
  | RUN_NETWORK
  | RUN_STATS_INTERVAL
  | RUN_VERSION

definition run_short_options :: string where
  "run_short_options = '':vh''"

definition run_long_options :: "run_opt long_options" where
  "run_long_options =
    [(''interface-id'',            required_argument, RUN_INTERFACE_ID),
     (''operation-mode'',          required_argument, RUN_OPERATION_MODE),
     (''shared-interface'',        required_argument, RUN_SHARED_INTERFACE),
     (''start-address'',           required_argument, RUN_START_ADDRESS),
     (''end-address'',             required_argument, RUN_END_ADDRESS),
     (''subnet-mask'',             required_argument, RUN_SUBNET_MASK),
     (''enable-tso'',              no_argument,       RUN_ENABLE_TSO),
     (''enable-checksum-offload'', no_argument,       RUN_ENABLE_CHECKSUM_OFFLOAD),
     (''enable-isolation'',        no_argument,       RUN_ENABLE_ISOLATION),
     (''network'',                 required_argument, RUN_NETWORK),
     (''stats-interval'',          required_argument, RUN_STATS_INTERVAL),
     (''verbose'',                 no_argument,       Run_Short (CHR ''v'')),
     (''version'',                 no_argument,       RUN_VERSION),
     (''help'',                    no_argument,       Run_Short (CHR ''h''))]"

interpretation run_table: option_table run_short_options run_long_options Run_Short
  by unfold_locales (auto simp: run_long_options_def)

definition run_usage :: "int \<Rightarrow> ('s, 'a) prog" where
  "run_usage code = exit_with code"

section \<open>Checks\<close>

definition is_shared :: "string option \<Rightarrow> bool" where
  "is_shared mode \<longleftrightarrow> mode \<noteq> None \<and> mode = Some ''shared''"

definition is_host :: "string option \<Rightarrow> bool" where
  "is_host mode \<longleftrightarrow> mode \<noteq> None \<and> mode = Some ''host''"

definition is_bridged :: "string option \<Rightarrow> bool" where
  "is_bridged mode \<longleftrightarrow> mode \<noteq> None \<and> mode = Some ''bridged''"

definition validate_interface_id :: "env \<Rightarrow> string \<Rightarrow> ('s, unit) prog" where
  "validate_interface_id e arg =
     (if uuid_parse e arg = None then exit_with EXIT_FAILURE else ret ())"

definition validate_operation_mode :: "string \<Rightarrow> ('s, unit) prog" where
  "validate_operation_mode arg =
     (if \<not> is_shared (Some arg) \<and> \<not> is_host (Some arg) \<and> \<not> is_bridged (Some arg)
      then exit_with EXIT_FAILURE else ret ())"

definition validate_address :: "env \<Rightarrow> string \<Rightarrow> ('s, unit) prog" where
  "validate_address e arg = (if \<not> inet_aton e arg then exit_with EXIT_FAILURE else ret ())"

text \<open>The \<open>switch\<close> of the loop; \<open>optname\<close> is used in messages only.\<close>

fun handle_run_option ::
  "env \<Rightarrow> string option \<Rightarrow> run_opt getopt_ret \<Rightarrow> (run_cli, unit) prog" where
  "handle_run_option e optname (Opt (Run_Short c) a) =
     (if c = CHR ''h'' then run_usage 0
      else if c = CHR ''v'' then modify (\<lambda>s. s\<lparr>rc_verbose := True\<rparr>)
      else exit_with EXIT_FAILURE)"
| "handle_run_option e optname (Opt RUN_INTERFACE_ID a) =
     seq (validate_interface_id e (optarg a)) (set_client (\<lambda>p. p\<lparr>cl_interface_id := Some (optarg a)\<rparr>))"
| "handle_run_option e optname (Opt RUN_OPERATION_MODE a) =
     seq (validate_operation_mode (optarg a)) (set_client (\<lambda>p. p\<lparr>cl_operation_mode := Some (optarg a)\<rparr>))"
| "handle_run_option e optname (Opt RUN_SHARED_INTERFACE a) =
     set_client (\<lambda>p. p\<lparr>cl_shared_interface := Some (optarg a)\<rparr>)"
| "handle_run_option e optname (Opt RUN_START_ADDRESS a) =
     seq (validate_address e (optarg a)) (set_client (\<lambda>p. p\<lparr>cl_start_address := Some (optarg a)\<rparr>))"
| "handle_run_option e optname (Opt RUN_END_ADDRESS a) =
     seq (validate_address e (optarg a)) (set_client (\<lambda>p. p\<lparr>cl_end_address := Some (optarg a)\<rparr>))"
| "handle_run_option e optname (Opt RUN_SUBNET_MASK a) =
     seq (validate_address e (optarg a)) (set_client (\<lambda>p. p\<lparr>cl_subnet_mask := Some (optarg a)\<rparr>))"
| "handle_run_option e optname (Opt RUN_ENABLE_TSO a) =
     set_client (\<lambda>p. p\<lparr>cl_enable_tso := True\<rparr>)"
| "handle_run_option e optname (Opt RUN_ENABLE_CHECKSUM_OFFLOAD a) =
     set_client (\<lambda>p. p\<lparr>cl_enable_checksum_offload := True\<rparr>)"
| "handle_run_option e optname (Opt RUN_ENABLE_ISOLATION a) =
     set_client (\<lambda>p. p\<lparr>cl_enable_isolation := True\<rparr>)"
| "handle_run_option e optname (Opt RUN_NETWORK a) =
     set_client (\<lambda>p. p\<lparr>cl_network_name := Some (optarg a)\<rparr>)"
| "handle_run_option e optname (Opt RUN_STATS_INTERVAL a) =
     set_client (\<lambda>p. p\<lparr>cl_stats_interval := Some (optarg a)\<rparr>)"
| "handle_run_option e optname (Opt RUN_VERSION a) =
     seq (modify (\<lambda>s. s\<lparr>rc_stdout := rc_stdout s @ ''version: '' @ git_version e @ ''\<newline>commit: '' @ git_commit e @ ''\<newline>''\<rparr>))
       (exit_with 0)"
| "handle_run_option e optname Missing_argument = exit_with EXIT_FAILURE"
| "handle_run_option e optname Bad_option = exit_with EXIT_FAILURE"
| "handle_run_option e optname End_of_options = ret ()"

text \<open>The checks after the loop, in the order of the code.\<close>

definition check_run_options :: "client_options \<Rightarrow> (run_cli, unit) prog" where
  "check_run_options p =
     (if cl_network_name p \<noteq> None then
        if cl_operation_mode p \<noteq> None then exit_with EXIT_FAILURE
        else if cl_shared_interface p \<noteq> None then exit_with EXIT_FAILURE
        else if cl_start_address p \<noteq> None then exit_with EXIT_FAILURE
        else if cl_end_address p \<noteq> None then exit_with EXIT_FAILURE
        else if cl_subnet_mask p \<noteq> None then exit_with EXIT_FAILURE
        else ret ()
      else if is_bridged (cl_operation_mode p) then
        if cl_shared_interface p = None then exit_with EXIT_FAILURE
        else if cl_enable_isolation p then exit_with EXIT_FAILURE
        else ret ()
      else ret ())"

text \<open>\<open>rest\<close> is \<open>&argv[optind]\<close>.\<close>

definition run_parse_options :: "env \<Rightarrow> string list \<Rightarrow> (run_cli, unit) prog" where
  "run_parse_options e args =
     bind (getopt_loop run_short_options run_long_options Run_Short (handle_run_option e) (argv_state args)) (\<lambda>rest.
     seq (bind (gets rc_options) check_run_options)
    (seq (modify (\<lambda>s. s\<lparr>rc_command := rest\<rparr>))
         (if rest = [] then run_usage 1 else ret ())))"

section \<open>What an accepted command line promises\<close>

definition client_ok :: "env \<Rightarrow> client_options \<Rightarrow> bool" where
  "client_ok e p \<longleftrightarrow>
     (\<forall>x. cl_interface_id p = Some x \<longrightarrow> uuid_parse e x \<noteq> None) \<and>
     (\<forall>x. cl_operation_mode p = Some x \<longrightarrow> x \<in> {''shared'', ''host'', ''bridged''}) \<and>
     (\<forall>x. cl_start_address p = Some x \<longrightarrow> inet_aton e x) \<and>
     (\<forall>x. cl_end_address p = Some x \<longrightarrow> inet_aton e x) \<and>
     (\<forall>x. cl_subnet_mask p = Some x \<longrightarrow> inet_aton e x)"

definition client_consistent :: "client_options \<Rightarrow> bool" where
  "client_consistent p \<longleftrightarrow>
     (cl_network_name p \<noteq> None \<longrightarrow> cl_operation_mode p = None \<and> cl_shared_interface p = None \<and>
        cl_start_address p = None \<and> cl_end_address p = None \<and> cl_subnet_mask p = None) \<and>
     (cl_operation_mode p = Some ''bridged'' \<longrightarrow> cl_shared_interface p \<noteq> None \<and> \<not> cl_enable_isolation p)"

lemma handle_run_option_ok: "keeps (\<lambda>c. client_ok e (rc_options c)) (handle_run_option e)"
proof (rule keepsI)
  fix n v s s'
  assume "client_ok e (rc_options s)" and "handle_run_option e n v s = (Done (), s')"
  then show "client_ok e (rc_options s')"
    by (cases "(e, n, v)" rule: handle_run_option.cases)
      (auto simp: prog_ends client_ok_def set_client_def run_usage_def validate_interface_id_def
         validate_operation_mode_def validate_address_def is_shared_def is_host_def is_bridged_def
         split: if_splits)
qed

lemma check_run_options_ends:
  "check_run_options p s = (Done u, t) \<longleftrightarrow> t = s \<and> client_consistent p"
  "check_run_options p s = (Exited c, t) \<longleftrightarrow> t = s \<and> c = 1 \<and> \<not> client_consistent p"
  by (auto simp: check_run_options_def client_consistent_def is_bridged_def)

lemma run_parsed:
  assumes "run_parse_options e args run_cli_init = (Done (), c)"
  shows "client_ok e (rc_options c) \<and> client_consistent (rc_options c) \<and> rc_command c \<noteq> []"
proof -
  obtain rest t where loop: "getopt_loop run_short_options run_long_options Run_Short
      (handle_run_option e) (argv_state args) run_cli_init = (Done rest, t)"
    and c: "c = t\<lparr>rc_command := rest\<rparr>" "rest \<noteq> []" "client_consistent (rc_options t)"
    using assms
    by (auto simp: run_parse_options_def prog_ends check_run_options_ends run_usage_def split: if_splits)
  have "client_ok e (rc_options run_cli_init)"
    by (simp add: client_ok_def run_cli_init_def client_options_init_def)
  from getopt_loop_invariant[OF loop handle_run_option_ok this] c show ?thesis by simp
qed


definition sample_run_args :: "string list" where
  "sample_run_args = [''--operation-mode=bridged'', ''--shared-interface'', ''en0'', ''-v'', ''--'', ''vm'', ''--fd=4'']"


end
