(* ===== verification/Run_Argv.thy ===== *)
theory Run_Argv
  imports Run_Options Os_Version
begin

text \<open>
  The command line vmnet-run builds for vmnet-helper (\<open>programs/run.c\<close>): the path of the helper, the
  array \<open>helper_argv\<close> of 32 pointers, and what the helper's own parser makes of it.
\<close>

section \<open>The argument array\<close>

text \<open>\<open>ra_argv\<close>: the entries of \<open>helper_argv\<close> below \<open>helper_next\<close>; the others are NULL.\<close>

record run_argv =
  ra_options :: client_options
  ra_verbose :: bool
  ra_helper_path :: string
  ra_argv :: "string list"

definition ARGV_ENTRIES :: nat where "ARGV_ENTRIES = 32"

text \<open>
  The guard compares with the bytes of the array: \<open>sizeof(helper_argv)\<close> is 8 times its entries.  A
  write beyond the array is undefined behaviour.
\<close>

definition append_helper_arg :: "string \<Rightarrow> (run_argv, unit) prog" where
  "append_helper_arg arg =
     bind (gets (\<lambda>s. length (ra_argv s))) (\<lambda>next.
       if next = 8 * ARGV_ENTRIES - 1 then exit_with EXIT_FAILURE
       else if ARGV_ENTRIES \<le> next then abort_prog
       else modify (\<lambda>s. s\<lparr>ra_argv := ra_argv s @ [arg]\<rparr>))"

section \<open>The path of the helper\<close>

definition PATH_MAX :: nat where "PATH_MAX = 1024"

text \<open>\<open>dirname\<close> of the macOS C library; \<open>None\<close> is NULL, for a directory that is too long.\<close>

definition strip_slashes :: "string \<Rightarrow> string" where
  "strip_slashes p = rev (dropWhile (\<lambda>c. c = CHR ''/'') (rev p))"

definition dirname :: "string \<Rightarrow> string option" where
  "dirname path =
     (let p = strip_slashes path;
          d = strip_slashes (rev (dropWhile (\<lambda>c. c \<noteq> CHR ''/'') (rev p)))
      in if p = [] then Some (if path = [] then ''.'' else ''/'')
         else if CHR ''/'' \<notin> set p then Some ''.''
         else if d = [] then Some ''/''
         else if length d < PATH_MAX then Some d else None)"

text \<open>\<open>snprintf\<close> prints NULL as \<open>(null)\<close> and cuts the text to the buffer.\<close>

definition resolve_helper_path :: "string \<Rightarrow> string" where
  "resolve_helper_path runner_path =
     take (PATH_MAX - 1)
       ((case dirname runner_path of None \<Rightarrow> ''(null)'' | Some d \<Rightarrow> d) @ ''/vmnet-helper'')"

section \<open>Building the arguments\<close>

definition requires_root :: "errno + string \<Rightarrow> ('s, bool) prog" where
  "requires_root sysctl =
     (case os_product_version sysctl os_version_zero of
        (r, v) \<Rightarrow> if r \<noteq> 0 then exit_with EXIT_FAILURE else ret (major v < 26))"

definition append_option :: "string \<Rightarrow> (client_options \<Rightarrow> string option) \<Rightarrow> (run_argv, unit) prog" where
  "append_option name field =
     bind (gets (\<lambda>s. field (ra_options s))) (\<lambda>v.
       case v of
         None \<Rightarrow> ret ()
       | Some x \<Rightarrow> seq (append_helper_arg name) (append_helper_arg x))"

definition append_flag :: "string \<Rightarrow> (run_argv \<Rightarrow> bool) \<Rightarrow> (run_argv, unit) prog" where
  "append_flag name field = bind (gets field) (\<lambda>b. whenp b (append_helper_arg name))"

definition build_helper_argv :: "errno + string \<Rightarrow> (run_argv, unit) prog" where
  "build_helper_argv sysctl =
     bind (requires_root sysctl) (\<lambda>root.
     seq (whenp root
           (seq (append_helper_arg ''sudo'')
           (seq (append_helper_arg ''--non-interactive'')
                (append_helper_arg ''--close-from=4''))))
    (seq (bind (gets ra_helper_path) append_helper_arg)
    (seq (append_helper_arg ''--fd=3'')
    (seq (append_option ''--interface-id'' cl_interface_id)
    (seq (append_option ''--operation-mode'' cl_operation_mode)
    (seq (append_option ''--start-address'' cl_start_address)
    (seq (append_option ''--end-address'' cl_end_address)
    (seq (append_option ''--subnet-mask'' cl_subnet_mask)
    (seq (append_option ''--shared-interface'' cl_shared_interface)
    (seq (append_flag ''--enable-tso'' (\<lambda>s. cl_enable_tso (ra_options s)))
    (seq (append_flag ''--enable-checksum-offload'' (\<lambda>s. cl_enable_checksum_offload (ra_options s)))
    (seq (append_flag ''--enable-isolation'' (\<lambda>s. cl_enable_isolation (ra_options s)))
    (seq (append_option ''--network'' cl_network_name)
    (seq (append_option ''--stats-interval'' cl_stats_interval)
         (append_flag ''--verbose'' ra_verbose)))))))))))))))"

section \<open>The arguments as options\<close>

text \<open>What is appended, as the options of the helper's table.\<close>

definition opt_items :: "string \<Rightarrow> string option \<Rightarrow> item list" where
  "opt_items n v = (case v of None \<Rightarrow> [] | Some x \<Rightarrow> [Sep n x])"

definition flag_items :: "string \<Rightarrow> bool \<Rightarrow> item list" where
  "flag_items n b = (if b then [Flag n] else [])"

definition helper_items :: "client_options \<Rightarrow> bool \<Rightarrow> item list" where
  "helper_items p verbose =
     [Eq ''fd'' ''3''] @ opt_items ''interface-id'' (cl_interface_id p) @
     opt_items ''operation-mode'' (cl_operation_mode p) @ opt_items ''start-address'' (cl_start_address p) @
     opt_items ''end-address'' (cl_end_address p) @ opt_items ''subnet-mask'' (cl_subnet_mask p) @
     opt_items ''shared-interface'' (cl_shared_interface p) @ flag_items ''enable-tso'' (cl_enable_tso p) @
     flag_items ''enable-checksum-offload'' (cl_enable_checksum_offload p) @
     flag_items ''enable-isolation'' (cl_enable_isolation p) @ opt_items ''network'' (cl_network_name p) @
     opt_items ''stats-interval'' (cl_stats_interval p) @ flag_items ''verbose'' verbose"

definition helper_args :: "client_options \<Rightarrow> bool \<Rightarrow> string list" where
  "helper_args p verbose = concat (map item_args (helper_items p verbose))"

definition sudo_args :: "bool \<Rightarrow> string list" where
  "sudo_args root = (if root then [''sudo'', ''--non-interactive'', ''--close-from=4''] else [])"

text \<open>A program that appends the words \<open>ws\<close>, which fit the array.\<close>

definition appends :: "(run_argv \<Rightarrow> string list) \<Rightarrow> (run_argv, unit) prog \<Rightarrow> nat \<Rightarrow> bool" where
  "appends ws m k \<longleftrightarrow>
     (\<forall>s. length (ws s) \<le> k) \<and> (\<forall>s a. ws (s\<lparr>ra_argv := a\<rparr>) = ws s) \<and>
     (\<forall>s. length (ra_argv s) + k \<le> ARGV_ENTRIES \<longrightarrow> m s = (Done (), s\<lparr>ra_argv := ra_argv s @ ws s\<rparr>))"

lemma appends_arg: "appends (\<lambda>s. [arg]) (append_helper_arg arg) 1"
  by (simp add: appends_def append_helper_arg_def prog_defs ARGV_ENTRIES_def)

lemma appends_path: "appends (\<lambda>s. [ra_helper_path s]) (bind (gets ra_helper_path) append_helper_arg) 1"
  by (simp add: appends_def append_helper_arg_def prog_defs ARGV_ENTRIES_def)

lemma appends_seq:
  assumes "appends v m j" and "appends w n k"
  shows "appends (\<lambda>s. v s @ w s) (seq m n) (j + k)"
  unfolding appends_def
proof (intro conjI allI impI)
  fix s :: run_argv and a
  show "length (v s @ w s) \<le> j + k" using assms by (auto simp: appends_def intro: add_mono)
  show "v (s\<lparr>ra_argv := a\<rparr>) @ w (s\<lparr>ra_argv := a\<rparr>) = v s @ w s" using assms by (simp add: appends_def)
  assume fit: "length (ra_argv s) + (j + k) \<le> ARGV_ENTRIES"
  let ?t = "s\<lparr>ra_argv := ra_argv s @ v s\<rparr>"
  have "m s = (Done (), ?t)" using assms(1) fit by (simp add: appends_def)
  moreover have "length (v s) \<le> j" using assms(1) by (simp add: appends_def)
  then have "length (ra_argv ?t) + k \<le> ARGV_ENTRIES" using fit by simp
  then have "n ?t = (Done (), ?t\<lparr>ra_argv := ra_argv ?t @ w ?t\<rparr>)"
    using assms(2) unfolding appends_def by blast
  moreover have "w ?t = w s" using assms(2) unfolding appends_def by blast
  ultimately show "seq m n s = (Done (), s\<lparr>ra_argv := ra_argv s @ v s @ w s\<rparr>)"
    by (simp add: seq_def bind_def)
qed

lemma appends_option:
  "appends (\<lambda>s. concat (map item_args (opt_items n (f (ra_options s))))) (append_option (''--'' @ n) f) 2"
  by (auto simp: appends_def append_option_def append_helper_arg_def prog_defs ARGV_ENTRIES_def
      opt_items_def split: option.split)

lemma appends_flag:
  assumes "\<And>s a. f (s\<lparr>ra_argv := a\<rparr>) = f s"
  shows "appends (\<lambda>s. concat (map item_args (flag_items n (f s)))) (append_flag (''--'' @ n) f) 1"
  using assms
  by (auto simp: appends_def append_flag_def append_helper_arg_def prog_defs ARGV_ENTRIES_def flag_items_def)

lemma appends_sudo:
  "appends (\<lambda>s. sudo_args root) (whenp root (seq (append_helper_arg ''sudo'')
      (seq (append_helper_arg ''--non-interactive'') (append_helper_arg ''--close-from=4'')))) 3"
  by (auto simp: appends_def append_helper_arg_def prog_defs ARGV_ENTRIES_def sudo_args_def)

text \<open>The whole array: at most 25 entries.\<close>

lemma build_appends:
  assumes "os_product_version sysctl os_version_zero = (0, v)"
  shows "appends (\<lambda>s. sudo_args (major v < 26) @ [ra_helper_path s] @ helper_args (ra_options s) (ra_verbose s))
    (build_helper_argv sysctl) 25"
proof -
  have root: "bind (requires_root sysctl) f = f (major v < 26)" for f :: "bool \<Rightarrow> (run_argv, unit) prog"
    using assms by (simp add: requires_root_def)
  have fd: "appends (\<lambda>s. item_args (Eq ''fd'' ''3'')) (append_helper_arg ''--fd=3'') 1"
    using appends_arg[of "''--fd=3''"] by simp
  have opts: "appends (\<lambda>s. concat (map item_args (opt_items n (f (ra_options s))))) (append_option m f) 2"
    if "m = ''--'' @ n" for m n f
    using appends_option[of n f] that by simp
  have flags: "appends (\<lambda>s. concat (map item_args (flag_items n (f s)))) (append_flag m f) 1"
    if "m = ''--'' @ n" "\<And>s a. f (s\<lparr>ra_argv := a\<rparr>) = f s" for m n f
    using appends_flag[of f n] that by simp
  have all: "appends (\<lambda>s. sudo_args (major v < 26) @ [ra_helper_path s] @ item_args (Eq ''fd'' ''3'') @
      concat (map item_args (opt_items ''interface-id'' (cl_interface_id (ra_options s)))) @
      concat (map item_args (opt_items ''operation-mode'' (cl_operation_mode (ra_options s)))) @
      concat (map item_args (opt_items ''start-address'' (cl_start_address (ra_options s)))) @
      concat (map item_args (opt_items ''end-address'' (cl_end_address (ra_options s)))) @
      concat (map item_args (opt_items ''subnet-mask'' (cl_subnet_mask (ra_options s)))) @
      concat (map item_args (opt_items ''shared-interface'' (cl_shared_interface (ra_options s)))) @
      concat (map item_args (flag_items ''enable-tso'' (cl_enable_tso (ra_options s)))) @
      concat (map item_args (flag_items ''enable-checksum-offload'' (cl_enable_checksum_offload (ra_options s)))) @
      concat (map item_args (flag_items ''enable-isolation'' (cl_enable_isolation (ra_options s)))) @
      concat (map item_args (opt_items ''network'' (cl_network_name (ra_options s)))) @
      concat (map item_args (opt_items ''stats-interval'' (cl_stats_interval (ra_options s)))) @
      concat (map item_args (flag_items ''verbose'' (ra_verbose s)))) (build_helper_argv sysctl)
      (3 + (1 + (1 + (2 + (2 + (2 + (2 + (2 + (2 + (1 + (1 + (1 + (2 + (2 + 1))))))))))))))"
    unfolding build_helper_argv_def root
    by (intro appends_seq appends_sudo appends_path fd opts flags) simp_all
  have "3 + (1 + (1 + (2 + (2 + (2 + (2 + (2 + (2 + (1 + (1 + (1 + (2 + (2 + 1))))))))))))) = (25 :: nat)"
    by simp
  then show ?thesis
    using all by (simp only: helper_args_def helper_items_def map_append concat_append list.map concat.simps append_Nil2 append_assoc)
qed

text \<open>The guard of \<open>append_helper_arg\<close> does not protect the array: the 33rd entry is written beyond it.\<close>

lemma append_guard_too_late:
  assumes "length (ra_argv s) = 32" shows "append_helper_arg arg s = (Aborted, s)"
  using assms by (simp add: append_helper_arg_def prog_defs ARGV_ENTRIES_def)

section \<open>Properties\<close>

text \<open>
  C31: Whatever options were given, building the arguments writes at most 25 of the 32 entries of
  the array, so the last entry stays NULL as \<open>execvp\<close> needs it, and the entries are: \<open>sudo\<close> with its
  two options exactly when macOS is older than 26, the helper's path and the options as given.  It
  exits only when the version cannot be read.
\<close>

theorem build_helper_argv_fits:
  assumes "ra_argv s = []" and "build_helper_argv sysctl s = (r, t)"
  shows "(r = Exited 1 \<and> (\<exists>e. sysctl = Inl e)) \<or>
    (r = Done () \<and> length (ra_argv t) \<le> 25 \<and> (\<exists>v. os_product_version sysctl os_version_zero = (0, v) \<and>
       ra_argv t = sudo_args (major v < 26) @ [ra_helper_path s] @ helper_args (ra_options s) (ra_verbose s)))"
proof (cases sysctl)
  case (Inl e)
  then show ?thesis
    using assms(2) by (simp add: build_helper_argv_def requires_root_def os_product_version_def
        prog_defs os_version_zero_def)
next
  case (Inr version)
  then obtain v where v: "os_product_version sysctl os_version_zero = (0, v)"
    by (simp add: os_product_version_def)
  have "ARGV_ENTRIES = 32" by (simp add: ARGV_ENTRIES_def)
  with build_appends[OF v] assms show ?thesis unfolding appends_def by (auto simp: v)
qed

definition sample_client_options :: client_options where
  "sample_client_options = client_options_init\<lparr>cl_operation_mode := Some ''bridged'',
     cl_shared_interface := Some ''en0'', cl_enable_tso := True, cl_stats_interval := Some ''5''\<rparr>"

definition sample_run_argv :: run_argv where
  "sample_run_argv = \<lparr>ra_options = sample_client_options, ra_verbose = True,
     ra_helper_path = ''/opt/vmnet-helper/bin/vmnet-helper'', ra_argv = []\<rparr>"

theorem build_helper_argv_fits_witness:
  "\<exists>t. build_helper_argv (Inr ''15.7.1'') sample_run_argv = (Done (), t) \<and>
     ra_argv t = [''sudo'', ''--non-interactive'', ''--close-from=4'',
       ''/opt/vmnet-helper/bin/vmnet-helper'', ''--fd=3'', ''--operation-mode'', ''bridged'',
       ''--shared-interface'', ''en0'', ''--enable-tso'', ''--stats-interval'', ''5'', ''--verbose'']"
proof -
  let ?r = "build_helper_argv (Inr ''15.7.1'') sample_run_argv"
  have v: "os_product_version (Inr ''15.7.1'') os_version_zero = (0, \<lparr>major = 15, minor = 7, point = 1\<rparr>)"
    by code_simp
  have "ra_argv sample_run_argv = []" by (simp add: sample_run_argv_def)
  from build_helper_argv_fits[OF this prod.collapse[symmetric, of ?r]] have
    "fst ?r = Done ()" "ra_argv (snd ?r) = sudo_args True @ [ra_helper_path sample_run_argv] @
       helper_args (ra_options sample_run_argv) (ra_verbose sample_run_argv)"
    by (auto simp: v)
  then have "?r = (Done (), snd ?r)" and "ra_argv (snd ?r) = [''sudo'', ''--non-interactive'', ''--close-from=4'',
       ''/opt/vmnet-helper/bin/vmnet-helper'', ''--fd=3'', ''--operation-mode'', ''bridged'',
       ''--shared-interface'', ''en0'', ''--enable-tso'', ''--stats-interval'', ''5'', ''--verbose'']"
    by (simp_all add: prod_eq_iff sudo_args_def helper_args_def helper_items_def opt_items_def flag_items_def
        sample_run_argv_def sample_client_options_def client_options_init_def)
  then show ?thesis by blast
qed

section \<open>What the helper reads\<close>

lemma run_items_append:
  "run_items longs handle (xs @ ys) s =
     (case run_items longs handle xs s of
        (Done _, t) \<Rightarrow> run_items longs handle ys t
      | (Exited c, t) \<Rightarrow> (Exited c, t) | (Aborted, t) \<Rightarrow> (Aborted, t) | (Waiting, t) \<Rightarrow> (Waiting, t))"
  by (induction xs arbitrary: s) (simp_all add: ret_def bind_def split: outcome.split prod.split)

abbreviation reads :: "env \<Rightarrow> item list \<Rightarrow> (cli, string list) prog" where
  "reads e \<equiv> run_items long_options (handle_option e)"

lemma reads_append:
  "reads e xs s = (Done x, t) \<Longrightarrow> reads e (xs @ ys) s = reads e ys t"
  by (simp add: run_items_append)

text \<open>The options the helper has when it has read the runner's, before its own checks.\<close>

definition mode_of :: "string \<Rightarrow> operating_mode" where
  "mode_of x = (if x = ''shared'' then VMNET_SHARED_MODE
     else if x = ''bridged'' then VMNET_BRIDGED_MODE else VMNET_HOST_MODE)"

definition to_helper :: "env \<Rightarrow> client_options \<Rightarrow> options" where
  "to_helper e p = options_init\<lparr>opt_fd := 3,
     opt_interface_id := (case cl_interface_id p of None \<Rightarrow> uuid_null | Some x \<Rightarrow> the (uuid_parse e x)),
     opt_operation_mode := map_option mode_of (cl_operation_mode p),
     opt_start_address := cl_start_address p, opt_end_address := cl_end_address p,
     opt_subnet_mask := cl_subnet_mask p, opt_shared_interface := cl_shared_interface p,
     opt_enable_tso := cl_enable_tso p, opt_enable_checksum_offload := cl_enable_checksum_offload p,
     opt_enable_isolation := cl_enable_isolation p, opt_network_name := cl_network_name p,
     opt_stats_interval := (case cl_stats_interval p of None \<Rightarrow> 0 | Some x \<Rightarrow> fst (strtol x))\<rparr>"

text \<open>An interval the helper accepts; the runner passes any text.\<close>

definition interval_ok :: "client_options \<Rightarrow> bool" where
  "interval_ok p \<longleftrightarrow> (\<forall>x. cl_stats_interval p = Some x \<longrightarrow>
     (\<exists>n. strtol x = (n, [], None) \<and> 1 \<le> n \<and> n \<le> INT_MAX))"

lemma table_values [simp]:
  "map_of long_options ''fd'' = Some (required_argument, Short (CHR ''f''))"
  "map_of long_options ''interface-id'' = Some (required_argument, Short (CHR ''i''))"
  "map_of long_options ''operation-mode'' = Some (required_argument, OPT_OPERATION_MODE)"
  "map_of long_options ''start-address'' = Some (required_argument, OPT_START_ADDRESS)"
  "map_of long_options ''end-address'' = Some (required_argument, OPT_END_ADDRESS)"
  "map_of long_options ''subnet-mask'' = Some (required_argument, OPT_SUBNET_MASK)"
  "map_of long_options ''shared-interface'' = Some (required_argument, OPT_SHARED_INTERFACE)"
  "map_of long_options ''enable-tso'' = Some (no_argument, OPT_ENABLE_TSO)"
  "map_of long_options ''enable-checksum-offload'' = Some (no_argument, OPT_ENABLE_CHECKSUM_OFFLOAD)"
  "map_of long_options ''enable-isolation'' = Some (no_argument, OPT_ENABLE_ISOLATION)"
  "map_of long_options ''network'' = Some (required_argument, OPT_NETWORK)"
  "map_of long_options ''stats-interval'' = Some (required_argument, OPT_STATS_INTERVAL)"
  "map_of long_options ''verbose'' = Some (no_argument, Short (CHR ''v''))"
  by (simp_all add: long_options_def)

lemma helper_items_known:
  "list_all (\<lambda>it. item_val long_options it \<noteq> None) (helper_items p verbose)"
  by (auto simp: helper_items_def opt_items_def flag_items_def split: option.split)

lemma set_opt_run: "set_opt f s = (Done (), s\<lparr>cli_options := f (cli_options s)\<rparr>)"
  by (simp add: set_opt_def modify_def)

text \<open>The state with some options read.\<close>

definition cli_of :: "options \<Rightarrow> bool \<Rightarrow> cli" where
  "cli_of p b = \<lparr>cli_options = p, cli_verbose = b, cli_stdout = []\<rparr>"

lemma cli_init_of: "cli_init = cli_of options_init False"
  by (simp add: cli_init_def cli_of_def)

lemma set_opt_of: "set_opt f (cli_of p b) = (Done (), cli_of (f p) b)"
  by (simp add: set_opt_run cli_of_def)

lemma parse_fd_3: "parse_fd ''3'' s = (Done 3, s)"
proof -
  have "strtol ''3'' = (3, [], None)" by code_simp
  then show ?thesis by (simp add: parse_fd_def ret_def INT_MAX_def)
qed

text \<open>Reading one option, given or not, into a field that is still unset.\<close>

lemma same_field:
  "opt_shared_interface p = None \<Longrightarrow> p\<lparr>opt_shared_interface := None\<rparr> = p"
  "opt_network_name p = None \<Longrightarrow> p\<lparr>opt_network_name := None\<rparr> = p"
  "opt_start_address p = None \<Longrightarrow> p\<lparr>opt_start_address := None\<rparr> = p"
  "opt_end_address p = None \<Longrightarrow> p\<lparr>opt_end_address := None\<rparr> = p"
  "opt_subnet_mask p = None \<Longrightarrow> p\<lparr>opt_subnet_mask := None\<rparr> = p"
  "opt_operation_mode p = None \<Longrightarrow> p\<lparr>opt_operation_mode := None\<rparr> = p"
  "opt_interface_id p = u \<Longrightarrow> p\<lparr>opt_interface_id := u\<rparr> = p"
  "opt_stats_interval p = n \<Longrightarrow> p\<lparr>opt_stats_interval := n\<rparr> = p"
  "\<not> opt_enable_tso p \<Longrightarrow> p\<lparr>opt_enable_tso := False\<rparr> = p"
  "\<not> opt_enable_checksum_offload p \<Longrightarrow> p\<lparr>opt_enable_checksum_offload := False\<rparr> = p"
  "\<not> opt_enable_isolation p \<Longrightarrow> p\<lparr>opt_enable_isolation := False\<rparr> = p"
  for p :: options
  by (rule options.equality; simp)+

lemmas reads_defs = bind_def parse_fd_3 set_opt_of ret_def optarg_def opt_items_def flag_items_def same_field

lemma reads_fd: "reads e [Eq ''fd'' ''3''] (cli_of p b) = (Done [], cli_of (p\<lparr>opt_fd := 3\<rparr>) b)"
  by (simp add: reads_defs)

lemma reads_plain:
  "opt_shared_interface p = None \<Longrightarrow> reads e (opt_items ''shared-interface'' v) (cli_of p b) =
     (Done [], cli_of (p\<lparr>opt_shared_interface := v\<rparr>) b)"
  "opt_network_name p = None \<Longrightarrow> reads e (opt_items ''network'' v) (cli_of p b) =
     (Done [], cli_of (p\<lparr>opt_network_name := v\<rparr>) b)"
  "\<not> opt_enable_tso p \<Longrightarrow> reads e (flag_items ''enable-tso'' c) (cli_of p b) =
     (Done [], cli_of (p\<lparr>opt_enable_tso := c\<rparr>) b)"
  "\<not> opt_enable_checksum_offload p \<Longrightarrow> reads e (flag_items ''enable-checksum-offload'' c) (cli_of p b) =
     (Done [], cli_of (p\<lparr>opt_enable_checksum_offload := c\<rparr>) b)"
  "\<not> opt_enable_isolation p \<Longrightarrow> reads e (flag_items ''enable-isolation'' c) (cli_of p b) =
     (Done [], cli_of (p\<lparr>opt_enable_isolation := c\<rparr>) b)"
  by (cases v; cases c; simp add: reads_defs)+

lemma reads_verbose: "reads e (flag_items ''verbose'' c) (cli_of p False) = (Done [], cli_of p c)"
  by (cases c) (simp_all add: reads_defs modify_def cli_of_def)

lemma reads_id:
  assumes "\<And>x. v = Some x \<Longrightarrow> uuid_parse e x \<noteq> None" and "opt_interface_id p = uuid_null"
  shows "reads e (opt_items ''interface-id'' v) (cli_of p b) =
    (Done [], cli_of (p\<lparr>opt_interface_id := (case v of None \<Rightarrow> uuid_null | Some x \<Rightarrow> the (uuid_parse e x))\<rparr>) b)"
  using assms by (cases v) (auto simp: reads_defs parse_interface_id_def)

lemma reads_address:
  assumes "\<And>x. v = Some x \<Longrightarrow> inet_aton e x"
  shows "opt_start_address p = None \<Longrightarrow> reads e (opt_items ''start-address'' v) (cli_of p b) =
      (Done [], cli_of (p\<lparr>opt_start_address := v\<rparr>) b)"
    and "opt_end_address p = None \<Longrightarrow> reads e (opt_items ''end-address'' v) (cli_of p b) =
      (Done [], cli_of (p\<lparr>opt_end_address := v\<rparr>) b)"
    and "opt_subnet_mask p = None \<Longrightarrow> reads e (opt_items ''subnet-mask'' v) (cli_of p b) =
      (Done [], cli_of (p\<lparr>opt_subnet_mask := v\<rparr>) b)"
  using assms by (cases v; simp add: reads_defs parse_address_def)+

lemma reads_mode:
  assumes "\<And>x. v = Some x \<Longrightarrow> x \<in> {''shared'', ''host'', ''bridged''}" and "opt_operation_mode p = None"
  shows "reads e (opt_items ''operation-mode'' v) (cli_of p b) =
    (Done [], cli_of (p\<lparr>opt_operation_mode := map_option mode_of v\<rparr>) b)"
  using assms by (cases v) (auto simp: reads_defs parse_operation_mode_def mode_of_def)

lemma reads_interval:
  assumes "\<And>x. v = Some x \<Longrightarrow> \<exists>n. strtol x = (n, [], None) \<and> 1 \<le> n \<and> n \<le> INT_MAX"
    and "opt_stats_interval p = 0"
  shows "reads e (opt_items ''stats-interval'' v) (cli_of p b) =
    (Done [], cli_of (p\<lparr>opt_stats_interval := (case v of None \<Rightarrow> 0 | Some x \<Rightarrow> fst (strtol x))\<rparr>) b)"
  using assms by (cases v) (auto simp: reads_defs parse_stats_interval_def)

text \<open>All of them, in order: the record of the options as they were given.\<close>

lemma reads_helper_items:
  assumes ok: "client_ok e p" and i: "interval_ok p"
  shows "reads e (helper_items p verbose) cli_init = (Done [], cli_of (to_helper e p) verbose)"
proof -
  have chain: "reads e (xs @ ys) s = r" if "reads e xs s = (Done [], t)" "reads e ys t = r" for xs ys s t r
    using that reads_append by metis
  have iv: "\<exists>n. strtol x = (n, [], None) \<and> 1 \<le> n \<and> n \<le> INT_MAX" if "cl_stats_interval p = Some x" for x
    using i that by (simp add: interval_ok_def)
  have id: "uuid_parse e x \<noteq> None" if "cl_interface_id p = Some x" for x
    using ok that by (simp add: client_ok_def)
  have mode: "x \<in> {''shared'', ''host'', ''bridged''}" if "cl_operation_mode p = Some x" for x
    using ok that by (simp add: client_ok_def)
  have addr: "inet_aton e x" if "cl_start_address p = Some x \<or> cl_end_address p = Some x \<or> cl_subnet_mask p = Some x" for x
    using ok that by (auto simp: client_ok_def)
  have addrs: "\<And>x. cl_start_address p = Some x \<Longrightarrow> inet_aton e x"
    "\<And>x. cl_end_address p = Some x \<Longrightarrow> inet_aton e x" "\<And>x. cl_subnet_mask p = Some x \<Longrightarrow> inet_aton e x"
    using addr by blast+
  note init = options_init_def
  show ?thesis
    unfolding helper_items_def cli_init_of to_helper_def
    by (rule chain[OF reads_fd], rule chain[OF reads_id[OF id]], assumption, simp add: init,
        rule chain[OF reads_mode[OF mode]], assumption, simp add: init,
        rule chain[OF reads_address(1)[OF addrs(1)]], assumption, simp add: init,
        rule chain[OF reads_address(2)[OF addrs(2)]], assumption, simp add: init,
        rule chain[OF reads_address(3)[OF addrs(3)]], assumption, simp add: init,
        rule chain[OF reads_plain(1)], simp add: init, rule chain[OF reads_plain(3)], simp add: init,
        rule chain[OF reads_plain(4)], simp add: init, rule chain[OF reads_plain(5)], simp add: init,
        rule chain[OF reads_plain(2)], simp add: init,
        rule chain[OF reads_interval[OF iv]], assumption, simp add: init, rule reads_verbose)
qed

definition all_or_none :: "client_options \<Rightarrow> bool" where
  "all_or_none p \<longleftrightarrow>
     (cl_start_address p = None) = (cl_end_address p = None) \<and>
     (cl_start_address p = None) = (cl_subnet_mask p = None)"

lemma to_helper_network:
  assumes "client_ok e p" and "client_consistent p"
  shows "abs_network (with_default_mode (to_helper e p)) \<noteq> None \<longleftrightarrow>
    (cl_operation_mode p = Some ''bridged'' \<or> all_or_none p)"
proof -
  have f: "opt_network_name (to_helper e p) = cl_network_name p"
    "opt_operation_mode (to_helper e p) = map_option mode_of (cl_operation_mode p)"
    "opt_shared_interface (to_helper e p) = cl_shared_interface p"
    "opt_enable_isolation (to_helper e p) = cl_enable_isolation p"
    by (simp_all add: to_helper_def)
  have def: "abs_addresses (q\<lparr>opt_operation_mode := m\<rparr>) = abs_addresses q" for q m
    by (simp add: abs_addresses_def)
  have addr: "abs_addresses (to_helper e p) \<noteq> None \<longleftrightarrow> all_or_none p"
    by (auto simp: all_or_none_def abs_addresses_def to_helper_def split: option.split)
  show ?thesis
  proof (cases "cl_network_name p")
    case (Some n)
    then show ?thesis
      using assms(2)
      by (simp add: abs_network_def abs_addresses_def with_default_mode_def to_helper_def client_consistent_def
          all_or_none_def)
  next
    case net: None
    show ?thesis
    proof (cases "cl_operation_mode p")
      case None
      then show ?thesis using addr f net by (simp add: abs_network_def with_default_mode_def def)
    next
      case (Some x)
      then have "x \<in> {''shared'', ''host'', ''bridged''}" using assms(1) by (simp add: client_ok_def)
      then show ?thesis
        using addr f Some net assms(2)
        by (auto simp: abs_network_def with_default_mode_def mode_of_def client_consistent_def)
    qed
  qed
qed

text \<open>No option the runner passes makes the helper print something and end with success.\<close>

lemma helper_items_inform:
  "it \<in> set (helper_items p verbose) \<Longrightarrow> \<not> informs e (Opt (the (item_val long_options it)) (item_arg it))"
  by (auto simp: helper_items_def opt_items_def flag_items_def split: option.splits if_splits)

lemma command_line_helper:
  "command_line (helper_args p verbose) =
     map (\<lambda>it. Opt (the (item_val long_options it)) (item_arg it)) (helper_items p verbose)"
  unfolding command_line_def helper_args_def by (rule helper_table.results_items[OF helper_items_known])

lemma helper_args_outcome:
  obtains c where "parse_options e (helper_args p verbose) cli_init = (Done (), c)"
      "list_all (option_ok e) (command_line (helper_args p verbose))"
    | c where "parse_options e (helper_args p verbose) cli_init = (Exited 1, c)"
proof (cases "find (\<lambda>v. \<not> option_ok e v) (command_line (helper_args p verbose))")
  case None
  then have "list_all (option_ok e) (command_line (helper_args p verbose))"
    by (simp add: find_None_iff list_all_iff)
  then show ?thesis
    using options_outcome[of e "helper_args p verbose"] None that by (auto split: option.splits)
next
  case (Some v)
  then have "v \<in> set (command_line (helper_args p verbose))" by (auto simp: find_Some_iff)
  then have "\<not> informs e v" unfolding command_line_helper using helper_items_inform by auto
  then show ?thesis using options_outcome[of e "helper_args p verbose"] Some that by auto
qed

lemma helper_args_interval:
  assumes "list_all (option_ok e) (command_line (helper_args p verbose))" shows "interval_ok p"
proof (cases "cl_stats_interval p")
  case None
  then show ?thesis by (simp add: interval_ok_def)
next
  case (Some x)
  then have "Sep ''stats-interval'' x \<in> set (helper_items p verbose)"
    by (simp add: helper_items_def opt_items_def)
  then have "Opt OPT_STATS_INTERVAL (Some x) \<in> set (command_line (helper_args p verbose))"
    unfolding command_line_helper set_map by (rule rev_image_eqI) simp
  with assms have "option_ok e (Opt OPT_STATS_INTERVAL (Some x))" by (simp only: list_all_iff)
  with Some show ?thesis by (simp add: interval_ok_def number_in_iff optarg_def)
qed

text \<open>What the helper makes of options the runner accepted.\<close>

definition helper_view :: "env \<Rightarrow> client_options \<Rightarrow> options option" where
  "helper_view e p =
     (case (env_id (getenv e ''SUDO_UID'') (getuid e), env_id (getenv e ''SUDO_GID'') (getgid e)) of
        (Some u, Some g) \<Rightarrow>
          if interval_ok p \<and> (cl_operation_mode p = Some ''bridged'' \<or> all_or_none p)
          then Some ((with_default_mode (to_helper e p))\<lparr>opt_uid := u, opt_gid := g\<rparr>) else None
      | _ \<Rightarrow> None)"

lemma helper_reads:
  assumes "client_ok e p" and "client_consistent p"
  shows "case helper_view e p of
      Some q \<Rightarrow> parse_options e (helper_args p verbose) cli_init = (Done (), cli_of q verbose)
    | None \<Rightarrow> \<exists>d. parse_options e (helper_args p verbose) cli_init = (Exited 1, d)"
proof (cases "interval_ok p")
  case True
  have "getopt_loop short_options long_options Short (handle_option e)
      (argv_state (helper_args p verbose)) cli_init = (Done [], cli_of (to_helper e p) verbose)"
    unfolding helper_args_def helper_table.getopt_items[OF helper_items_known]
    by (rule reads_helper_items[OF assms(1) True])
  then have "parse_options e (helper_args p verbose) cli_init = (Done (), c) \<longleftrightarrow>
      (\<exists>q. finish_options e (to_helper e p) = Some q \<and> c = cli_of q verbose)" for c
    unfolding parse_options_Done by (auto simp: cli_of_def)
  moreover have "abs_transport (to_helper e p) \<noteq> None"
    by (simp add: abs_transport_def to_helper_def options_init_def)
  then have "finish_options e (to_helper e p) = helper_view e p"
    using to_helper_network[OF assms] True
    by (simp add: finish_options_def helper_view_def split: option.split)
  ultimately have "parse_options e (helper_args p verbose) cli_init = (Done (), c) \<longleftrightarrow>
      (\<exists>q. helper_view e p = Some q \<and> c = cli_of q verbose)" for c
    by simp
  then show ?thesis
    by (cases "helper_view e p"; cases rule: helper_args_outcome[of e p verbose]) auto
next
  case False
  then have "helper_view e p = None" by (simp add: helper_view_def split: option.split)
  then show ?thesis
    using False helper_args_interval by (cases rule: helper_args_outcome[of e p verbose]) auto
qed

text \<open>
  C16: What the runner accepts and builds, the helper reads back: in the array \<open>build_helper_argv\<close>
  leaves, the words after the path of the helper are read by \<open>parse_options\<close> of vmnet-helper as
  the same options with descriptor 3, the default mode and the ids of its environment added, and
  the same verbosity.  Exactly when a value that only the helper checks is bad - an interval that
  is no number in its range, one or two of the three addresses, an id of \<open>sudo\<close> - the helper exits
  with a failure instead.  The two processes share the C library: they agree on addresses and UUIDs.
\<close>

theorem helper_reads_runner:
  assumes "run_parse_options e args run_cli_init = (Done (), c)"
    and "build_helper_argv sysctl \<lparr>ra_options = rc_options c, ra_verbose = rc_verbose c,
      ra_helper_path = path, ra_argv = []\<rparr> = (Done (), t)"
    and "inet_aton e' = inet_aton e" and "uuid_parse e' = uuid_parse e"
  shows "\<exists>root words. ra_argv t = sudo_args root @ [path] @ words \<and>
    (case helper_view e' (rc_options c) of
       Some q \<Rightarrow> parse_options e' words cli_init = (Done (), cli_of q (rc_verbose c))
     | None \<Rightarrow> \<exists>d. parse_options e' words cli_init = (Exited 1, d))"
proof -
  let ?s = "\<lparr>ra_options = rc_options c, ra_verbose = rc_verbose c, ra_helper_path = path, ra_argv = []\<rparr>"
  have p: "client_ok e' (rc_options c)" "client_consistent (rc_options c)"
    using run_parsed[OF assms(1)] assms(3,4) by (simp_all add: client_ok_def)
  have "build_helper_argv (Inl x) ?s = (Exited 1, ?s)" for x
    by (simp add: build_helper_argv_def requires_root_def os_product_version_def prog_defs os_version_zero_def)
  then obtain version where "sysctl = Inr version" using assms(2) by (cases sysctl) auto
  then obtain v where v: "os_product_version sysctl os_version_zero = (0, v)"
    by (simp add: os_product_version_def)
  have "ARGV_ENTRIES = 32" by (simp add: ARGV_ENTRIES_def)
  with build_appends[OF v] assms(2)
  have "ra_argv t = sudo_args (major v < 26) @ [path] @ helper_args (rc_options c) (rc_verbose c)"
    unfolding appends_def by auto
  then show ?thesis using helper_reads[OF p] by blast
qed

theorem helper_reads_runner_witness:
  "\<exists>c root words. run_parse_options sample_env sample_run_args run_cli_init = (Done (), c) \<and>
     ra_argv (snd (build_helper_argv (Inr ''26.1'') \<lparr>ra_options = rc_options c, ra_verbose = rc_verbose c,
       ra_helper_path = ''./vmnet-helper'', ra_argv = []\<rparr>)) = sudo_args root @ [''./vmnet-helper''] @ words \<and>
     parse_options sample_env words cli_init =
       (Done (), cli_of ((with_default_mode (to_helper sample_env (rc_options c)))\<lparr>opt_uid := 501, opt_gid := 20\<rparr>) True)"
proof -
  let ?r = "run_parse_options sample_env sample_run_args run_cli_init"
  let ?p = "rc_options (snd ?r)"
  let ?b = "build_helper_argv (Inr ''26.1'') \<lparr>ra_options = ?p, ra_verbose = rc_verbose (snd ?r),
    ra_helper_path = ''./vmnet-helper'', ra_argv = []\<rparr>"
  have "fst ?r = Done ()" "rc_verbose (snd ?r)" "cl_stats_interval ?p = None"
    "cl_operation_mode ?p = Some ''bridged''" "fst ?b = Done ()" by code_simp+
  then have r: "?r = (Done (), snd ?r)" and v: "rc_verbose (snd ?r)" and b: "?b = (Done (), snd ?b)"
    and o: "interval_ok ?p" "cl_operation_mode ?p = Some ''bridged''"
    by (simp_all add: prod_eq_iff interval_ok_def)
  have "env_id (getenv sample_env ''SUDO_UID'') (getuid sample_env) = Some 501"
    "env_id (getenv sample_env ''SUDO_GID'') (getgid sample_env) = Some 20" by code_simp+
  then have "helper_view sample_env ?p =
      Some ((with_default_mode (to_helper sample_env ?p))\<lparr>opt_uid := 501, opt_gid := 20\<rparr>)"
    using o by (simp add: helper_view_def)
  with helper_reads_runner[OF r b refl refl] v
  obtain root words where "ra_argv (snd ?b) = sudo_args root @ [''./vmnet-helper''] @ words"
    "parse_options sample_env words cli_init =
      (Done (), cli_of ((with_default_mode (to_helper sample_env ?p))\<lparr>opt_uid := 501, opt_gid := 20\<rparr>) True)"
    by auto
  with r show ?thesis by blast
qed

text \<open>An interval that is no number is accepted by the runner, and the helper it starts refuses it.\<close>

lemma runner_accepts_more:
  "\<exists>c. run_parse_options sample_env [''--stats-interval'', ''abc'', ''--'', ''vm''] run_cli_init = (Done (), c) \<and>
     helper_view sample_env (rc_options c) = None"
proof -
  let ?r = "run_parse_options sample_env [''--stats-interval'', ''abc'', ''--'', ''vm''] run_cli_init"
  have "fst ?r = Done ()" "cl_stats_interval (rc_options (snd ?r)) = Some ''abc''" by code_simp+
  moreover have "fst (snd (strtol ''abc'')) = ''abc''" by code_simp
  ultimately have "?r = (Done (), snd ?r)" "helper_view sample_env (rc_options (snd ?r)) = None"
    by (auto simp: prod_eq_iff helper_view_def interval_ok_def split: option.split)
  then show ?thesis by blast
qed

section \<open>Finding the helper\<close>

lemma strip_slashes_end: "last p \<noteq> CHR ''/'' \<Longrightarrow> p \<noteq> [] \<Longrightarrow> strip_slashes p = p"
  by (cases p rule: rev_cases) (simp_all add: strip_slashes_def)

lemma last_part:
  assumes "CHR ''/'' \<notin> set n"
  shows "rev (dropWhile (\<lambda>c. c \<noteq> CHR ''/'') (rev (d @ CHR ''/'' # n))) = d @ ''/''"
proof -
  have "dropWhile (\<lambda>c. c \<noteq> CHR ''/'') (rev n @ CHR ''/'' # rev d) = CHR ''/'' # rev d"
    using assms by (subst dropWhile_append2) auto
  then show ?thesis by simp
qed

lemma strip_last_slash: "d \<noteq> [] \<Longrightarrow> last d \<noteq> CHR ''/'' \<Longrightarrow> strip_slashes (d @ ''/'') = d"
  by (cases d rule: rev_cases) (simp_all add: strip_slashes_def)

text \<open>
  The helper is looked for beside the runner: for \<open>dir/name\<close> it is \<open>dir/vmnet-helper\<close>, and for
  a name without a slash, as a shell runs it from the path, it is \<open>./vmnet-helper\<close>.
\<close>

theorem resolve_helper_path_beside:
  assumes "name \<noteq> []" and "CHR ''/'' \<notin> set name"
    and "dir \<noteq> []" and "last dir \<noteq> CHR ''/''" and "length dir + 13 < PATH_MAX"
  shows "resolve_helper_path (dir @ ''/'' @ name) = dir @ ''/vmnet-helper'' \<and>
    resolve_helper_path name = ''./vmnet-helper''"
proof
  have nl: "last name \<noteq> CHR ''/''" using assms(1,2) last_in_set by metis
  have "strip_slashes (dir @ CHR ''/'' # name) = dir @ CHR ''/'' # name"
    using assms(1) nl by (intro strip_slashes_end) auto
  then have "dirname (dir @ ''/'' @ name) = Some dir"
    using last_part[OF assms(2), of dir] strip_last_slash[OF assms(3,4)] assms(3,5)
    by (simp add: dirname_def Let_def)
  then show "resolve_helper_path (dir @ ''/'' @ name) = dir @ ''/vmnet-helper''"
    using assms(5) by (simp add: resolve_helper_path_def)
  have "dirname name = Some ''.''"
    using strip_slashes_end[OF nl assms(1)] assms(1,2) by (simp add: dirname_def Let_def)
  then show "resolve_helper_path name = ''./vmnet-helper''"
    by (simp add: resolve_helper_path_def PATH_MAX_def)
qed

theorem resolve_helper_path_beside_witness:
  "resolve_helper_path ''/opt/bin/vmnet-run'' = ''/opt/bin/vmnet-helper''"
  using resolve_helper_path_beside[of "''vmnet-run''" "''/opt/bin''"] by (simp add: PATH_MAX_def)

end
