(* ===== verification/Run_Process.thy ===== *)
theory Run_Process
  imports Run_Argv
begin

text \<open>
  The processes of vmnet-run (\<open>programs/run.c\<close>): the process group, the socket pair on the descriptors 3
  and 4, the two children, the wait for the command and the end of the group.

  A \<open>fork\<close> answers 0 in the child and the child's pid in the parent, so the runs of all three processes
  are runs of the same program.  An \<open>execvp\<close> that succeeds never returns: it has no answer.
\<close>

unbundle bit_operations_syntax

section \<open>Calls and state\<close>

datatype rcall =
    Sigaction int
  | Is_group_leader
  | Setpgid
  | Atexit_terminate
  | Close int
  | Socketpair
  | Dup2 int int
  | Set_sndbuf int int
  | Set_rcvbuf int int
  | Fork
  | Exec_helper "string list"
  | Exec_command "string list"
  | Waitpid int
  | Ignore_sigterm
  | Killpg
  | Wait_any

text \<open>
  \<open>Wait_failed e sig left\<close>: \<open>waitpid\<close> failed with \<open>e\<close>; \<open>sig\<close> is the value of \<open>terminated\<close> read after
  it, and \<open>left\<close> what the variable \<open>status\<close> holds, which nothing has assigned.
\<close>

datatype rans =
    R_int int
  | R_fail errno
  | R_fds int int
  | Waited "32 word"
  | Wait_failed errno int "32 word"

fun rval :: "rans \<Rightarrow> int" where
  "rval (R_int n) = n"
| "rval _ = -1"

record runner = "(rcall, rans) proc" +
  rn_tso :: bool
  rn_helper_argv :: "string list"
  rn_command :: "string list"
  rn_helper_pid :: int
  rn_command_pid :: int
  rn_atexit :: bool

definition HELPER_FD :: int where "HELPER_FD = 3"
definition COMMAND_FD :: int where "COMMAND_FD = 4"

text \<open>A call that must not return -1.\<close>

definition run_must :: "rcall \<Rightarrow> (runner, unit) prog" where
  "run_must c = bind (sys c) (\<lambda>a. if rval a < 0 then exit_with EXIT_FAILURE else ret ())"

section \<open>Signals and the process group\<close>

definition RUN_SIGTERM :: int where "RUN_SIGTERM = 15"
definition RUN_SIGINT :: int where "RUN_SIGINT = 2"

definition setup_signals :: "(runner, unit) prog" where
  "setup_signals = seq (run_must (Sigaction RUN_SIGTERM)) (run_must (Sigaction RUN_SIGINT))"

definition become_process_group_leader :: "(runner, unit) prog" where
  "become_process_group_leader =
     bind (sys Is_group_leader) (\<lambda>a.
       if rval a = 1 then ret () else run_must Setpgid)"

text \<open>\<open>while (wait(NULL) > 0);\<close>\<close>

definition wait_round :: "(runner, unit option) prog" where
  "wait_round = bind (sys Wait_any) (\<lambda>a. ret (if 0 < rval a then None else Some ()))"

definition terminate_process_group :: "(runner, unit) prog" where
  "terminate_process_group =
     seq (emit Ignore_sigterm)
    (bind (sys Killpg) (\<lambda>a.
       if rval a = -1 \<and> a \<noteq> R_fail ESRCH then ret ()
       else repeat_until wait_round))"

definition defer_terminate_process_group :: "(runner, unit) prog" where
  "defer_terminate_process_group =
     seq (run_must Atexit_terminate) (modify (\<lambda>s. s\<lparr>rn_atexit := True\<rparr>))"

section \<open>The socket pair\<close>

definition run_set_socket_buffers :: "int \<Rightarrow> (runner, unit) prog" where
  "run_set_socket_buffers fd =
     bind (sys (Set_sndbuf fd (65 * 1024))) (\<lambda>_.
     bind (gets rn_tso) (\<lambda>tso.
     bind (sys (Set_rcvbuf fd ((if tso then 8 else 4) * 1024 * 1024))) (\<lambda>_. ret ())))"

definition create_socketpair :: "(runner, unit) prog" where
  "create_socketpair =
     bind (sys (Close HELPER_FD)) (\<lambda>_.
     bind (sys (Close COMMAND_FD)) (\<lambda>_.
     bind (sys Socketpair) (\<lambda>a.
       case a of
         R_fds fd0 fd1 \<Rightarrow>
           seq (run_must (Dup2 fd1 COMMAND_FD))
          (seq (run_must (Dup2 fd0 HELPER_FD))
          (seq (run_set_socket_buffers HELPER_FD)
               (run_set_socket_buffers COMMAND_FD)))
       | _ \<Rightarrow> exit_with EXIT_FAILURE)))"

section \<open>The children\<close>

definition start_helper :: "(runner, unit) prog" where
  "start_helper =
     bind (sys Fork) (\<lambda>a.
     seq (modify (\<lambda>s. s\<lparr>rn_helper_pid := rval a\<rparr>))
    (seq (if rval a < 0 then exit_with EXIT_FAILURE
          else whenp (rval a = 0)
            (bind (sys (Close COMMAND_FD)) (\<lambda>_.
             bind (gets rn_helper_argv) (\<lambda>argv.
             bind (sys (Exec_helper argv)) (\<lambda>b.
               if rval b < 0 then exit_with EXIT_FAILURE else ret ())))))
         (bind (sys (Close HELPER_FD)) (\<lambda>_. ret ()))))"

definition start_command :: "(runner, unit) prog" where
  "start_command =
     bind (sys Fork) (\<lambda>a.
     seq (modify (\<lambda>s. s\<lparr>rn_command_pid := rval a\<rparr>))
    (seq (if rval a < 0 then exit_with EXIT_FAILURE
          else whenp (rval a = 0)
            (bind (sys (Close HELPER_FD)) (\<lambda>_.
             bind (gets rn_command) (\<lambda>argv.
             bind (sys (Exec_command argv)) (\<lambda>b.
               if rval b < 0 then exit_with EXIT_FAILURE else ret ())))))
         (bind (sys (Close COMMAND_FD)) (\<lambda>_. ret ()))))"

section \<open>Waiting\<close>

text \<open>The macros of \<open>sys/wait.h\<close> on a status.\<close>

definition WIFEXITED :: "32 word \<Rightarrow> bool" where "WIFEXITED st \<longleftrightarrow> st AND 0x7f = 0"
definition WEXITSTATUS :: "32 word \<Rightarrow> int" where "WEXITSTATUS st = uint (drop_bit 8 st AND 0xff)"
definition WIFSIGNALED :: "32 word \<Rightarrow> bool" where
  "WIFSIGNALED st \<longleftrightarrow> st AND 0x7f \<noteq> 0x7f \<and> st AND 0x7f \<noteq> 0"
definition WTERMSIG :: "32 word \<Rightarrow> int" where "WTERMSIG st = uint (st AND 0x7f)"

text \<open>The value returned for a status; \<open>None\<close>: wait again.\<close>

definition status_result :: "32 word \<Rightarrow> int option" where
  "status_result st =
     (if WIFEXITED st then Some (WEXITSTATUS st)
      else if WIFSIGNALED st then Some (128 + WTERMSIG st)
      else None)"

definition decode_status :: "32 word \<Rightarrow> (runner, int option) prog" where
  "decode_status st =
     (case status_result st of
        None \<Rightarrow> ret None
      | Some n \<Rightarrow> seq (modify (\<lambda>s. s\<lparr>rn_command_pid := -1\<rparr>)) (ret (Some n)))"

definition command_round :: "(runner, int option) prog" where
  "command_round =
     bind (gets rn_command_pid) (\<lambda>pid.
     bind (sys (Waitpid pid)) (\<lambda>a.
       case a of
         Waited st \<Rightarrow> decode_status st
       | Wait_failed e terminated left \<Rightarrow>
           if e \<noteq> EINTR then exit_with EXIT_FAILURE
           else if terminated \<noteq> 0 then ret (Some (128 + terminated))
           else decode_status left
       | _ \<Rightarrow> exit_with EXIT_FAILURE))"

definition wait_for_command :: "(runner, int) prog" where
  "wait_for_command = repeat_until command_round"

section \<open>main\<close>

definition run_body :: "(runner, unit) prog" where
  "run_body =
     seq setup_signals
    (seq become_process_group_leader
    (seq defer_terminate_process_group
    (seq create_socketpair
    (seq start_helper
    (seq start_command
         (bind wait_for_command exit_with))))))"

text \<open>A process that exits runs the registered function.\<close>

definition run_finish :: "(runner, unit) prog \<Rightarrow> (runner, unit) prog" where
  "run_finish m s =
     (case m s of
        (Exited c, t) \<Rightarrow>
          seq (bind (gets rn_atexit) (\<lambda>b. whenp b terminate_process_group)) (exit_with c) t
      | r \<Rightarrow> r)"

definition runner_start :: "rans list \<Rightarrow> run_cli \<Rightarrow> string list \<Rightarrow> runner" where
  "runner_start as c argv = \<lparr>answers = as, history = [], rn_tso = cl_enable_tso (rc_options c),
     rn_helper_argv = argv, rn_command = rc_command c, rn_helper_pid = -1, rn_command_pid = -1,
     rn_atexit = False\<rparr>"

definition run_main :: "env \<Rightarrow> errno + string \<Rightarrow> string \<Rightarrow> string list \<Rightarrow> rans list \<Rightarrow> unit outcome \<times> runner" where
  "run_main e sysctl argv0 args as =
     (case run_parse_options e args run_cli_init of
        (Done _, c) \<Rightarrow>
          (case build_helper_argv sysctl \<lparr>ra_options = rc_options c, ra_verbose = rc_verbose c,
                  ra_helper_path = resolve_helper_path argv0, ra_argv = []\<rparr> of
             (Done _, a) \<Rightarrow> run_finish run_body (runner_start as c (ra_argv a))
           | (r, a) \<Rightarrow> (r, runner_start as c (ra_argv a)))
      | (r, c) \<Rightarrow> (r, runner_start as c []))"

interpretation group_loop: calling_loop wait_round
  by (rule calling_loop_consumes)
     (auto simp: wait_round_def intro!: consumes_bind_first down_order.pres_ret)

interpretation command_loop: calling_loop command_round
proof (rule calling_loop_consumes)
  have "preserves answers_down (decode_status st)" for st
    unfolding decode_status_def
    by (auto intro!: down_order.pres_seq down_order.pres_ret down_modify split: option.split)
  then show "consumes command_round"
    unfolding command_round_def
    by (intro consumes_bind_second down_order.pres_gets consumes_bind_first consumes_sys)
       (auto split: rans.split intro: down_order.pres_exit down_order.pres_ret)
qed

section \<open>The process group\<close>

text \<open>
  Where a process is with its group: in its parent's group, leader of its own, with the termination
  of the group registered, and after it.
\<close>

datatype gphase = Alone | Leader | Armed | Killed

fun group_next :: "gphase \<Rightarrow> rcall \<times> rans option \<Rightarrow> gphase option" where
  "group_next q (Is_group_leader, a) =
     (if q = Alone then Some (if a = Some (R_int 1) then Leader else Alone) else None)"
| "group_next q (Setpgid, a) =
     (if q = Alone then Some (if a \<noteq> None \<and> 0 \<le> rval (the a) then Leader else Alone) else None)"
| "group_next q (Atexit_terminate, a) =
     (if q = Leader then Some (if a \<noteq> None \<and> 0 \<le> rval (the a) then Armed else Leader) else None)"
| "group_next q (Fork, a) = (if q = Armed then Some Armed else None)"
| "group_next q (Killpg, a) = (if q = Armed then Some Killed else None)"
| "group_next q (Wait_any, a) = (if q = Killed then Some Killed else None)"
| "group_next q _ = Some q"

fun run_group :: "gphase \<Rightarrow> (rcall \<times> rans option) list \<Rightarrow> gphase option" where
  "run_group q [] = Some q"
| "run_group q (e # h) = Option.bind (group_next q e) (\<lambda>q. run_group q h)"

lemma run_group_append:
  "run_group q (g @ h) = Option.bind (run_group q g) (\<lambda>q. run_group q h)"
  by (induction g arbitrary: q) (simp_all split: Option.bind_split)

definition at_group :: "gphase \<Rightarrow> runner \<Rightarrow> bool" where
  "at_group q s \<longleftrightarrow> run_group Alone (history s) = Some q \<and> q \<noteq> Killed \<and> rn_atexit s = (q = Armed)"

definition in_group :: "runner \<Rightarrow> bool" where
  "in_group s \<longleftrightarrow> (\<exists>q. at_group q s)"

lemma at_in_group: "at_group q s \<Longrightarrow> in_group s"
  by (auto simp: in_group_def)

text \<open>The parts that neither change the group nor its handler; \<open>fork\<close> is one once it is registered.\<close>

fun group_call :: "rcall \<Rightarrow> bool" where
  "group_call Is_group_leader = True"
| "group_call Setpgid = True"
| "group_call Atexit_terminate = True"
| "group_call Killpg = True"
| "group_call Wait_any = True"
| "group_call _ = False"

definition armed_run :: "runner \<Rightarrow> runner \<Rightarrow> bool" where
  "armed_run s t \<longleftrightarrow> calls_in (\<lambda>c. \<not> group_call c) s t \<and> rn_atexit t = rn_atexit s"

interpretation armed_order: step_order armed_run
  by unfold_locales (auto simp: armed_run_def intro: calls_order.refl_step calls_order.trans_step)

lemma armed_sys: "\<not> group_call c \<Longrightarrow> preserves armed_run (sys c)"
  by (auto simp: preserves_def sys_def armed_run_def calls_in_def split: list.splits)

lemma armed_modify:
  "(\<And>s. history (f s) = history s \<and> rn_atexit (f s) = rn_atexit s) \<Longrightarrow> preserves armed_run (modify f)"
  by (simp add: preserves_def modify_def armed_run_def calls_in_def)

lemma armed_must: "\<not> group_call c \<Longrightarrow> preserves armed_run (run_must c)"
  unfolding run_must_def by (auto intro!: armed_order.pres_bind armed_sys armed_order.pres_exit armed_order.pres_ret)

lemmas armed_intros = armed_order.pres_bind armed_order.pres_seq armed_order.pres_exit
  armed_order.pres_ret armed_order.pres_gets armed_order.pres_whenp armed_sys armed_modify armed_must
  preserves_repeat[OF armed_order.step_order_axioms]

lemma armed_parts:
  "preserves armed_run create_socketpair" "preserves armed_run start_helper"
  "preserves armed_run start_command" "preserves armed_run wait_for_command"
  unfolding create_socketpair_def run_set_socket_buffers_def start_helper_def start_command_def
    wait_for_command_def command_round_def decode_status_def
  by (auto intro!: armed_intros split: rans.split option.split)

lemma run_group_armed:
  "list_all (\<lambda>e. \<not> group_call (fst e)) g \<Longrightarrow> run_group Armed g = Some Armed"
proof (induction g)
  case (Cons e g)
  then have "group_next Armed e = Some Armed"
    by (cases "(Armed, e)" rule: group_next.cases) auto
  with Cons show ?case by simp
qed simp

lemma armed_at: "armed_run s t \<Longrightarrow> at_group Armed s \<Longrightarrow> at_group Armed t"
  unfolding armed_run_def calls_in_def at_group_def
  by (elim conjE exE) (simp add: run_group_append run_group_armed)

lemma armed_triple:
  assumes "preserves armed_run m"
  shows "triple (at_group Armed) m (\<lambda>_. at_group Armed) in_group"
  unfolding triple_def
proof (intro allI impI)
  fix s r t assume "at_group Armed s" "m s = (r, t)"
  then have "at_group Armed t" using preservesD[OF assms] armed_at by blast
  then show "case r of Done x \<Rightarrow> at_group Armed t | _ \<Rightarrow> in_group t"
    by (cases r) (auto intro: at_in_group)
qed

lemma triple_run_must:
  assumes "\<And>s a as. P s \<Longrightarrow> answers s = a # as \<Longrightarrow> 0 \<le> rval a \<Longrightarrow>
      Q () (s\<lparr>answers := as, history := history s @ [(c, Some a)]\<rparr>)"
    and "\<And>s a as. P s \<Longrightarrow> answers s = a # as \<Longrightarrow> rval a < 0 \<Longrightarrow>
      E (s\<lparr>answers := as, history := history s @ [(c, Some a)]\<rparr>)"
    and "\<And>s. P s \<Longrightarrow> E s"
  shows "triple P (run_must c) Q E"
  unfolding triple_def
proof (intro allI impI)
  fix s r t assume "P s" and run: "run_must c s = (r, t)"
  show "case r of Done x \<Rightarrow> Q x t | _ \<Rightarrow> E t"
  proof (cases "answers s")
    case Nil
    then show ?thesis using run assms(3)[OF \<open>P s\<close>] by (auto simp: run_must_def bind_def)
  next
    case (Cons a as)
    then show ?thesis
      using run assms(1,2)[OF \<open>P s\<close> Cons]
      by (cases "rval a < 0") (auto simp: run_must_def bind_def ret_def exit_with_def)
  qed
qed

lemma at_group_call:
  assumes "at_group q s" and "group_next q (c, Some a) = Some q'" and "q' \<noteq> Killed" and "q = Armed \<longleftrightarrow> q' = Armed"
  shows "at_group q' (s\<lparr>answers := as, history := history s @ [(c, Some a)]\<rparr>)"
  using assms by (auto simp: at_group_def run_group_append)

lemma signals_group: "triple (at_group Alone) setup_signals (\<lambda>_. at_group Alone) in_group"
  unfolding setup_signals_def
  by (rule triple_seq[where R = "at_group Alone"]; rule triple_run_must)
     (auto intro: at_group_call at_in_group at_in_group[OF at_group_call])

lemma leader_group: "triple (at_group Alone) become_process_group_leader (\<lambda>_. at_group Leader) in_group"
  unfolding become_process_group_leader_def
proof (rule triple_bind)
  show "triple (at_group Alone) (sys Is_group_leader)
      (\<lambda>a s. at_group (if rval a = 1 then Leader else Alone) s) in_group"
  proof (rule triple_sys)
    fix s a as assume "at_group Alone s"
    moreover have "rval a = 1 \<longleftrightarrow> a = R_int 1" by (cases a) auto
    ultimately show "at_group (if rval a = 1 then Leader else Alone)
        (s\<lparr>answers := as, history := history s @ [(Is_group_leader, Some a)]\<rparr>)"
      by (auto intro!: at_group_call[of Alone])
  qed (rule at_in_group)
  fix a
  show "triple (at_group (if rval a = 1 then Leader else Alone)) (if rval a = 1 then ret () else run_must Setpgid)
      (\<lambda>_. at_group Leader) in_group"
    by (auto intro!: triple_ret triple_run_must intro: at_group_call at_in_group at_in_group[OF at_group_call])
qed

lemma defer_group: "triple (at_group Leader) defer_terminate_process_group (\<lambda>_. at_group Armed) in_group"
  unfolding defer_terminate_process_group_def
proof (rule triple_seq)
  let ?R = "\<lambda>s. run_group Alone (history s) = Some Armed"
  show "triple (at_group Leader) (run_must Atexit_terminate) (\<lambda>_. ?R) in_group"
    by (rule triple_run_must)
       (auto simp: at_group_def run_group_append in_group_def)
  show "triple ?R (modify (\<lambda>s. s\<lparr>rn_atexit := True\<rparr>)) (\<lambda>_. at_group Armed) in_group"
    by (rule triple_modify) (simp add: at_group_def)
qed

lemma body_group: "triple (at_group Alone) run_body (\<lambda>_. in_group) in_group"
proof -
  have last: "triple (at_group Armed) (bind wait_for_command exit_with) (\<lambda>_. in_group) in_group"
    by (rule triple_bind[OF armed_triple[OF armed_parts(4)]]) (auto intro: triple_exit at_in_group)
  show ?thesis
    unfolding run_body_def
    by (rule triple_seq[OF signals_group] triple_seq[OF leader_group] triple_seq[OF defer_group]
      triple_seq[OF armed_triple[OF armed_parts(1)]] triple_seq[OF armed_triple[OF armed_parts(2)]]
      triple_seq[OF armed_triple[OF armed_parts(3)]] last)+
qed

lemma terminate_group:
  "triple (\<lambda>s. run_group Alone (history s) = Some Armed) terminate_process_group
     (\<lambda>_ s. run_group Alone (history s) = Some Killed) (\<lambda>s. run_group Alone (history s) \<noteq> None)"
proof -
  let ?K = "\<lambda>s :: runner. run_group Alone (history s) = Some Killed"
  have round: "triple ?K wait_round (\<lambda>_. ?K) ?K"
    unfolding wait_round_def
    by (rule triple_bind[where R = "\<lambda>_. ?K"]; (rule triple_sys triple_ret)?) (auto simp: run_group_append)
  have loop: "triple ?K (repeat_until wait_round) (\<lambda>_. ?K) (\<lambda>s. run_group Alone (history s) \<noteq> None)"
    using repeat_until_keeps[OF round] by (rule triple_weaken) auto
  show ?thesis
    unfolding terminate_process_group_def
  proof (rule triple_seq[where R = "\<lambda>s. run_group Alone (history s) = Some Armed"], goal_cases)
    case 1
    show ?case by (rule triple_emit) (simp add: run_group_append)
  next
    case 2
    show ?case
    proof (rule triple_bind[where R = "\<lambda>_. ?K"], goal_cases)
      case 1
      show ?case by (rule triple_sys) (auto simp: run_group_append)
    next
      case (2 a)
      show ?case using loop by (auto intro: triple_ret)
    qed
  qed
qed

lemma terminate_exits: "terminate_process_group s \<noteq> (Exited k, t)"
proof -
  have "exits_in {} terminate_process_group"
    unfolding terminate_process_group_def wait_round_def by (auto intro!: exit_codes)
  then show ?thesis using exits_inD by fastforce
qed

lemma run_finish_group:
  assumes "at_group Alone s" and "run_finish run_body s = (r, t)"
  shows "\<exists>q. run_group Alone (history t) = Some q \<and> (\<forall>n. r = Exited n \<longrightarrow> q \<noteq> Armed)"
proof -
  obtain r1 u where b: "run_body s = (r1, u)" by fastforce
  have u: "in_group u"
    using body_group assms(1) b unfolding triple_def by (cases r1) fastforce+
  then obtain q where q: "at_group q u" by (auto simp: in_group_def)
  show ?thesis
  proof (cases "\<exists>n. r1 = Exited n")
    case True
    then obtain n where rt: "seq (bind (gets rn_atexit) (\<lambda>b. whenp b terminate_process_group)) (exit_with n) u = (r, t)"
      using assms(2) b by (auto simp: run_finish_def)
    show ?thesis
    proof (cases "q = Armed")
      case True
      then have "seq terminate_process_group (exit_with n) u = (r, t)"
        using rt q by (simp add: at_group_def seq_def bind_def gets_def whenp_def)
      moreover have "triple (\<lambda>s. run_group Alone (history s) = Some Armed) (seq terminate_process_group (exit_with n))
          (\<lambda>_ _. False) (\<lambda>s. run_group Alone (history s) \<noteq> None)"
        by (rule triple_seq[OF terminate_group]) (auto intro: triple_exit)
      ultimately have 1: "run_group Alone (history t) \<noteq> None"
        using q True unfolding triple_def at_group_def by (cases r) fastforce+
      have "run_group Alone (history t) = Some Killed" if rk: "r = Exited k" for k
      proof -
        obtain v where "terminate_process_group u = (Done (), v)" "t = v"
          using \<open>seq terminate_process_group (exit_with n) u = (r, t)\<close> rk
          by (auto simp: seq_Exited terminate_exits)
        then show ?thesis
          using triple_Done[OF terminate_group, of u "()" v] q True by (simp add: at_group_def)
      qed
      with 1 show ?thesis by auto
    next
      case False
      then have "t = u"
        using rt q by (auto simp: at_group_def seq_def bind_def gets_def whenp_def ret_def exit_with_def)
      then show ?thesis using q False by (auto simp: at_group_def)
    qed
  next
    case False
    then have "t = u" "r = r1" using assms(2) b by (cases r1; auto simp: run_finish_def)+
    then show ?thesis using q False by (auto simp: at_group_def)
  qed
qed

text \<open>
  C15: The runner's process group: it is signalled only by a process that leads a group of its own,
  after that was registered; no child is started before; and a process that exits after it
  started a child, for whatever reason, has signalled the group.
\<close>

theorem run_main_group:
  assumes "run_main e sysctl argv0 args as = (r, t)"
  shows "\<exists>q. run_group Alone (history t) = Some q \<and> (\<forall>n. r = Exited n \<longrightarrow> q \<noteq> Armed)"
proof -
  have start: "at_group Alone (runner_start as c argv)" for c argv
    by (simp add: at_group_def runner_start_def)
  have none: "\<exists>q. run_group Alone (history (runner_start as c argv)) = Some q \<and> q \<noteq> Armed" for c argv
    by (simp add: runner_start_def)
  show ?thesis
  proof (cases "run_parse_options e args run_cli_init")
    case (Pair x c)
    show ?thesis
    proof (cases x)
      case (Done u)
      let ?a = "\<lparr>ra_options = rc_options c, ra_verbose = rc_verbose c,
        ra_helper_path = resolve_helper_path argv0, ra_argv = []\<rparr>"
      obtain y a where y: "build_helper_argv sysctl ?a = (y, a)" by fastforce
      show ?thesis
      proof (cases y)
        case (Done v)
        then have "run_finish run_body (runner_start as c (ra_argv a)) = (r, t)"
          using assms Pair \<open>x = Done u\<close> y by (simp add: run_main_def)
        from run_finish_group[OF start this] show ?thesis .
      qed (use assms Pair Done y none in \<open>auto simp: run_main_def\<close>)
    qed (use assms Pair none in \<open>auto simp: run_main_def\<close>)
  qed
qed

text \<open>
  The command ends with status 3; the group is signalled, the helper and the command are reaped and
  there is no other child.
\<close>

definition sample_run_answers :: "rans list" where
  "sample_run_answers = [R_int 0, R_int 0, R_int 0, R_int 0, R_int 0, R_fail (E_other 9), R_fail (E_other 9),
     R_fds 3 4, R_int 4, R_int 3, R_int 0, R_int 0, R_int 0, R_int 0, R_int 101, R_int 0, R_int 102, R_int 0,
     Waited 0x300, R_int 0, R_int 101, R_fail (E_other 10)]"

theorem run_main_group_witness:
  "\<exists>t. run_main sample_env (Inr ''26.1'') ''/opt/bin/vmnet-run'' sample_run_args sample_run_answers = (Exited 3, t) \<and>
     run_group Alone (history t) = Some Killed"
proof -
  let ?r = "run_main sample_env (Inr ''26.1'') ''/opt/bin/vmnet-run'' sample_run_args sample_run_answers"
  have "fst ?r = Exited 3" by code_simp
  then have r: "?r = (Exited 3, snd ?r)" by (simp add: prod_eq_iff)
  have "run_group Alone (history (snd ?r)) \<notin> {Some Alone, Some Leader}" by code_simp
  moreover obtain q where "run_group Alone (history (snd ?r)) = Some q" "q \<noteq> Armed"
    using run_main_group[OF r] by auto
  ultimately have "run_group Alone (history (snd ?r)) = Some Killed" by (cases q) auto
  with r show ?thesis by blast
qed

section \<open>The status of the command\<close>

text \<open>The statuses the kernel makes: of an exit, of a signal with or without a core, of a stop.\<close>

definition status_exited :: "8 word \<Rightarrow> 32 word" where
  "status_exited k = push_bit 8 (ucast k)"

definition status_signalled :: "7 word \<Rightarrow> bool \<Rightarrow> 32 word" where
  "status_signalled n core = ucast n OR (if core then push_bit 7 1 else 0)"

definition status_stopped :: "8 word \<Rightarrow> 32 word" where
  "status_stopped n = push_bit 8 (ucast n) OR mask 7"

lemma masks: "(0x7f :: 32 word) = mask 7" "(0xff :: 32 word) = mask 8"
  by (simp_all add: mask_eq_exp_minus_1)

lemma bit_small: "bit (w :: 'a :: len word) i \<Longrightarrow> i < LENGTH('a)"
  by (rule bit_imp_le_length)

lemmas bit_rules = bit_and_iff bit_or_iff bit_mask_iff bit_push_bit_iff bit_drop_bit_eq comp_apply
  bit_ucast_iff bit_0_eq bot_apply bot_bool_def if_True if_False

lemma exited_bits:
  "status_exited k AND 0x7f = 0" "drop_bit 8 (status_exited k) AND 0xff = ucast k"
  unfolding status_exited_def masks
  by (rule bit_word_eqI; auto simp only: bit_rules; auto dest: bit_small)+

lemma signalled_bits: "status_signalled n core AND 0x7f = ucast n"
  unfolding status_signalled_def masks
  by (rule bit_word_eqI) (cases core; auto simp only: bit_rules; auto dest: bit_small)

lemma stopped_bits: "status_stopped n AND 0x7f = 0x7f"
  unfolding status_stopped_def masks
  by (rule bit_word_eqI) (auto simp only: bit_rules)

lemma ucast_signal:
  fixes n :: "7 word" shows "uint (ucast n :: 32 word) = uint n"
  by (simp add: uint_up_ucast is_up)

lemma ucast_signal_neq:
  fixes n :: "7 word" assumes "n \<noteq> word_of_int m" and "uint (word_of_int m :: 32 word) = m"
  shows "(ucast n :: 32 word) \<noteq> word_of_int m"
proof
  assume "(ucast n :: 32 word) = word_of_int m"
  then have "uint n = m" using assms(2) ucast_signal[of n] by simp
  then show False using assms(1) by (metis word_of_int_uint)
qed

text \<open>
  C30: The runner's result for the status of a command: an exit status is returned as it is, a
  signal as 128 plus its number with or without a core dump, and a stopped command is waited for
  again.
\<close>

theorem status_result_of_kernel:
  "status_result (status_exited k) = Some (uint k) \<and>
   (n \<noteq> 0 \<and> n \<noteq> 0x7f \<longrightarrow> status_result (status_signalled n core) = Some (128 + uint n)) \<and>
   status_result (status_stopped k) = None"
proof (intro conjI impI)
  have "uint (ucast k :: 32 word) = uint k" by (simp add: uint_up_ucast is_up)
  then show "status_result (status_exited k) = Some (uint k)"
    by (simp add: status_result_def WIFEXITED_def WEXITSTATUS_def exited_bits)
  show "status_result (status_stopped k) = None"
    by (simp add: status_result_def WIFEXITED_def WIFSIGNALED_def stopped_bits)
  assume n: "n \<noteq> 0 \<and> n \<noteq> 0x7f"
  note u = ucast_signal[of n]
  have "(ucast n :: 32 word) \<noteq> 0" "(ucast n :: 32 word) \<noteq> 0x7f"
    using n ucast_signal_neq[where n = n and m = 0] ucast_signal_neq[where n = n and m = 127] by simp_all
  then show "status_result (status_signalled n core) = Some (128 + uint n)"
    by (simp add: status_result_def WIFEXITED_def WIFSIGNALED_def WTERMSIG_def signalled_bits u)
qed

theorem status_result_of_kernel_witness:
  "status_result (status_signalled 15 True) = Some 143 \<and> status_result (status_exited 3) = Some 3"
  using status_result_of_kernel[where k = 3 and n = 15 and core = True] by simp

section \<open>The wait\<close>

text \<open>What an answer of \<open>waitpid\<close> decides: the runner exits, waits again or returns a value.\<close>

fun answer_result :: "rans \<Rightarrow> int option option" where
  "answer_result (Waited st) = Some (status_result st)"
| "answer_result (Wait_failed e sig left) =
     (if e \<noteq> EINTR then None else if sig \<noteq> 0 then Some (Some (128 + sig)) else Some (status_result left))"
| "answer_result _ = None"

text \<open>
  After an interruption by anything but a termination signal the code decodes a \<open>status\<close> that was
  never assigned: a leftover 0 makes the runner return 0 while the command runs.
\<close>

lemma wait_reads_unset_status: "answer_result (Wait_failed EINTR 0 0) = Some (Some 0)"
  by (simp add: status_result_def WIFEXITED_def WEXITSTATUS_def)

lemma command_round_eq:
  "command_round s = bind (sys (Waitpid (rn_command_pid s))) (\<lambda>a.
     case answer_result a of
       None \<Rightarrow> exit_with EXIT_FAILURE
     | Some None \<Rightarrow> ret None
     | Some (Some n) \<Rightarrow> seq (whenp (\<exists>st. a = Waited st \<or> (\<exists>e. a = Wait_failed e 0 st))
         (modify (\<lambda>s. s\<lparr>rn_command_pid := -1\<rparr>))) (ret (Some n))) s"
proof (cases "answers s")
  case (Cons a as)
  then show ?thesis
    by (cases a) (auto simp: command_round_def bind_def gets_def decode_status_def seq_def whenp_def
        ret_def exit_with_def modify_def split: option.split)
qed (simp add: command_round_def bind_def gets_def)

definition waits_again :: "runner \<Rightarrow> runner \<Rightarrow> bool" where
  "waits_again s u \<longleftrightarrow> rn_command_pid u = rn_command_pid s \<and> (\<exists>g. history u = history s @ g \<and>
     list_all (\<lambda>e. \<exists>b. e = (Waitpid (rn_command_pid s), Some b) \<and> answer_result b = Some None) g)"

lemma command_round_ends:
  assumes "waits_again s u" and "command_round u = (r, t)"
  shows "r = Waiting \<or> r = Done None \<and> waits_again s t \<or>
    (\<exists>g a. history t = history s @ g @ [(Waitpid (rn_command_pid s), Some a)] \<and>
      list_all (\<lambda>e. \<exists>b. e = (Waitpid (rn_command_pid s), Some b) \<and> answer_result b = Some None) g \<and>
      (r = Exited 1 \<and> answer_result a = None \<or> (\<exists>n. r = Done (Some n) \<and> answer_result a = Some (Some n))))"
proof (cases "answers u")
  case Nil
  then show ?thesis using assms(2) by (simp add: command_round_eq bind_def)
next
  case (Cons a as)
  obtain g where g: "history u = history s @ g" and p: "rn_command_pid u = rn_command_pid s"
    and l: "list_all (\<lambda>e. \<exists>b. e = (Waitpid (rn_command_pid s), Some b) \<and> answer_result b = Some None) g"
    using assms(1) by (auto simp: waits_again_def)
  let ?v = "u\<lparr>answers := as, history := history u @ [(Waitpid (rn_command_pid s), Some a)]\<rparr>"
  have h: "history ?v = history s @ g @ [(Waitpid (rn_command_pid s), Some a)]" using g by simp
  show ?thesis
  proof (cases "answer_result a")
    case None
    then have "r = Exited 1" "history t = history ?v"
      using assms(2) Cons p by (auto simp: command_round_eq bind_def exit_with_def)
    then show ?thesis using h l None by (intro disjI2 exI[of _ g] exI[of _ a]) simp
  next
    case (Some x)
    show ?thesis
    proof (cases x)
      case None
      then have "r = Done None" "t = ?v"
        using assms(2) Cons p Some by (auto simp: command_round_eq bind_def ret_def)
      moreover have "waits_again s ?v"
        unfolding waits_again_def using p h l Some None by (intro conjI exI[of _ "g @ [(Waitpid (rn_command_pid s), Some a)]"]) simp_all
      ultimately show ?thesis by blast
    next
      case (Some n)
      then have "r = Done (Some n)" "history t = history ?v"
        using assms(2) Cons p \<open>answer_result a = Some x\<close>
        by (auto simp: command_round_eq bind_def ret_def seq_def whenp_def modify_def split: if_splits)
      then show ?thesis
        using h l Some \<open>answer_result a = Some x\<close> by (intro disjI2 exI[of _ g] exI[of _ a]) simp
    qed
  qed
qed

text \<open>
  C29: The wait for the command ends at the first answer that is not a stopped command, and with its
  result: the value for the command's status, 128 plus the signal that terminated the runner, or
  an exit with status 1 when waiting failed.
\<close>

theorem wait_for_command_result:
  assumes "wait_for_command s = (r, t)" and "r \<noteq> Waiting"
  shows "\<exists>g a. history t = history s @ g @ [(Waitpid (rn_command_pid s), Some a)] \<and>
    list_all (\<lambda>e. \<exists>b. e = (Waitpid (rn_command_pid s), Some b) \<and> answer_result b = Some None) g \<and>
    (r = Exited 1 \<and> answer_result a = None \<or> (\<exists>n. r = Done n \<and> answer_result a = Some (Some n)))"
proof -
  have run: "repeat_until command_round s = (r, t)" using assms(1) by (simp add: wait_for_command_def)
  have start: "waits_again s s" by (simp add: waits_again_def)
  have step: "waits_again s v" if "waits_again s u" "command_round u = (Done None, v)" for u v
    using command_round_ends[OF that] by auto
  show ?thesis
  proof (cases r)
    case (Done n)
    obtain u where "waits_again s u" "command_round u = (Done (Some n), t)"
      by (rule command_loop.loop_Done[where I = "waits_again s", OF run[unfolded Done] start])
         (blast intro: step)+
    from command_round_ends[OF this] show ?thesis using Done by auto
  next
    case (Exited c)
    obtain u where "waits_again s u" "command_round u = (Exited c, t)"
      by (rule command_loop.loop_Exited[where I = "waits_again s", OF run[unfolded Exited] start])
         (blast intro: step)+
    from command_round_ends[OF this] show ?thesis using Exited by auto
  next
    case Aborted
    obtain u where "waits_again s u" "command_round u = (Aborted, t)"
      by (rule command_loop.loop_Aborted[where I = "waits_again s", OF run[unfolded Aborted] start])
         (blast intro: step)+
    from command_round_ends[OF this] show ?thesis by auto
  qed (use assms(2) in simp)
qed

definition sample_wait :: runner where
  "sample_wait = \<lparr>answers = [Wait_failed EINTR 15 0], history = [], rn_tso = False,
     rn_helper_argv = [], rn_command = [], rn_helper_pid = 101, rn_command_pid = 102, rn_atexit = True\<rparr>"

theorem wait_for_command_result_witness:
  "\<exists>t a. wait_for_command sample_wait = (Done 143, t) \<and>
     history t = [(Waitpid 102, Some a)] \<and> answer_result a = Some (Some 143)"
proof -
  let ?r = "wait_for_command sample_wait"
  have x: "fst ?r = Done 143" and h: "length (history (snd ?r)) = 1" by code_simp+
  then have r: "?r = (Done 143, snd ?r)" by (simp add: prod_eq_iff)
  obtain g a where ga: "history (snd ?r) = history sample_wait @ g @ [(Waitpid (rn_command_pid sample_wait), Some a)]"
    "answer_result a = Some (Some 143)"
    using wait_for_command_result[OF r] by auto
  then have "history (snd ?r) = [(Waitpid 102, Some a)]" using h by (simp add: sample_wait_def)
  with r ga show ?thesis by blast
qed

end
