(* ===== verification/Run_Descriptors.thy ===== *)
theory Run_Descriptors
  imports Run_Process
begin

text \<open>
  The descriptors of vmnet-run and its children: what the kernel does with \<open>close\<close>, \<open>socketpair\<close> and
  \<open>dup2\<close>, and who inherits which end of the socket pair.
\<close>

section \<open>The descriptor table\<close>

datatype sock_end = Helper_end | Command_end | Other_file

type_synonym fds = "int \<Rightarrow> sock_end option"

text \<open>\<open>socketpair\<close> takes the two lowest descriptors that are free.\<close>

definition two_lowest :: "fds \<Rightarrow> int \<Rightarrow> int \<Rightarrow> bool" where
  "two_lowest t a b \<longleftrightarrow> 0 \<le> a \<and> a < b \<and> t a = None \<and> t b = None \<and>
     (\<forall>n \<in> {0..<b}. n = a \<or> t n \<noteq> None)"

text \<open>\<open>None\<close>: an answer the kernel does not give; an \<open>execvp\<close> that returns has failed.\<close>

fun fd_next :: "fds \<Rightarrow> rcall \<times> rans option \<Rightarrow> fds option" where
  "fd_next t (Close n, a) = Some (t(n := None))"
| "fd_next t (Socketpair, a) =
     (case a of
        Some (R_fds x y) \<Rightarrow>
          if two_lowest t x y then Some (t(x := Some Helper_end, y := Some Command_end)) else None
      | _ \<Rightarrow> Some t)"
| "fd_next t (Dup2 x y, a) =
     (if a = None \<or> rval (the a) < 0 then Some t
      else if t x = None then None else Some (t(y := t x)))"
| "fd_next t (Exec_helper argv, a) = (if a = None \<or> rval (the a) < 0 then Some t else None)"
| "fd_next t (Exec_command argv, a) = (if a = None \<or> rval (the a) < 0 then Some t else None)"
| "fd_next t e = Some t"

fun run_fds :: "fds \<Rightarrow> (rcall \<times> rans option) list \<Rightarrow> fds option" where
  "run_fds t [] = Some t"
| "run_fds t (e # h) = Option.bind (fd_next t e) (\<lambda>t. run_fds t h)"

lemma run_fds_append: "run_fds t (g @ h) = Option.bind (run_fds t g) (\<lambda>t. run_fds t h)"
  by (induction g arbitrary: t) (simp_all split: Option.bind_split)

text \<open>The descriptors of the two ends.\<close>

definition ends_at :: "fds \<Rightarrow> int set \<Rightarrow> int set \<Rightarrow> bool" where
  "ends_at t H C \<longleftrightarrow> (\<forall>n. (t n = Some Helper_end) = (n \<in> H)) \<and> (\<forall>n. (t n = Some Command_end) = (n \<in> C))"

text \<open>
  \<open>socketpair\<close> takes the lowest free descriptors, so when standard descriptors are closed the pair is
  not created on 3 and 4, and \<open>create_socketpair\<close> does not close the descriptors it copied from: the
  lowest closed one keeps the helper's end and the next one the command's end.
\<close>

definition closed_standard :: "fds \<Rightarrow> int list" where
  "closed_standard t = filter (\<lambda>n. t n = None) [0, 1, 2]"

definition kept_helper :: "fds \<Rightarrow> int set" where
  "kept_helper t = set (take 1 (closed_standard t))"

definition kept_command :: "fds \<Rightarrow> int set" where
  "kept_command t = set (take 1 (drop 1 (closed_standard t)))"

text \<open>
  At every \<open>execvp\<close> the child has its own end at its descriptor and no descriptor of the other end,
  and the process that waits for the command has neither, but for what the standard descriptors of
  the table \<open>T\<close> at the start keep.  What \<open>execvp\<close> passes on does not depend on whether it fails and
  is recorded.
\<close>

fun exec_ok :: "fds \<Rightarrow> fds \<Rightarrow> rcall \<Rightarrow> bool" where
  "exec_ok T t (Exec_helper argv) = ends_at t ({HELPER_FD} \<union> kept_helper T) (kept_command T)"
| "exec_ok T t (Exec_command argv) = ends_at t (kept_helper T) ({COMMAND_FD} \<union> kept_command T)"
| "exec_ok T t (Waitpid n) = ends_at t (kept_helper T) (kept_command T)"
| "exec_ok T t c = True"

fun execs_ok :: "fds \<Rightarrow> fds \<Rightarrow> (rcall \<times> rans option) list \<Rightarrow> bool" where
  "execs_ok T t [] = True"
| "execs_ok T t (e # h) = (exec_ok T t (fst e) \<and> (case fd_next t e of None \<Rightarrow> True | Some u \<Rightarrow> execs_ok T u h))"

lemma execs_ok_append:
  "execs_ok T t (g @ h) \<longleftrightarrow> execs_ok T t g \<and> (case run_fds t g of None \<Rightarrow> True | Some u \<Rightarrow> execs_ok T u h)"
  by (induction g arbitrary: t) (auto split: option.splits Option.bind_splits)

lemma kept_range: "n \<in> kept_helper t \<Longrightarrow> 0 \<le> n \<and> n \<le> 2" "n \<in> kept_command t \<Longrightarrow> 0 \<le> n \<and> n \<le> 2"
  by (auto simp: kept_helper_def kept_command_def closed_standard_def split: if_splits)

section \<open>The pair in place\<close>

lemma two_lowest_closed:
  assumes "two_lowest (t(3 := None, 4 := None)) a b"
  shows "a = (closed_standard t @ [3, 4]) ! 0" and "b = (closed_standard t @ [3, 4]) ! 1"
proof -
  let ?t = "t(3 := None, 4 := None)"
  have ab: "0 \<le> a" "a < b" "?t a = None" "?t b = None" and low: "\<And>n. 0 \<le> n \<Longrightarrow> n < b \<Longrightarrow> n = a \<or> ?t n \<noteq> None"
    using assms by (auto simp: two_lowest_def)
  have "\<not> 4 < b" using low[of 3] low[of 4] by fastforce
  then have cases: "a \<in> {0, 1, 2, 3}" "b \<in> {1, 2, 3, 4}" using ab by auto
  have first: "t n \<noteq> None" if "0 \<le> n" "n < a" "n < 3" for n using low[of n] that ab(2) by auto
  have second: "t n \<noteq> None" if "0 \<le> n" "n < b" "n \<noteq> a" "n < 3" for n using low[of n] that by auto
  consider "a = 0" "b = 1" | "a = 0" "b = 2" | "a = 0" "b = 3" | "a = 1" "b = 2" | "a = 1" "b = 3"
    | "a = 2" "b = 3" | "a = 3" "b = 4"
    using cases ab(2) low[of 3] by auto
  then show "a = (closed_standard t @ [3, 4]) ! 0" "b = (closed_standard t @ [3, 4]) ! 1"
    using ab(3,4) first[of 0] first[of 1] first[of 2] second[of 0] second[of 1] second[of 2]
    by (cases; simp add: closed_standard_def)+
qed

lemma run_must_Done:
  "run_must c s = (Done u, t) \<longleftrightarrow> (\<exists>a as. answers s = a # as \<and> 0 \<le> rval a \<and>
     t = s\<lparr>answers := as, history := history s @ [(c, Some a)]\<rparr>)"
  by (auto simp: run_must_def bind_def sys_def split: list.splits)

lemma buffers_calls:
  assumes "run_set_socket_buffers fd s = (Done u, t)"
  shows "\<exists>a b. history t = history s @ [(Set_sndbuf fd 66560, Some a),
    (Set_rcvbuf fd (if rn_tso s then 8388608 else 4194304), Some b)] \<and> rn_tso t = rn_tso s"
  using assms by (auto simp: run_set_socket_buffers_def bind_Done sys_Done)

lemma create_socketpair_calls:
  assumes "create_socketpair s = (Done u, t)"
  shows "\<exists>x y fd0 fd1 a b g. history t = history s @ [(Close 3, Some x), (Close 4, Some y),
      (Socketpair, Some (R_fds fd0 fd1)), (Dup2 fd1 4, Some a), (Dup2 fd0 3, Some b)] @ g \<and>
    0 \<le> rval a \<and> 0 \<le> rval b \<and> (\<forall>t. run_fds t g = Some t) \<and> (\<forall>T t. execs_ok T t g)"
proof -
  obtain x y c s3 where h3: "history s3 = history s @
      [(Close HELPER_FD, Some x), (Close COMMAND_FD, Some y), (Socketpair, Some c)]"
    and rest: "(case c of R_fds fd0 fd1 \<Rightarrow> seq (run_must (Dup2 fd1 COMMAND_FD))
          (seq (run_must (Dup2 fd0 HELPER_FD)) (seq (run_set_socket_buffers HELPER_FD)
               (run_set_socket_buffers COMMAND_FD))) | _ \<Rightarrow> exit_with EXIT_FAILURE) s3 = (Done u, t)"
  proof -
    obtain x s1 y s2 c s3 where "sys (Close HELPER_FD) s = (Done x, s1)"
      "sys (Close COMMAND_FD) s1 = (Done y, s2)" "sys Socketpair s2 = (Done c, s3)"
      and r: "(case c of R_fds fd0 fd1 \<Rightarrow> seq (run_must (Dup2 fd1 COMMAND_FD))
          (seq (run_must (Dup2 fd0 HELPER_FD)) (seq (run_set_socket_buffers HELPER_FD)
               (run_set_socket_buffers COMMAND_FD))) | _ \<Rightarrow> exit_with EXIT_FAILURE) s3 = (Done u, t)"
      using assms unfolding create_socketpair_def bind_Done by blast
    then have "history s3 = history s @ [(Close HELPER_FD, Some x), (Close COMMAND_FD, Some y), (Socketpair, Some c)]"
      by (auto simp: sys_Done)
    with r show ?thesis by (rule that[rotated])
  qed
  show ?thesis
  proof (cases c)
    case (R_fds fd0 fd1)
    with rest obtain a b s5 s6 where d: "run_must (Dup2 fd1 4) s3 = (Done (), a)"
      "run_must (Dup2 fd0 3) a = (Done (), b)" and b1: "run_set_socket_buffers 3 b = (Done (), s5)"
      and b2: "run_set_socket_buffers 4 s5 = (Done u, t)"
      by (auto simp: seq_Done HELPER_FD_def COMMAND_FD_def)
    obtain p q where p: "history b = history s3 @ [(Dup2 fd1 4, Some p), (Dup2 fd0 3, Some q)]" "0 \<le> rval p" "0 \<le> rval q"
      using d by (auto simp: run_must_Done)
    obtain g1 where g1: "history s5 = history b @ g1" "\<forall>t. run_fds t g1 = Some t" "\<forall>T t. execs_ok T t g1"
      using buffers_calls[OF b1] by force
    obtain g2 where g2: "history t = history s5 @ g2" "\<forall>t. run_fds t g2 = Some t" "\<forall>T t. execs_ok T t g2"
      using buffers_calls[OF b2] by force
    have "\<forall>t. run_fds t (g1 @ g2) = Some t" "\<forall>T t. execs_ok T t (g1 @ g2)"
      using g1 g2 by (simp_all add: run_fds_append execs_ok_append)
    then show ?thesis
      using h3 p g1(1) g2(1) R_fds
      by (intro exI[of _ x] exI[of _ y] exI[of _ fd0] exI[of _ fd1] exI[of _ p] exI[of _ q] exI[of _ "g1 @ g2"])
         (simp add: HELPER_FD_def COMMAND_FD_def)
  qed (use rest in simp_all)
qed

text \<open>What the calls do to any table.\<close>

lemma pair_table:
  assumes "run_fds t ([(Close 3, Some x), (Close 4, Some y), (Socketpair, Some (R_fds fd0 fd1)),
      (Dup2 fd1 4, Some a), (Dup2 fd0 3, Some b)] @ g) = Some u"
    and "0 \<le> rval a" and "0 \<le> rval b" and "\<forall>t. run_fds t g = Some t"
  shows "u 3 = Some Helper_end \<and> u 4 = Some Command_end"
    and "ends_at t {} {} \<Longrightarrow> ends_at u ({3} \<union> kept_helper t) ({4} \<union> kept_command t)"
proof -
  let ?t = "t(3 := None, 4 := None)"
  have l: "two_lowest ?t fd0 fd1"
  proof (rule ccontr)
    assume "\<not> two_lowest ?t fd0 fd1"
    then show False using assms(1) by simp
  qed
  note at = two_lowest_closed[OF l]
  have ne: "fd0 \<noteq> fd1" "fd0 \<noteq> 4" using l at(1) by (auto simp: two_lowest_def closed_standard_def split: if_splits)
  have u: "u = ?t(fd0 := Some Helper_end, fd1 := Some Command_end, 4 := Some Command_end, 3 := Some Helper_end)"
    using assms l ne by (simp add: run_fds_append)
  show "u 3 = Some Helper_end \<and> u 4 = Some Command_end" by (simp add: u)
  assume "ends_at t {} {}"
  then show "ends_at u ({3} \<union> kept_helper t) ({4} \<union> kept_command t)"
    using at unfolding u ends_at_def
    by (auto simp: closed_standard_def kept_helper_def kept_command_def split: if_splits)
qed

section \<open>Who holds which end\<close>

text \<open>A process whose table holds the ends at \<open>H\<close> and \<open>C\<close>, with every \<open>execvp\<close> so far right.\<close>

definition has_ends :: "fds \<Rightarrow> int set \<Rightarrow> int set \<Rightarrow> runner \<Rightarrow> bool" where
  "has_ends t H C s \<longleftrightarrow> execs_ok t t (history s) \<and>
     (\<forall>u. run_fds t (history s) = Some u \<longrightarrow> ends_at u H C)"

definition execs_right :: "fds \<Rightarrow> runner \<Rightarrow> bool" where
  "execs_right t s \<longleftrightarrow> execs_ok t t (history s)"

lemma has_execs: "has_ends t H C s \<Longrightarrow> execs_right t s"
  by (simp add: has_ends_def execs_right_def)

fun fd_call :: "rcall \<Rightarrow> bool" where
  "fd_call (Close n) = True"
| "fd_call Socketpair = True"
| "fd_call (Dup2 x y) = True"
| "fd_call (Exec_helper argv) = True"
| "fd_call (Exec_command argv) = True"
| "fd_call (Waitpid n) = True"
| "fd_call c = False"

lemma fd_other: "\<not> fd_call (fst e) \<Longrightarrow> fd_next t e = Some t \<and> exec_ok T t (fst e)"
  by (cases "(t, e)" rule: fd_next.cases) auto

lemma fd_others:
  "list_all (\<lambda>e. \<not> fd_call (fst e)) g \<Longrightarrow> run_fds t g = Some t \<and> execs_ok T t g"
  by (induction g) (auto dest: fd_other[of _ t T])

lemma has_ends_other:
  "calls_in (\<lambda>c. \<not> fd_call c) s s' \<Longrightarrow> has_ends t H C s \<Longrightarrow> has_ends t H C s'"
  unfolding calls_in_def has_ends_def
  by (elim exE conjE) (auto simp: run_fds_append execs_ok_append fd_others split: Option.bind_splits option.splits)

lemma other_triple:
  assumes "preserves (calls_in (\<lambda>c. \<not> fd_call c)) m"
  shows "triple (has_ends t H C) m (\<lambda>_. has_ends t H C) (execs_right t)"
  unfolding triple_def
proof (intro allI impI)
  fix s r s' assume h: "has_ends t H C s" and m: "m s = (r, s')"
  have "has_ends t H C s'" by (rule has_ends_other[OF preservesD[OF assms m] h])
  then show "case r of Done x \<Rightarrow> has_ends t H C s' | _ \<Rightarrow> execs_right t s'"
    by (cases r) (auto intro: has_execs)
qed

lemma close_triple:
  "triple (has_ends t H C) (sys (Close n)) (\<lambda>_. has_ends t (H - {n}) (C - {n})) (execs_right t)"
proof (rule triple_sys)
  fix s a as assume "has_ends t H C s"
  then show "has_ends t (H - {n}) (C - {n}) (s\<lparr>answers := as, history := history s @ [(Close n, Some a)]\<rparr>)"
    by (auto simp: has_ends_def run_fds_append execs_ok_append ends_at_def split: Option.bind_splits option.splits)
qed (rule has_execs)

text \<open>A failing \<open>execvp\<close>; one that returns anything else is not given by the kernel.\<close>

lemma exec_triple:
  assumes "\<And>u. ends_at u H C \<Longrightarrow> exec_ok t u c" and "c = Exec_helper argv \<or> c = Exec_command argv"
  shows "triple (has_ends t H C) (sys c)
    (\<lambda>a s. execs_right t s \<and> (0 \<le> rval a \<longrightarrow> run_fds t (history s) = None)) (execs_right t)"
proof (rule triple_sys)
  fix s a as assume h: "has_ends t H C s"
  let ?s = "s\<lparr>answers := as, history := history s @ [(c, Some a)]\<rparr>"
  have "execs_right t ?s"
    using h assms(1) by (auto simp: has_ends_def execs_right_def execs_ok_append split: option.splits)
  moreover have "0 \<le> rval a \<Longrightarrow> run_fds t (history ?s) = None"
    using assms(2) by (auto simp: run_fds_append split: Option.bind_splits)
  ultimately show "execs_right t ?s \<and> (0 \<le> rval a \<longrightarrow> run_fds t (history ?s) = None)" by blast
qed (rule has_execs)

lemma calls_run_must: "P c \<Longrightarrow> preserves (calls_in P) (run_must c)"
  unfolding run_must_def by (auto intro!: calls_order.pres_bind calls_sys calls_order.pres_exit calls_order.pres_ret)

lemma no_exec: "list_all (\<lambda>e. \<forall>T u. exec_ok T u (fst e)) g \<Longrightarrow> execs_ok T u g"
  by (induction g arbitrary: u) (auto split: option.split)

lemma no_exec_pair: "preserves (calls_in (\<lambda>c. \<forall>T u. exec_ok T u c)) create_socketpair"
  unfolding create_socketpair_def run_set_socket_buffers_def
  by (auto intro!: calls_order.pres_bind calls_order.pres_seq calls_order.pres_exit calls_order.pres_ret
      calls_order.pres_gets calls_sys calls_run_must split: rans.split)

text \<open>A process that has not touched its descriptors.\<close>

definition untouched :: "fds \<Rightarrow> runner \<Rightarrow> bool" where
  "untouched t s \<longleftrightarrow> execs_ok t t (history s) \<and> run_fds t (history s) = Some t"

lemma untouched_other:
  assumes "preserves (calls_in (\<lambda>c. \<not> fd_call c)) m"
  shows "triple (untouched t) m (\<lambda>_. untouched t) (execs_right t)"
  unfolding triple_def
proof (intro allI impI)
  fix s r s' assume h: "untouched t s" and m: "m s = (r, s')"
  have "calls_in (\<lambda>c. \<not> fd_call c) s s'" by (rule preservesD[OF assms m])
  with h have "untouched t s'"
    unfolding calls_in_def untouched_def
    by (elim exE conjE) (simp add: run_fds_append execs_ok_append fd_others)
  then show "case r of Done x \<Rightarrow> untouched t s' | _ \<Rightarrow> execs_right t s'"
    by (cases r) (auto simp: untouched_def execs_right_def)
qed

lemma pair_triple:
  assumes "ends_at t {} {}"
  shows "triple (untouched t) create_socketpair
    (\<lambda>_. has_ends t ({3} \<union> kept_helper t) ({4} \<union> kept_command t)) (execs_right t)"
  unfolding triple_def
proof (intro allI impI)
  fix s r s' assume u: "untouched t s" and run: "create_socketpair s = (r, s')"
  obtain g where g: "history s' = history s @ g" "list_all (\<lambda>e. \<forall>T u. exec_ok T u (fst e)) g"
    using preservesD[OF no_exec_pair run] by (auto simp: calls_in_def)
  have ok: "execs_ok t t (history s')"
    using u g no_exec by (simp add: untouched_def execs_ok_append)
  show "case r of Done x \<Rightarrow> has_ends t ({3} \<union> kept_helper t) ({4} \<union> kept_command t) s' | _ \<Rightarrow> execs_right t s'"
  proof (cases r)
    case (Done v)
    obtain x y fd0 fd1 a b k where h: "history s' = history s @ ([(Close 3, Some x), (Close 4, Some y),
        (Socketpair, Some (R_fds fd0 fd1)), (Dup2 fd1 4, Some a), (Dup2 fd0 3, Some b)] @ k)"
      and ab: "0 \<le> rval a" "0 \<le> rval b" "\<forall>t. run_fds t k = Some t"
      using create_socketpair_calls[OF run[unfolded Done]] by auto
    have "ends_at w ({3} \<union> kept_helper t) ({4} \<union> kept_command t)" if w: "run_fds t (history s') = Some w" for w
    proof -
      have "run_fds t ([(Close 3, Some x), (Close 4, Some y), (Socketpair, Some (R_fds fd0 fd1)),
          (Dup2 fd1 4, Some a), (Dup2 fd0 3, Some b)] @ k) = Some w"
        using w u unfolding h run_fds_append[of t "history s"] by (simp add: untouched_def)
      from pair_table(2)[OF this ab assms] show ?thesis .
    qed
    then show ?thesis using Done ok by (simp add: has_ends_def)
  qed (use ok in \<open>simp_all add: execs_right_def\<close>)
qed

lemma stuck_has_ends:
  "execs_right t s \<Longrightarrow> run_fds t (history s) = None \<Longrightarrow> has_ends t H C s"
  by (simp add: has_ends_def execs_right_def)

lemma child_triple:
  assumes "\<And>u. ends_at u (H - {n}) (C - {n}) \<Longrightarrow> \<forall>argv. exec_ok t u (ex argv)"
    and "\<And>argv. ex argv = Exec_helper argv \<or> ex argv = Exec_command argv"
  shows "triple (has_ends t H C)
    (bind (sys (Close n)) (\<lambda>_. bind (gets f) (\<lambda>argv. bind (sys (ex argv)) (\<lambda>b.
       if rval b < 0 then exit_with EXIT_FAILURE else ret ()))))
    (\<lambda>_. has_ends t H C) (execs_right t)"
proof (rule triple_bind[OF close_triple])
  let ?R = "has_ends t (H - {n}) (C - {n})"
  show "triple ?R (bind (gets f) (\<lambda>argv. bind (sys (ex argv)) (\<lambda>b.
      if rval b < 0 then exit_with EXIT_FAILURE else ret ()))) (\<lambda>_. has_ends t H C) (execs_right t)"
  proof (rule triple_bind[where R = "\<lambda>_. ?R"])
    show "triple ?R (gets f) (\<lambda>_. ?R) (execs_right t)" by (rule triple_gets)
    fix argv
    show "triple ?R (bind (sys (ex argv)) (\<lambda>b. if rval b < 0 then exit_with EXIT_FAILURE else ret ()))
        (\<lambda>_. has_ends t H C) (execs_right t)"
    proof (rule triple_bind[OF exec_triple])
      fix b
      show "triple (\<lambda>s. execs_right t s \<and> (0 \<le> rval b \<longrightarrow> run_fds t (history s) = None))
          (if rval b < 0 then exit_with EXIT_FAILURE else ret ()) (\<lambda>_. has_ends t H C) (execs_right t)"
        by (auto intro!: triple_exit triple_ret stuck_has_ends)
    qed (use assms in auto)
  qed
qed

lemmas other_intros = calls_order.pres_bind calls_order.pres_seq calls_order.pres_exit
  calls_order.pres_ret calls_order.pres_gets calls_order.pres_whenp calls_sys calls_emit calls_modify
  calls_run_must preserves_repeat[OF calls_order.step_order_axioms]

lemma fork_triple: "triple (has_ends t H C) (sys Fork) (\<lambda>_. has_ends t H C) (execs_right t)"
  by (rule other_triple) (simp add: calls_sys)

lemma set_pid_triple:
  assumes "\<And>s. history (f s) = history s"
  shows "triple (has_ends t H C) (modify f) (\<lambda>_. has_ends t H C) (execs_right t)"
  by (rule other_triple) (simp add: calls_modify assms)

lemma branch_triple:
  assumes "triple (has_ends t H C) child (\<lambda>_. has_ends t H C) (execs_right t)"
  shows "triple (has_ends t H C) (if b then exit_with EXIT_FAILURE else whenp c child)
    (\<lambda>_. has_ends t H C) (execs_right t)"
  using assms by (auto simp: whenp_def intro!: triple_exit triple_ret has_execs)

lemma last_close:
  "triple (has_ends t H C) (bind (sys (Close n)) (\<lambda>_. ret ())) (\<lambda>_. has_ends t (H - {n}) (C - {n})) (execs_right t)"
  by (rule triple_bind[OF close_triple]) (rule triple_ret)

text \<open>Closing 3 or 4 leaves the standard descriptors.\<close>

lemma kept_minus [simp]:
  "kept_helper t - {3} = kept_helper t" "kept_helper t - {4} = kept_helper t"
  "kept_command t - {3} = kept_command t" "kept_command t - {4} = kept_command t"
  using kept_range[of _ t] by fastforce+

lemma helper_triple:
  "triple (has_ends t ({3} \<union> kept_helper t) ({4} \<union> kept_command t)) start_helper
    (\<lambda>_. has_ends t (kept_helper t) ({4} \<union> kept_command t)) (execs_right t)"
proof -
  let ?H = "{3} \<union> kept_helper t" and ?C = "{4} \<union> kept_command t"
  have c: "triple (has_ends t ?H ?C) (bind (sys (Close 3)) (\<lambda>_. ret ())) (\<lambda>_. has_ends t (kept_helper t) ?C)
      (execs_right t)"
    using last_close[of t ?H ?C 3] by (simp add: insert_Diff_if)
  have x: "\<forall>argv. exec_ok t u (Exec_helper argv)" if "ends_at u (?H - {4}) (?C - {4})" for u
    using that by (simp add: HELPER_FD_def insert_Diff_if)
  show ?thesis
    unfolding start_helper_def unfolding HELPER_FD_def COMMAND_FD_def
    by (rule triple_bind[OF fork_triple], rule triple_seq[OF set_pid_triple], simp,
        rule triple_seq[OF branch_triple[OF child_triple[OF x]] c]) simp_all
qed

lemma command_triple:
  "triple (has_ends t (kept_helper t) ({4} \<union> kept_command t)) start_command
    (\<lambda>_. has_ends t (kept_helper t) (kept_command t)) (execs_right t)"
proof -
  let ?H = "kept_helper t" and ?C = "{4} \<union> kept_command t"
  have c: "triple (has_ends t ?H ?C) (bind (sys (Close 4)) (\<lambda>_. ret ())) (\<lambda>_. has_ends t ?H (kept_command t))
      (execs_right t)"
    using last_close[of t ?H ?C 4] by (simp add: insert_Diff_if)
  have x: "\<forall>argv. exec_ok t u (Exec_command argv)" if "ends_at u (?H - {3}) (?C - {3})" for u
    using that by (simp add: COMMAND_FD_def insert_Diff_if)
  show ?thesis
    unfolding start_command_def unfolding HELPER_FD_def COMMAND_FD_def
    by (rule triple_bind[OF fork_triple], rule triple_seq[OF set_pid_triple], simp,
        rule triple_seq[OF branch_triple[OF child_triple[OF x]] c]) simp_all
qed

lemma other_parts:
  "preserves (calls_in (\<lambda>c. \<not> fd_call c)) setup_signals"
  "preserves (calls_in (\<lambda>c. \<not> fd_call c)) become_process_group_leader"
  "preserves (calls_in (\<lambda>c. \<not> fd_call c)) defer_terminate_process_group"
  "preserves (calls_in (\<lambda>c. \<not> fd_call c)) terminate_process_group"
  unfolding setup_signals_def become_process_group_leader_def defer_terminate_process_group_def
    terminate_process_group_def wait_round_def
  by (auto intro!: other_intros)

lemma waits_only: "preserves (calls_in (\<lambda>c. \<exists>n. c = Waitpid n)) wait_for_command"
  unfolding wait_for_command_def command_round_def decode_status_def
  by (auto intro!: other_intros split: rans.split option.split)

lemma waits_without_ends:
  "list_all (\<lambda>e. \<exists>n. fst e = Waitpid n) g \<Longrightarrow> ends_at u (kept_helper T) (kept_command T) \<Longrightarrow>
    run_fds u g = Some u \<and> execs_ok T u g"
  by (induction g) auto

lemma wait_triple:
  "triple (has_ends t (kept_helper t) (kept_command t)) wait_for_command
    (\<lambda>_. has_ends t (kept_helper t) (kept_command t)) (execs_right t)"
  unfolding triple_def
proof (intro allI impI)
  fix s r s' assume h: "has_ends t (kept_helper t) (kept_command t) s" and m: "wait_for_command s = (r, s')"
  obtain g where g: "history s' = history s @ g" "list_all (\<lambda>e. \<exists>n. fst e = Waitpid n) g"
    using preservesD[OF waits_only m] by (auto simp: calls_in_def)
  have "has_ends t (kept_helper t) (kept_command t) s'"
    using h waits_without_ends[OF g(2)]
    by (auto simp: has_ends_def g(1) run_fds_append execs_ok_append split: Option.bind_splits option.splits)
  then show "case r of Done x \<Rightarrow> has_ends t (kept_helper t) (kept_command t) s' | _ \<Rightarrow> execs_right t s'"
    by (cases r) (auto intro: has_execs)
qed

lemma body_ends:
  assumes "ends_at t {} {}"
  shows "triple (untouched t) run_body (\<lambda>_. execs_right t) (execs_right t)"
proof -
  have last: "triple (has_ends t (kept_helper t) (kept_command t)) (bind wait_for_command exit_with) (\<lambda>_. execs_right t) (execs_right t)"
    by (rule triple_bind[OF wait_triple]) (auto intro!: triple_exit has_execs)
  show ?thesis
    unfolding run_body_def
    by (rule triple_seq[OF untouched_other[OF other_parts(1)]] triple_seq[OF untouched_other[OF other_parts(2)]]
      triple_seq[OF untouched_other[OF other_parts(3)]] triple_seq[OF pair_triple[OF assms]]
      triple_seq[OF helper_triple] triple_seq[OF command_triple] last)+
qed

lemma execs_right_other:
  assumes "preserves (calls_in (\<lambda>c. \<not> fd_call c)) m" and "execs_right t s" and "m s = (r, s')"
  shows "execs_right t s'"
  using preservesD[OF assms(1,3)] assms(2) unfolding calls_in_def execs_right_def
  by (elim exE conjE) (simp add: execs_ok_append fd_others split: option.split)

lemma run_finish_right:
  assumes "execs_right t (snd (run_body s))" and "run_finish run_body s = (r, s')"
  shows "execs_right t s'"
proof (cases "\<exists>c. fst (run_body s) = Exited c")
  case True
  then obtain c u where b: "run_body s = (Exited c, u)" by (metis prod.collapse)
  have "preserves (calls_in (\<lambda>c. \<not> fd_call c))
      (seq (bind (gets rn_atexit) (\<lambda>b. whenp b terminate_process_group)) (exit_with c) :: (runner, unit) prog)"
    by (intro other_intros other_parts)
  then show ?thesis
    by (rule execs_right_other) (use assms b in \<open>simp_all add: run_finish_def\<close>)
next
  case False
  then have "snd (run_body s) = s'"
    using assms(2) by (cases "run_body s"; cases "fst (run_body s)") (auto simp: run_finish_def)
  then show ?thesis using assms(1) by simp
qed

section \<open>Properties\<close>

text \<open>
  Whatever descriptors vmnet-run was started with, a socket pair that was created without an
  error ends up with the helper's end on descriptor 3 and the command's on descriptor 4, also when
  \<open>socketpair\<close> itself returned one of them.
\<close>

theorem socketpair_in_place:
  assumes "create_socketpair s = (Done u, s')" and "run_fds t (history s) = Some v"
    and "run_fds t (history s') = Some w"
  shows "w HELPER_FD = Some Helper_end \<and> w COMMAND_FD = Some Command_end"
proof -
  obtain x y fd0 fd1 a b g where h: "history s' = history s @ ([(Close 3, Some x), (Close 4, Some y),
      (Socketpair, Some (R_fds fd0 fd1)), (Dup2 fd1 4, Some a), (Dup2 fd0 3, Some b)] @ g)"
    and ab: "0 \<le> rval a" "0 \<le> rval b" "\<forall>t. run_fds t g = Some t"
    using create_socketpair_calls[OF assms(1)] by auto
  have "run_fds v ([(Close 3, Some x), (Close 4, Some y), (Socketpair, Some (R_fds fd0 fd1)),
      (Dup2 fd1 4, Some a), (Dup2 fd0 3, Some b)] @ g) = Some w"
    using assms(2,3) unfolding h run_fds_append[of t "history s"] by simp
  from pair_table(1)[OF this ab] show ?thesis by (simp add: HELPER_FD_def COMMAND_FD_def)
qed

text \<open>A process started with descriptor 0 closed: the pair is 0 and 3.\<close>

definition sample_pair :: runner where
  "sample_pair = \<lparr>answers = [R_fail (E_other 9), R_fail (E_other 9), R_fds 0 3, R_int 4, R_int 3,
     R_int 0, R_int 0, R_int 0, R_int 0], history = [], rn_tso = False, rn_helper_argv = [],
     rn_command = [], rn_helper_pid = -1, rn_command_pid = -1, rn_atexit = True\<rparr>"

definition sample_fds :: fds where
  "sample_fds = (\<lambda>n. if n = 1 \<or> n = 2 then Some Other_file else None)"

theorem socketpair_in_place_witness:
  "\<exists>s' w. create_socketpair sample_pair = (Done (), s') \<and> run_fds sample_fds (history s') = Some w \<and>
     w 3 = Some Helper_end \<and> w 4 = Some Command_end"
proof -
  let ?r = "create_socketpair sample_pair"
  have x: "fst ?r = Done ()" by code_simp
  then have r: "?r = (Done (), snd ?r)" by (simp add: prod_eq_iff)
  have "two_lowest (sample_fds(3 := None, 4 := None)) 0 3"
    by (auto simp: two_lowest_def sample_fds_def)
  then obtain w where w: "run_fds sample_fds (history (snd ?r)) = Some w"
    by (simp add: create_socketpair_def run_must_def run_set_socket_buffers_def sample_pair_def bind_def
        seq_def sys_def gets_def ret_def HELPER_FD_def COMMAND_FD_def)
  have "w 3 = Some Helper_end \<and> w 4 = Some Command_end"
    using socketpair_in_place[OF r, of sample_fds sample_fds w] w
    by (simp add: sample_pair_def HELPER_FD_def COMMAND_FD_def)
  with r w show ?thesis by blast
qed

text \<open>
  C6: vmnet-helper is executed with its end of the pair on descriptor 3 and no descriptor of the
  command's end, the command with its end on descriptor 4 and no descriptor of the helper's end,
  and vmnet-run waits with neither, so each child is told when the other one is gone: exactly so
  when the standard descriptors are open.  When some are closed, the lowest of them keeps the
  helper's end in all three processes, and the next one the command's end.
\<close>

theorem each_end_one_child:
  assumes "run_main e sysctl argv0 args as = (r, t)" and "ends_at tab {} {}"
  shows "execs_ok tab tab (history t)"
proof -
  have start: "untouched tab (runner_start as c argv)" for c argv
    by (simp add: untouched_def runner_start_def)
  have none: "execs_ok tab tab (history (runner_start as c argv))" for c argv
    by (simp add: runner_start_def)
  have body: "execs_ok tab tab (history t)" if "run_finish run_body (runner_start as c argv) = (r, t)" for c argv
  proof -
    have "execs_right tab (snd (run_body (runner_start as c argv)))"
      using body_ends[OF assms(2)] start[of c argv] unfolding triple_def
      by (cases "run_body (runner_start as c argv)"; cases "fst (run_body (runner_start as c argv))") fastforce+
    from run_finish_right[OF this that] show ?thesis by (simp add: execs_right_def)
  qed
  from assms(1) show ?thesis
    unfolding run_main_def by (auto split: prod.splits outcome.splits dest!: body simp: none)
qed

definition standard_table :: fds where
  "standard_table = (\<lambda>n. if n \<in> {0, 1, 2} then Some Other_file else None)"

text \<open>The run of the command's child, whose \<open>execvp\<close> fails: the second \<open>fork\<close> answers 0.\<close>

definition sample_child_answers :: "rans list" where
  "sample_child_answers = [R_int 0, R_int 0, R_int 0, R_int 0, R_int 0, R_fail (E_other 9), R_fail (E_other 9),
     R_fds 3 4, R_int 4, R_int 3, R_int 0, R_int 0, R_int 0, R_int 0, R_int 101, R_int 0, R_int 0, R_fail (E_other 9),
     R_fail ENOENT, R_int 0, R_fail (E_other 10)]"

theorem each_end_one_child_witness:
  "\<exists>t. run_main sample_env (Inr ''26.1'') ''/opt/bin/vmnet-run'' sample_run_args sample_child_answers = (Exited 1, t) \<and>
     kept_helper standard_table = {} \<and> kept_command standard_table = {} \<and>
     execs_ok standard_table standard_table (history t) \<and>
     (\<exists>u argv. run_fds standard_table (take 18 (history t)) = Some u \<and>
        drop 18 (history t) = (Exec_command argv, Some (R_fail ENOENT)) # drop 19 (history t) \<and> ends_at u {} {4})"
proof -
  let ?r = "run_main sample_env (Inr ''26.1'') ''/opt/bin/vmnet-run'' sample_run_args sample_child_answers"
  have "fst ?r = Exited 1" by code_simp
  then have r: "?r = (Exited 1, snd ?r)" by (simp add: prod_eq_iff)
  have std: "ends_at standard_table {} {}" by (simp add: standard_table_def ends_at_def)
  have kept: "kept_helper standard_table = {}" "kept_command standard_table = {}"
    by (simp_all add: kept_helper_def kept_command_def closed_standard_def standard_table_def)
  have h: "take 18 (history (snd ?r)) = [(Sigaction 15, Some (R_int 0)), (Sigaction 2, Some (R_int 0)),
    (Is_group_leader, Some (R_int 0)), (Setpgid, Some (R_int 0)), (Atexit_terminate, Some (R_int 0)),
    (Close 3, Some (R_fail (E_other 9))), (Close 4, Some (R_fail (E_other 9))), (Socketpair, Some (R_fds 3 4)),
    (Dup2 4 4, Some (R_int 4)), (Dup2 3 3, Some (R_int 3)), (Set_sndbuf 3 66560, Some (R_int 0)),
    (Set_rcvbuf 3 4194304, Some (R_int 0)), (Set_sndbuf 4 66560, Some (R_int 0)),
    (Set_rcvbuf 4 4194304, Some (R_int 0)), (Fork, Some (R_int 101)), (Close 3, Some (R_int 0)),
    (Fork, Some (R_int 0)), (Close 3, Some (R_fail (E_other 9)))]" (is "_ = ?h") by code_simp
  have d: "drop 18 (history (snd ?r)) = (Exec_command (rn_command (snd ?r)), Some (R_fail ENOENT)) # drop 19 (history (snd ?r))"
    by code_simp
  have "two_lowest (standard_table(3 := None, 4 := None)) 3 4"
    by (auto simp: two_lowest_def standard_table_def)
  then have "\<exists>u. run_fds standard_table ?h = Some u \<and> ends_at u {} {4}"
    by (simp add: ends_at_def standard_table_def)
  with h d r kept each_end_one_child[OF r std] show ?thesis by auto
qed

text \<open>
  With descriptor 0 closed, the command is executed with the helper's end on its descriptor 0.
\<close>

definition leaking_answers :: "rans list" where
  "leaking_answers = [R_int 0, R_int 0, R_int 0, R_int 0, R_int 0, R_fail (E_other 9), R_fail (E_other 9),
     R_fds 0 3, R_int 4, R_int 3, R_int 0, R_int 0, R_int 0, R_int 0, R_int 101, R_int 0, R_int 0, R_fail (E_other 9),
     R_fail ENOENT, R_int 0, R_fail (E_other 10)]"

lemma helper_end_leaks:
  "\<exists>r t u argv. run_main sample_env (Inr ''26.1'') ''/opt/bin/vmnet-run'' sample_run_args leaking_answers = (r, t) \<and>
     history t ! 18 = (Exec_command argv, Some (R_fail ENOENT)) \<and>
     run_fds sample_fds (take 18 (history t)) = Some u \<and> u 0 = Some Helper_end"
proof -
  let ?r = "run_main sample_env (Inr ''26.1'') ''/opt/bin/vmnet-run'' sample_run_args leaking_answers"
  have h: "take 18 (history (snd ?r)) = [(Sigaction 15, Some (R_int 0)), (Sigaction 2, Some (R_int 0)),
    (Is_group_leader, Some (R_int 0)), (Setpgid, Some (R_int 0)), (Atexit_terminate, Some (R_int 0)),
    (Close 3, Some (R_fail (E_other 9))), (Close 4, Some (R_fail (E_other 9))), (Socketpair, Some (R_fds 0 3)),
    (Dup2 3 4, Some (R_int 4)), (Dup2 0 3, Some (R_int 3)), (Set_sndbuf 3 66560, Some (R_int 0)),
    (Set_rcvbuf 3 4194304, Some (R_int 0)), (Set_sndbuf 4 66560, Some (R_int 0)),
    (Set_rcvbuf 4 4194304, Some (R_int 0)), (Fork, Some (R_int 101)), (Close 3, Some (R_int 0)),
    (Fork, Some (R_int 0)), (Close 3, Some (R_fail (E_other 9)))]" (is "_ = ?h") by code_simp
  have d: "history (snd ?r) ! 18 = (Exec_command (rn_command (snd ?r)), Some (R_fail ENOENT))" by code_simp
  have "two_lowest (sample_fds(3 := None, 4 := None)) 0 3"
    by (auto simp: two_lowest_def sample_fds_def)
  then have "\<exists>u. run_fds sample_fds ?h = Some u \<and> u 0 = Some Helper_end"
    by (simp add: sample_fds_def)
  with h d show ?thesis by (metis prod.collapse)
qed

end
