(* ===== verification/Data_Path.thy ===== *)
theory Data_Path
  imports Host_Forward Vm_Forward
begin

text \<open>
  The bytes of the packets, in both directions (\<open>programs/helper.c\<close>): what a read leaves in the buffers,
  what a write takes from them, and so what reaches the VM and the network.  Buffer \<open>k\<close> is the memory of
  iov \<open>k\<close>.
\<close>

section \<open>The buffers\<close>

type_synonym bytes = "8 word list"

type_synonym memory = "nat \<Rightarrow> bytes"

text \<open>A datagram overwrites the start of a buffer.\<close>

definition put :: "bytes \<Rightarrow> bytes \<Rightarrow> bytes" where
  "put d b = d @ drop (length d) b"

text \<open>A read of the datagrams \<open>ds\<close>: datagram \<open>j\<close> goes to the iov of entry \<open>j\<close>.\<close>

definition fill :: "(nat \<Rightarrow> nat) \<Rightarrow> bytes list \<Rightarrow> memory \<Rightarrow> memory" where
  "fill iov_of ds m = fold (\<lambda>j m. m(iov_of j := put (ds ! j) (m (iov_of j)))) [0..<length ds] m"

lemma fill_own:
  assumes "\<And>j. j < length ds \<Longrightarrow> iov_of j = j"
  shows "fill iov_of ds m k = (if k < length ds then put (ds ! k) (m k) else m k)"
proof -
  have "fold (\<lambda>j m. m(iov_of j := put (ds ! j) (m (iov_of j)))) [0..<n] m k =
      (if k < n then put (ds ! k) (m k) else m k)" if "n \<le> length ds" for n
    using that
  proof (induction n)
    case (Suc n)
    then show ?case using assms[of n] by (auto simp: less_Suc_eq)
  qed simp
  then show ?thesis unfolding fill_def by blast
qed

lemma take_put [simp]: "take (length d) (put d b) = d"
  by (simp add: put_def)

text \<open>Picking entries of a list in increasing order.\<close>

lemma picked_subseq:
  assumes "sorted_wrt (<) js" and "set js \<subseteq> {..<length ds}"
  shows "subseq (map ((!) ds) js) ds"
proof -
  have "filter (\<lambda>i. i \<in> set js) [0..<length ds] = js"
    using assms by (intro sorted_distinct_set_unique) (auto simp: strict_sorted_iff sorted_wrt_filter)
  then have "subseq js [0..<length ds]" by (metis subseq_filter_left)
  then have "subseq (map ((!) ds) js) (map ((!) ds) [0..<length ds])" by (rule subseq_map)
  then show ?thesis by (simp add: map_nth)
qed

section \<open>From the network to the VM\<close>

text \<open>
  The bytes a call put on the socket: \<open>sendmsg_x\<close> sends the iov of each message, \<open>write\<close> as many bytes
  as it was told.
\<close>

fun sent_bytes :: "endpoint \<Rightarrow> memory \<Rightarrow> vm_call \<times> sysret option \<Rightarrow> bytes list" where
  "sent_bytes host m (Sendmsg_x first cnt, Some (Ret n)) =
     map (\<lambda>j. let k = msg_iov (msgs host ! j) in take (unat (iov_len (iovs host ! k))) (m k))
       [nat first ..< nat (first + n)]"
| "sent_bytes host m (Write k sz, Some (Ret n)) = [take (unat sz) (m k)]"
| "sent_bytes host m _ = []"

definition wire :: "endpoint \<Rightarrow> memory \<Rightarrow> batch \<Rightarrow> bytes list" where
  "wire host m b = concat (map (sent_bytes host m) (b_calls b))"

text \<open>What \<open>vmnet_read\<close> answers when it read the datagrams \<open>ds\<close>.\<close>

definition reads_bytes :: "64 word \<Rightarrow> host_read \<Rightarrow> bytes list \<Rightarrow> bool" where
  "reads_bytes mps r ds \<longleftrightarrow> hr_count r = int (length ds) \<and>
     hr_sizes r = map (\<lambda>d. of_nat (length d)) ds \<and> hr_lens r = map (\<lambda>d. of_nat (length d)) ds \<and>
     list_all (\<lambda>d. length d \<le> unat mps) ds"

definition answers_bytes :: "64 word \<Rightarrow> host_read \<Rightarrow> bytes list \<Rightarrow> bool" where
  "answers_bytes mps r ds \<longleftrightarrow> (hr_status r = VMNET_SUCCESS \<longrightarrow> reads_bytes mps r ds)"

text \<open>A \<open>write\<close> is given the size of the packet whose buffer it is given.\<close>

fun sized :: "endpoint \<Rightarrow> nat \<Rightarrow> vm_call \<times> sysret option \<Rightarrow> bool" where
  "sized host n (Write k sz, a) \<longleftrightarrow>
     (\<exists>i < n. k = vm_pkt_iov (packets host ! i) \<and> sz = vm_pkt_size (packets host ! i))"
| "sized host n _ \<longleftrightarrow> True"

lemma fast_path_sized:
  "fast_path host count b rs = (res, b', rs') \<Longrightarrow> list_all (sized h n) (b_calls b) \<Longrightarrow>
   list_all (sized h n) (b_calls b')"
  by (induction host count b rs rule: fast_path.induct)
     (auto simp: Let_def split: sysret.splits if_splits)

lemma write_packet_sized:
  assumes "write_packet k sz b rs = (res, b', rs')" and "list_all (sized h n) (b_calls b)"
    and "sized h n (Write k sz, None)"
  shows "list_all (sized h n) (b_calls b')"
  using assms
  by (induction k sz b rs rule: write_packet.induct) (auto simp: Let_def split: if_splits)

lemma slow_path_sized:
  assumes "slow_path host is b rs = (res, b', rs')" and "set is \<subseteq> {..<n}"
    and "list_all (sized host n) (b_calls b)"
  shows "list_all (sized host n) (b_calls b')"
  using assms
proof (induction host "is" b rs rule: slow_path.induct)
  case (2 host i "is" b rs)
  obtain o1 b1 rs1 where w: "write_packet (vm_pkt_iov (packets host ! i))
      (vm_pkt_size (packets host ! i)) b rs = (o1, b1, rs1)"
    by (metis prod_cases3)
  have 1: "list_all (sized host n) (b_calls b1)"
    by (rule write_packet_sized[OF w 2(6)]) (use 2(5) in auto)
  then show ?case
    using 2 w by (cases o1) (auto simp: Let_def split: sysret.splits if_splits)
qed simp

lemma write_to_vm_sized:
  assumes "write_to_vm bulk count host rs = (res, host', b, rs')"
  shows "list_all (sized host (nat count)) (b_calls b)"
proof -
  let ?h = "copy_lengths count host"
  have s: "sized ?h n c = sized host n c" for n c
    by (cases "(?h, n, c)" rule: sized.cases) simp_all
  obtain o1 b1 rs1 where f: "(if bulk then fast_path ?h count batch_start rs else (Done False, batch_start, rs)) = (o1, b1, rs1)"
    by (metis prod_cases3)
  have 1: "list_all (sized ?h (nat count)) (b_calls b1)"
    using f by (auto simp: batch_start_def split: if_splits dest: fast_path_sized)
  have "list_all (sized ?h (nat count)) (b_calls b)"
    using assms f 1
    by (cases o1) (auto simp: write_to_vm_def send_batch_def Let_def split: prod.splits if_splits
        dest: slow_path_sized[where n = "nat count"])
  then show ?thesis unfolding list_all_iff s .
qed

text \<open>The endpoint and the buffers after a read of \<open>ds\<close>.\<close>

lemma read_sizes:
  assumes "read_from_host mps r host = (count, host1)" and "reads_bytes mps r ds"
    and "bound_to mps host" and "int (length ds) \<le> max_packet_count host" and "k < length ds"
  shows "vm_pkt_size (packets host1 ! k) = of_nat (length (ds ! k))"
    and "iov_len (iovs host1 ! k) = of_nat (length (ds ! k))"
proof -
  have h: "host1 = fill_sizes r (reset_host mps host)"
    using assms(1) by (simp add: read_from_host_def Let_def split: if_splits)
  have l: "k < length (packets host)" "k < length (iovs host)"
    using assms(3-5) by (auto simp: bound_to_def)
  have r: "hr_sizes r ! k = of_nat (length (ds ! k))" "hr_lens r ! k = of_nat (length (ds ! k))"
    "length (hr_sizes r) = length ds" "length (hr_lens r) = length ds"
    using assms(2,5) by (simp_all add: reads_bytes_def)
  show "vm_pkt_size (packets host1 ! k) = of_nat (length (ds ! k))"
    "iov_len (iovs host1 ! k) = of_nat (length (ds ! k))"
    unfolding h fill_sizes_def reset_host_def reset_iovs_def Let_def using l r assms(5) by simp_all
qed

lemma short_length:
  fixes mps :: "64 word"
  shows "length (d :: bytes) \<le> unat mps \<Longrightarrow> unat (of_nat (length d) :: 64 word) = length d"
  by (metis le_unat_uoi)

text \<open>The packets delivered are those the account of the batch names, with their own bytes.\<close>

lemma wire_delivered:
  assumes "read_from_host mps r host = (count, host1)" and "reads_bytes mps r ds" and "bound_to mps host"
    and "int (length ds) \<le> max_packet_count host"
    and "list_all (sized host1 (length ds)) cs" and "set (delivered host1 cs) \<subseteq> {..<length ds}"
  shows "concat (map (sent_bytes host1 (fill (\<lambda>j. vm_pkt_iov (packets host1 ! j)) ds m)) cs) =
    map ((!) ds) (delivered host1 cs)"
  using assms(5,6)
proof (induction cs)
  case (Cons c cs)
  let ?m = "fill (\<lambda>j. vm_pkt_iov (packets host1 ! j)) ds m"
  have own: "own_iovs (int (length ds)) host1"
    using read_from_host_keeps[OF assms(1)] assms(3,4) by (intro bound_own_iovs) auto
  then have m: "?m k = put (ds ! k) (m k)" if "k < length ds" for k
    using that by (subst fill_own) (simp_all add: own_iovs_def)
  have len: "length (ds ! k) \<le> unat mps" if "k < length ds" for k
    using assms(2) that by (simp add: reads_bytes_def list_all_length)
  note sz = read_sizes[OF assms(1-4)]
  have "sent_bytes host1 ?m c = map ((!) ds) (sent_by host1 c)"
  proof (cases c)
    case (Pair x a)
    show ?thesis
    proof (cases "\<exists>n. a = Some (Ret n)")
      case True
      then obtain n where a: "a = Some (Ret n)" by blast
      show ?thesis
      proof (cases x)
        case (Sendmsg_x first cnt)
        have "\<forall>j \<in> set [nat first..<nat (first + n)]. msg_iov (msgs host1 ! j) < length ds"
          using Cons.prems(2) unfolding Pair a Sendmsg_x by auto
        then show ?thesis unfolding Pair a Sendmsg_x
          by (auto simp: Let_def m sz short_length[OF len])
      next
        case (Write k s)
        obtain i where "i < length ds" "k = vm_pkt_iov (packets host1 ! i)" "s = vm_pkt_size (packets host1 ! i)"
          using Cons.prems(1) unfolding Pair Write by auto
        then have "k < length ds" "s = of_nat (length (ds ! k))"
          using own sz(1)[of i] by (simp_all add: own_iovs_def)
        then show ?thesis unfolding Pair a Write by (simp add: m short_length[OF len])
      qed (simp add: Pair a)
    next
      case False
      then show ?thesis unfolding Pair by (cases "(host1, x, a)" rule: sent_by.cases) auto
    qed
  qed
  then show ?case using Cons by simp
qed simp

text \<open>A batch: the datagrams that reached the socket are some of those read, in their order.\<close>

lemma batch_bytes:
  assumes "read_from_host mps r host = (count, host1)" and "reads_bytes mps r ds" and "bound_to mps host"
    and "int (length ds) \<le> max_packet_count host"
    and "write_to_vm bulk (hr_count r) host1 rs = (Done (), host2, b, rs')" and "list_all call_ok (b_calls b)"
  shows "let out = wire host1 (fill (\<lambda>j. vm_pkt_iov (packets host1 ! j)) ds m) b in
    subseq out ds \<and> (only_shortages b \<longrightarrow> out = ds) \<and>
    st_packets (stats host2) = st_packets (stats host1) + of_nat (length out) \<and>
    st_bytes (stats host2) = st_bytes (stats host1) + of_nat (sum_list (map length out))"
proof -
  have c: "hr_count r = int (length ds)" using assms(2) by (simp add: reads_bytes_def)
  have own: "own_iovs (int (length ds)) host1"
    using read_from_host_keeps[OF assms(1)] assms(3,4) by (intro bound_own_iovs) auto
  let ?js = "delivered host1 (b_calls b)"
  have run: "send_batch bulk (int (length ds)) (copy_lengths (int (length ds)) host1) rs = (Done (), b, rs')"
    and h2: "host2 = add_stats b (copy_lengths (int (length ds)) host1)"
    using assms(5) by (auto simp: c write_to_vm_def Let_def split: prod.splits)
  have t: "tally (copy_lengths (int (length ds)) host1) (length ds) b"
    "b_bytes b = bytes_of host1 ?js"
    using send_batch_account[OF run] own assms(6) by simp_all
  then have js: "sorted_wrt (<) ?js" "set ?js \<subseteq> {..<length ds}" "b_packets b = int (length ?js)"
    by (auto simp: tally_def list_all_iff)
  have all: "?js = [0..<length ds]" if "only_shortages b"
    using send_batch_complete[OF run _ _ assms(6) that] own by simp
  have w: "wire host1 (fill (\<lambda>j. vm_pkt_iov (packets host1 ! j)) ds m) b = map ((!) ds) ?js"
    unfolding wire_def
    using wire_delivered[OF assms(1-4) _ js(2)] write_to_vm_sized[OF assms(5)] by (simp add: c)
  have "bytes_of host1 js = of_nat (sum_list (map length (map ((!) ds) js)))" if "set js \<subseteq> {..<length ds}" for js
    using that by (induction js) (auto simp: bytes_of_def read_sizes(1)[OF assms(1-4)])
  then have "st_bytes (stats host2) = st_bytes (stats host1) + of_nat (sum_list (map length (map ((!) ds) ?js)))"
    using js(2) t(2) by (simp add: h2 add_stats_def Let_def)
  moreover have "st_packets (stats host2) = st_packets (stats host1) + of_nat (length (map ((!) ds) ?js))"
    using js(3) by (simp add: h2 add_stats_def Let_def)
  ultimately show ?thesis
    unfolding Let_def w using picked_subseq[OF js(1,2)] all by (auto simp: map_nth)
qed

text \<open>
  The bytes of a whole run of the event callback: \<open>dss\<close> are the datagrams of each read.  The sends of a
  batch work on the endpoint and the buffers the read left.
\<close>

fun callback_wire ::
  "bool \<Rightarrow> 64 word \<Rightarrow> host_read list \<Rightarrow> bytes list list \<Rightarrow> endpoint \<Rightarrow> memory \<Rightarrow> sysret list \<Rightarrow> bytes list" where
  "callback_wire bulk mps (r # reads) (ds # dss) host m rs =
     (let (count, host) = read_from_host mps r host; m = fill (\<lambda>j. vm_pkt_iov (packets host ! j)) ds m
      in if count < 1 then []
         else (case write_to_vm bulk count host rs of
                 (Done _, host2, b, rs) \<Rightarrow> wire host m b @ callback_wire bulk mps reads dss host2 m rs
               | (_, host2, b, rs) \<Rightarrow> wire host m b))"
| "callback_wire bulk mps _ _ host m rs = []"

lemma write_to_vm_bound:
  assumes "write_to_vm bulk count host1 rs = (res, host2, b, rs')" and "read_from_host mps r host = (c, host1)"
    and "bound_to mps host"
  shows "bound_to mps host2 \<and> max_packet_count host2 = max_packet_count host"
  using write_to_vm_keeps[OF assms(1)] read_from_host_keeps[OF assms(2)] assms(3) by simp

text \<open>
  C2: From the network to the VM, in bytes: of the datagrams vmnet gives to one run of the event callback,
  what the kernel accepts on the VM's socket is a subsequence, each datagram unchanged, none twice, in
  the order read, whatever the buffers held before; the statistics grow by exactly these datagrams
  and their bytes; and when the only failures are short buffer shortages it is all of them.
\<close>

theorem host_bytes_in_order:
  assumes "packets_available bulk mps reads host rs = (Done (), host', bs, rs')"
    and "bound_to mps host" and "list_all2 (answers_bytes mps) reads dss"
    and "list_all (\<lambda>ds. int (length ds) \<le> max_packet_count host) dss"
    and "list_all (\<lambda>b. list_all call_ok (b_calls b)) bs"
  shows "let out = callback_wire bulk mps reads dss host m rs; given = concat (take (length bs) dss) in
    subseq out given \<and> (list_all only_shortages bs \<longrightarrow> out = given) \<and>
    st_packets (stats host') = st_packets (stats host) + of_nat (length out) \<and>
    st_bytes (stats host') = st_bytes (stats host) + of_nat (sum_list (map length out))"
  using assms
proof (induction reads arbitrary: host rs bs dss m)
  case (Cons r reads)
  obtain ds dss' where dss: "dss = ds # dss'" "answers_bytes mps r ds" "list_all2 (answers_bytes mps) reads dss'"
    using Cons.prems(3) by (auto simp: list_all2_Cons1)
  show ?case
    using Cons.prems(1)
  proof (cases rule: packets_available_step)
    case stop
    obtain c host1 where rd: "read_from_host mps r host = (c, host1)" by fastforce
    then have "c < 1" "host' = host1" "stats host1 = stats host"
      using stop read_from_host_keeps[OF rd] by (auto simp: reads_packets_def)
    then show ?thesis using rd stop by (simp add: dss(1) Let_def)
  next
    case (batch host1 host2 b bs2 rs2)
    let ?m = "fill (\<lambda>j. vm_pkt_iov (packets host1 ! j)) ds m"
    let ?out = "callback_wire bulk mps reads dss' host2 ?m rs2"
    have len: "int (length ds) \<le> max_packet_count host" using Cons.prems(4) dss(1) by simp
    have ok: "list_all call_ok (b_calls b)" using Cons.prems(5) batch(5) by simp
    have rb: "reads_bytes mps r ds" using dss(2) batch(1) by (simp add: answers_bytes_def reads_packets_def)
    note b = batch_bytes[OF batch(2) rb Cons.prems(2) len batch(3) ok, of m, unfolded Let_def]
    note k = write_to_vm_bound[OF batch(3,2) Cons.prems(2)]
    have "list_all (\<lambda>ds. int (length ds) \<le> max_packet_count host2) dss'"
      using Cons.prems(4) dss(1) k by simp
    moreover have "list_all (\<lambda>b. list_all call_ok (b_calls b)) bs2" using Cons.prems(5) batch(5) by simp
    ultimately have ih: "let given = concat (take (length bs2) dss') in
        subseq ?out given \<and> (list_all only_shortages bs2 \<longrightarrow> ?out = given) \<and>
        st_packets (stats host') = st_packets (stats host2) + of_nat (length ?out) \<and>
        st_bytes (stats host') = st_bytes (stats host2) + of_nat (sum_list (map length ?out))"
      using Cons.IH[OF batch(4) _ dss(3), of ?m] k by (simp add: Let_def)
    have out: "callback_wire bulk mps (r # reads) (ds # dss') host m rs = wire host1 ?m b @ ?out"
      using batch(1-3) by (simp add: Let_def reads_packets_def)
    have "stats host1 = stats host" by (rule read_from_host_keeps(2)[OF batch(2)])
    then show ?thesis
      unfolding Let_def dss(1) out batch(5) using b ih[unfolded Let_def]
      by (auto simp del: callback_wire.simps intro: list_emb_append_mono)
  qed
qed simp

text \<open>A packet of 60 bytes and one of 70, of which the second is dropped; then nothing to read.\<close>

definition sample_datagrams :: "bytes list list" where
  "sample_datagrams = [[replicate 60 1, replicate 70 2], []]"

theorem host_bytes_in_order_witness:
  "\<exists>host' bs out. packets_available True 65536 sample_reads bound_host
       [Fail EINVAL, Ret 60, Fail EINVAL] = (Done (), host', bs, []) \<and>
     subseq out (concat (take (length bs) sample_datagrams)) \<and>
     st_packets (stats host') = of_nat (length out) \<and> st_packets (stats host') = 1"
proof -
  let ?run = "packets_available True 65536 sample_reads bound_host
       [Fail EINVAL, Ret 60, Fail EINVAL]"
  have "case ?run of (res, host', bs, rs') \<Rightarrow>
      res = Done () \<and> rs' = [] \<and> list_all (\<lambda>b. list_all call_ok (b_calls b)) bs \<and> st_packets (stats host') = 1"
    by code_simp
  then obtain host' bs where r: "?run = (Done (), host', bs, [])"
    and ok: "list_all (\<lambda>b. list_all call_ok (b_calls b)) bs" and p: "st_packets (stats host') = 1"
    by (auto split: prod.splits)
  have a: "list_all2 (answers_bytes 65536) sample_reads sample_datagrams"
    by (simp add: sample_reads_def Let_def sample_datagrams_def answers_bytes_def reads_bytes_def)
  have l: "list_all (\<lambda>ds. int (length ds) \<le> max_packet_count bound_host) sample_datagrams"
    by (simp add: sample_datagrams_def bound_host_simps)
  from host_bytes_in_order[OF r bound_host_bound a l ok, of "\<lambda>k. []"] r p show ?thesis
    unfolding Let_def by (auto simp: bound_host_simps stats_zero_def)
qed

section \<open>From the VM to the network\<close>

text \<open>
  The datagrams that vmnet accepted, when the reads of a run received \<open>dss\<close>: a \<open>vmnet_write\<close> that
  succeeds takes the first packets of the batch, as many as the count it returns, and of each as many
  bytes as its iov says.
\<close>

fun taken :: "vans option \<Rightarrow> nat" where
  "taken (Some (Written VMNET_SUCCESS n)) = nat n" | "taken _ = 0"

lemma not_taken: "\<not> write_ok a \<Longrightarrow> taken a = 0"
  by (induction a rule: taken.induct) auto

fun vm_wire ::
  "(nat \<Rightarrow> nat) \<Rightarrow> memory \<Rightarrow> bytes list list \<Rightarrow> (vcall \<times> vans option) list \<Rightarrow> bytes list" where
  "vm_wire iov_of m dss [] = []"
| "vm_wire iov_of m dss ((Vmnet_write pkts, a) # h) =
     map (\<lambda>(i, sz, len). take (unat len) (m i)) (take (taken a) pkts) @
     vm_wire iov_of m dss h"
| "vm_wire iov_of m dss (e # h) =
     (case (received e, dss) of
        (Some lens, ds # dss) \<Rightarrow> vm_wire iov_of (fill iov_of ds m) dss h
      | _ \<Rightarrow> vm_wire iov_of m dss h)"

text \<open>No successful \<open>vmnet_write\<close> took less than its whole batch.\<close>

fun takes_batch :: "vcall \<times> vans option \<Rightarrow> bool" where
  "takes_batch (Vmnet_write pkts, a) \<longleftrightarrow> write_ok a \<longrightarrow> length pkts \<le> taken a" | "takes_batch _ \<longleftrightarrow> True"

definition arrivals :: "(vcall \<times> vans option) list \<Rightarrow> 64 word list list" where
  "arrivals h = List.map_filter received h"

definition lengths_of :: "bytes list \<Rightarrow> 64 word list" where
  "lengths_of ds = map (\<lambda>d. of_nat (length d)) ds"

definition carries :: "(vcall \<times> vans option) list \<Rightarrow> bytes list list \<Rightarrow> bool" where
  "carries h dss \<longleftrightarrow> map lengths_of dss = arrivals h \<and> list_all (list_all (\<lambda>d. length d < 2 ^ 64)) dss"

definition stopped :: "(vcall \<times> vans option) list \<Rightarrow> bool" where
  "stopped h \<longleftrightarrow> shutdown_event STATUS_STOPPED \<in> {k. Kevent_trigger k \<in> fst ` set h}"

text \<open>What the buffers hold while a batch waits to be written.\<close>

fun pending_in :: "memory \<Rightarrow> phase \<Rightarrow> bytes list \<Rightarrow> bool" where
  "pending_in m (Holding lens) ds \<longleftrightarrow> lens = lengths_of ds \<and> (\<forall>k < length ds. take (length (ds ! k)) (m k) = ds ! k) \<and>
     list_all (\<lambda>d. length d < 2 ^ 64) ds"
| "pending_in m p ds \<longleftrightarrow> ds = []"

lemma carries_simps [simp]:
  "carries [] dss \<longleftrightarrow> dss = []"
  "received e = None \<Longrightarrow> carries (e # h) dss \<longleftrightarrow> carries h dss"
  "received e = Some lens \<Longrightarrow> carries (e # h) dss \<longleftrightarrow> (\<exists>ds dss'. dss = ds # dss' \<and> lens = lengths_of ds \<and>
     list_all (\<lambda>d. length d < 2 ^ 64) ds \<and> carries h dss')"
  by (auto simp: carries_def arrivals_def List.map_filter_def map_eq_Cons_conv)

lemma batch_taken:
  assumes "pending_in m (Holding lens) ds"
  shows "map (\<lambda>(i, sz, len). take (unat len) (m i)) (batch_of lens) = ds"
proof (rule nth_equalityI)
  fix i assume "i < length (map (\<lambda>(i, sz, len). take (unat len) (m i)) (batch_of lens))"
  then have i: "i < length ds" using assms by (simp add: batch_of_def lengths_of_def)
  then have "length (ds ! i) < 2 ^ 64" using assms by (simp add: list_all_length)
  then have "unat (of_nat (length (ds ! i)) :: 64 word) = length (ds ! i)"
    by (simp add: unat_of_nat)
  then show "map (\<lambda>(i, sz, len). take (unat len) (m i)) (batch_of lens) ! i = ds ! i"
    using assms i by (simp add: batch_of_def lengths_of_def)
qed (use assms in \<open>simp add: batch_of_def lengths_of_def\<close>)

lemma fill_pending:
  assumes "\<And>j. j < length ds \<Longrightarrow> iov_of j = j" and "list_all (\<lambda>d. length d < 2 ^ 64) ds"
  shows "pending_in (fill iov_of ds m) (Holding (lengths_of ds)) ds"
  using assms by (simp add: fill_own)

lemma stopped_Cons: "stopped (e # h) \<longleftrightarrow> fst e = Kevent_trigger (shutdown_event STATUS_STOPPED) \<or> stopped h"
  by (auto simp: stopped_def)

lemma shutdown_events_differ: "shutdown_event STATUS_FAILURE \<noteq> shutdown_event STATUS_STOPPED"
  by (simp add: shutdown_event_def event_consts)

lemma phase_Over: "run_phase Over h = Some Over \<Longrightarrow> h = []"
  by (cases h) auto

text \<open>
  What the part \<open>h\<close> of a run hands over is a part of what waits and what it will receive; when every
  batch was taken whole it is a first part, and all of it when it ends with a closed socket.
\<close>

definition hands_over :: "(nat \<Rightarrow> nat) \<Rightarrow> memory \<Rightarrow> bytes list \<Rightarrow> bytes list list \<Rightarrow> (vcall \<times> vans option) list \<Rightarrow> bool" where
  "hands_over iov_of m ds dss h \<longleftrightarrow> subseq (vm_wire iov_of m dss h) (ds @ concat dss) \<and>
     (list_all takes_batch h \<longrightarrow> prefix (vm_wire iov_of m dss h) (ds @ concat dss) \<and>
        (stopped h \<longrightarrow> vm_wire iov_of m dss h = ds @ concat dss))"

definition own_buffers :: "(nat \<Rightarrow> nat) \<Rightarrow> bytes list list \<Rightarrow> bool" where
  "own_buffers iov_of dss \<longleftrightarrow> (\<forall>ds \<in> set dss. \<forall>j < length ds. iov_of j = j)"

definition handed_from :: "(nat \<Rightarrow> nat) \<Rightarrow> phase \<Rightarrow> (vcall \<times> vans option) list \<Rightarrow> bool" where
  "handed_from iov_of p h \<longleftrightarrow> (\<forall>m ds dss. pending_in m p ds \<longrightarrow> carries h dss \<longrightarrow> own_buffers iov_of dss \<longrightarrow>
     hands_over iov_of m ds dss h)"

lemma handed_read:
  assumes "handed_from iov_of q h" and "carries ((c, a) # h) dss" and "own_buffers iov_of dss"
    and "\<And>pkts. c \<noteq> Vmnet_write pkts" and "\<And>k. c \<noteq> Kevent_trigger k"
    and "q = (case received (c, a) of None \<Rightarrow> q | Some lens \<Rightarrow> Holding lens)"
    and "received (c, a) = None \<Longrightarrow> q = Fallback \<or> q = Broken"
  shows "hands_over iov_of m [] dss ((c, a) # h)"
proof -
  have no_write: "takes_batch (c, a)" using assms(4) by (cases c) auto
  show ?thesis
proof (cases "received (c, a)")
  case None
  have "pending_in m q []" using assms(7)[OF None] by auto
  moreover have "carries h dss" using assms(2) None by simp
  ultimately have "hands_over iov_of m [] dss h" using assms(1,3) unfolding handed_from_def by blast
  moreover have "vm_wire iov_of m dss ((c, a) # h) = vm_wire iov_of m dss h"
    using None assms(4) by (cases c) auto
  ultimately show ?thesis using assms(5) no_write by (simp add: hands_over_def stopped_Cons)
next
  case (Some lens)
  then obtain d dss' where d: "dss = d # dss'" "lens = lengths_of d" "list_all (\<lambda>x. length x < 2 ^ 64) d"
    "carries h dss'" using assms(2) by auto
  have own: "own_buffers iov_of dss'" "\<And>j. j < length d \<Longrightarrow> iov_of j = j"
    using assms(3) by (simp_all add: own_buffers_def d(1))
  have "pending_in (fill iov_of d m) q d" using fill_pending[OF own(2) d(3)] assms(6) Some d(2) by simp
  then have "hands_over iov_of (fill iov_of d m) d dss' h"
    using assms(1) d(4) own(1) unfolding handed_from_def by blast
  moreover have "vm_wire iov_of m dss ((c, a) # h) = vm_wire iov_of (fill iov_of d m) dss' h"
    using Some assms(4) by (cases c) (auto simp: d(1))
  ultimately show ?thesis using assms(5) no_write by (simp add: hands_over_def stopped_Cons d(1))
qed
qed

text \<open>After a failed \<open>vmnet_write\<close> only the failure is reported.\<close>

lemma broken_hands_nothing:
  assumes "run_phase Broken h = Some Over" and "carries h dss"
  shows "vm_wire iov_of m dss h = [] \<and> \<not> stopped h"
proof -
  obtain e h' where h: "h = e # h'" using assms(1) by (cases h) auto
  then have "fst e = Kevent_trigger (shutdown_event STATUS_FAILURE)" "h' = []"
    using assms(1) by (cases e; cases "fst e"; auto split: if_splits option.splits dest: phase_Over)+
  then show ?thesis
    using shutdown_events_differ by (cases e) (auto simp: h stopped_def split: option.splits)
qed

lemma handed_batch:
  assumes "handed_from iov_of q h" and "run_phase q h = Some Over" and "carries ((c, a) # h) dss"
    and "own_buffers iov_of dss" and "pending_in m (Holding lens) ds"
    and "vm_next (Holding lens) (c, a) = Some q"
  shows "hands_over iov_of m ds dss ((c, a) # h)"
proof -
  consider (wrote) "c = Vmnet_write (batch_of lens)" "write_ok a" "q = Reading"
    | (failed) "c = Vmnet_write (batch_of lens)" "\<not> write_ok a" "q = Broken"
    | (closed) "c = Kevent_trigger (shutdown_event STATUS_STOPPED)" "lens = []" "q = Over"
    using assms(6) by (cases c) (auto split: if_splits)
  then show ?thesis
  proof cases
    case wrote
    have "carries h dss" using assms(3) by (simp add: wrote(1))
    then have "hands_over iov_of m [] dss h"
      using assms(1,4) wrote(3) unfolding handed_from_def by fastforce
    moreover have "vm_wire iov_of m dss ((c, a) # h) = take (taken a) ds @ vm_wire iov_of m dss h"
      by (simp add: wrote(1) take_map[symmetric] batch_taken[OF assms(5)])
    moreover have "takes_batch (c, a) \<Longrightarrow> length ds \<le> taken a"
      using wrote(1,2) assms(5) by (simp add: batch_of_def lengths_of_def)
    moreover have "subseq (take (taken a) ds) ds" by (rule prefix_imp_subseq[OF take_is_prefix])
    ultimately show ?thesis
      using wrote(1) by (auto simp: hands_over_def stopped_Cons intro: list_emb_append_mono)
  next
    case failed
    have "carries h dss" using assms(3) by (simp add: failed(1))
    then show ?thesis
      using broken_hands_nothing[of h dss] assms(2) failed not_taken by (simp add: hands_over_def stopped_Cons)
  next
    case closed
    then have "h = []" using assms(2) phase_Over by simp
    then show ?thesis
      using assms(3,5) closed by (auto simp: hands_over_def lengths_of_def split: option.splits)
  qed
qed

lemma vm_wire_phases:
  "run_phase p h = Some Over \<Longrightarrow> handed_from iov_of p h"
proof (induction h arbitrary: p)
  case Nil
  then show ?case by (simp add: handed_from_def hands_over_def stopped_def)
next
  case (Cons e h)
  obtain c a where e: "e = (c, a)" by fastforce
  obtain q where q: "vm_next p (c, a) = Some q" "run_phase q h = Some Over"
    using Cons.prems by (auto simp: e split: option.splits)
  note next_part = Cons.IH[OF q(2)]
  have "hands_over iov_of m ds dss ((c, a) # h)"
    if pend: "pending_in m p ds" and c: "carries ((c, a) # h) dss" and own: "own_buffers iov_of dss" for m ds dss
  proof (cases p)
    case Reading
    then have "ds = []" using pend by simp
    with Reading q(1) show ?thesis
      by (simp only:) (intro handed_read[OF next_part c own]; cases c; auto split: option.splits)
  next
    case Fallback
    then have "ds = []" using pend by simp
    with Fallback q(1) show ?thesis
      by (simp only:) (intro handed_read[OF next_part c own]; cases c; auto split: option.splits)
  next
    case (Holding lens)
    then show ?thesis using handed_batch[OF next_part q(2) c own] pend q(1) by blast
  next
    case Broken
    then show ?thesis
      using broken_hands_nothing[OF _ c] Cons.prems pend by (simp add: e hands_over_def del: run_phase.simps)
  qed (use q(1) in simp)
  then show ?case unfolding e handed_from_def by blast
qed

lemma runs_on_vm_steps [intro]:
  "preserves runs_on (set_vm f)" "preserves runs_on (read_one k)" "preserves runs_on (write_to_host c)"
  "preserves runs_on (trigger_shutdown g)"
  unfolding set_vm_def read_one_def write_to_host_def trigger_shutdown_def
  by (auto intro!: run_order.pres_seq run_order.pres_bind runs_on_modify run_order.pres_gets
      run_order.pres_ret run_order.pres_exit split: vans.split)

lemma runs_on_forward: "preserves runs_on (forward_from_vm bulk mps)"
  unfolding forward_from_vm_def forward_round_def read_from_vm_def
  by (rule preserves_repeat[OF run_order.step_order_axioms])
     (auto intro!: run_order.pres_seq run_order.pres_bind run_order.pres_gets run_order.pres_ret
        runs_on_vm_steps split: vans.split)

lemma answered: "(c, Some a) \<in> set h \<Longrightarrow> a \<in> set (List.map_filter snd h)"
  by (force simp: List.map_filter_def)

text \<open>No read received more datagrams than there are iovs.\<close>

lemma arrivals_fit:
  assumes "list_all (fits mps) (List.map_filter snd h)" and "lens \<in> set (arrivals h)"
  shows "length lens \<le> nat (packet_count_for mps)"
proof -
  obtain e where "e \<in> set h" "received e = Some lens"
    using assms(2) by (auto simp: arrivals_def List.map_filter_def split: option.splits)
  then show ?thesis
    using assms(1) packet_count_pos[of mps] answered
    by (cases e rule: received.cases) (force simp: list_all_iff split: if_splits)+
qed

text \<open>
  C3: From the VM to the network, in bytes: of the datagrams that the VM thread receives until it ends,
  those vmnet accepts are a subsequence, each unchanged, none twice, in the order received, whatever
  the buffers held before.  As long as every write that succeeds takes its whole batch they are a
  first part, and all of them when the thread ends because the VM closed its socket.  (The code
  ignores the count \<open>vmnet_write\<close> returns: packets it does not take are lost.)  Assumes a read
  receives no more datagrams than there are buffers.
\<close>

theorem vm_bytes_in_order:
  assumes "forward_from_vm bulk mps s = (r, t)" and "bound_to mps (vm s)"
    and "list_all (fits mps) (answers s)" and "r \<noteq> Waiting"
  shows "\<exists>h. history t = history s @ h \<and> (\<forall>dss m. carries h dss \<longrightarrow>
    (let out = vm_wire (\<lambda>j. msg_iov (msgs (vm s) ! j)) m dss h
     in subseq out (concat dss) \<and>
       (list_all takes_batch h \<longrightarrow> prefix out (concat dss) \<and> (stopped h \<longrightarrow> out = concat dss))))"
proof -
  obtain h where h: "history t = history s @ h" "run_phase Reading h = Some Over"
    using forward_from_vm_end[OF assms(1)] assms(2-4) by (auto simp: ready_def)
  have "runs_on s t" by (rule preservesD[OF runs_on_forward assms(1)])
  then have fit: "list_all (fits mps) (List.map_filter snd h)"
    using h(1) assms(3) by (auto simp: runs_on_def)
  have "hands_over (\<lambda>j. msg_iov (msgs (vm s) ! j)) m [] dss h" if c: "carries h dss" for dss m
  proof -
    have "msg_iov (msgs (vm s) ! j) = j" if "ds \<in> set dss" "j < length ds" for j ds
    proof -
      have "lengths_of ds \<in> set (arrivals h)" using c that(1) unfolding carries_def by (metis image_eqI list.set_map)
      from arrivals_fit[OF fit this] have "length ds \<le> nat (packet_count_for mps)" by (simp add: lengths_of_def)
      then show ?thesis using that(2) assms(2) by (simp add: bound_to_def)
    qed
    then have "own_buffers (\<lambda>j. msg_iov (msgs (vm s) ! j)) dss" by (simp add: own_buffers_def)
    then show ?thesis using vm_wire_phases[OF h(2)] c unfolding handed_from_def by simp
  qed
  with h(1) show ?thesis unfolding hands_over_def Let_def by auto
qed

text \<open>Two datagrams, forwarded, then the end of the socket.\<close>

definition sample_sent :: "bytes list list" where
  "sample_sent = [[replicate 64 1, replicate 100 2], []]"

theorem vm_bytes_in_order_witness:
  "\<exists>t. forward_from_vm True 65536 sample_vm = (Done (), t) \<and>
     vm_wire (\<lambda>j. msg_iov (msgs (vm sample_vm) ! j)) (\<lambda>k. replicate 65536 7) sample_sent (history t) =
       [replicate 64 1, replicate 100 2]"
proof -
  obtain t where r: "forward_from_vm True 65536 sample_vm = (Done (), t)"
    and h: "history t = [(Recvmsg_x 16, Some (Datagrams [64, 100])),
       (Vmnet_write (batch_of [64, 100]), Some (Written VMNET_SUCCESS 2)), (Recvmsg_x 16, Some (Datagrams [])),
       (Kevent_trigger (shutdown_event STATUS_STOPPED), Some Triggered)]"
    using sample_vm_run by (elim exE conjE)
  have n: "Done () \<noteq> (Waiting :: unit outcome)" by simp
  have c: "carries (history t) sample_sent"
    by (simp add: h sample_sent_def lengths_of_def)
  have st: "stopped (history t)" and tb: "list_all takes_batch (history t)"
    by (simp_all add: h stopped_def batch_of_def)
  show ?thesis
    using vm_bytes_in_order[OF r sample_vm_bound n] c st r tb
    by (auto simp: sample_vm_history Let_def sample_sent_def)
qed

text \<open>When vmnet takes one packet of a batch of two and reports success, the other one is lost.\<close>

lemma partial_write_loses:
  "\<exists>t. forward_from_vm True 65536 (vm_taking 1) = (Done (), t) \<and> stopped (history t) \<and>
     carries (history t) sample_sent \<and>
     vm_wire (\<lambda>j. j) (\<lambda>k. replicate 65536 7) sample_sent (history t) = [replicate 64 1]"
proof -
  obtain t where r: "forward_from_vm True 65536 (vm_taking 1) = (Done (), t)"
    and h: "history t = [(Recvmsg_x 16, Some (Datagrams [64, 100])),
       (Vmnet_write (batch_of [64, 100]), Some (Written VMNET_SUCCESS 1)), (Recvmsg_x 16, Some (Datagrams [])),
       (Kevent_trigger (shutdown_event STATUS_STOPPED), Some Triggered)]"
    using vm_taking_run[of 1] by (elim exE conjE)
  have "batch_of [64, 100] = [(0, 64, 64), (1, 100, 100)]" by (simp add: batch_of_def upt_rec)
  then have "vm_wire (\<lambda>j. j) (\<lambda>k. replicate 65536 7) sample_sent (history t) =
      [take 64 (put (replicate 64 1) (replicate 65536 7))]"
    by (simp add: h sample_sent_def fill_own)
  moreover have "take 64 (put (replicate 64 1) (replicate 65536 7)) = replicate 64 (1 :: 8 word)"
    by (simp add: put_def)
  ultimately show ?thesis
    using r by (auto simp: h stopped_def sample_sent_def lengths_of_def)
qed

end
