(* ===== verification/Servers.thy ===== *)
theory Servers
  imports Helper_Main
begin

text \<open>
  Runs of vmnet-helper put together: any number of processes, each with a run of \<open>helper_main\<close> of its
  own, whose calls on the lock file and the socket of one path are interleaved in any order and
  answered by one kernel; any of them may end or be killed between two calls.
\<close>

section \<open>Interleaved runs\<close>

datatype act = Did nat hcall hans | Ended nat

fun calls_by :: "nat \<Rightarrow> act list \<Rightarrow> (hcall \<times> hans option) list" where
  "calls_by p [] = []"
| "calls_by p (Did q c a # acts) = (if q = p then [(c, Some a)] else []) @ calls_by p acts"
| "calls_by p (Ended q # acts) = calls_by p acts"

inductive together :: "string \<Rightarrow> files \<Rightarrow> act list \<Rightarrow> files \<Rightarrow> bool"
  for path :: string and f0 :: files where
  start: "together path f0 [] f0"
| does: "together path f0 acts f \<Longrightarrow> Ended p \<notin> set acts \<Longrightarrow> file_call path p c a f g \<Longrightarrow>
    together path f0 (acts @ [Did p c a]) g"
| ends: "together path f0 acts f \<Longrightarrow> Ended p \<notin> set acts \<Longrightarrow>
    together path f0 (acts @ [Ended p]) (drop_lock p f)"

text \<open>A part of what some run of the helper does to the files of the path.\<close>

definition helper_calls :: "string \<Rightarrow> (hcall \<times> hans option) list \<Rightarrow> bool" where
  "helper_calls path h \<longleftrightarrow> (\<exists>e sdk26 args as c r t.
     parse_options e args cli_init = (Done (), c) \<and> opt_socket (cli_options c) \<in> {None, Some path} \<and>
     helper_main e sdk26 args as = (r, t) \<and> prefix h (filter (\<lambda>e. on_files (fst e)) (history t)))"

text \<open>No lock is held at the start; the files may be there from earlier runs.\<close>

definition no_locks :: "files \<Rightarrow> bool" where
  "no_locks f \<longleftrightarrow> (\<forall>p. lk_held f p = None) \<and> (\<forall>i. lk_name f = Some i \<longrightarrow> i < lk_next f)"

definition stage_of :: "string \<Rightarrow> nat \<Rightarrow> act list \<Rightarrow> stage option" where
  "stage_of path p acts = (if Ended p \<in> set acts then None else run_files path Fresh (calls_by p acts))"

section \<open>The runs as steps of the world\<close>

lemma calls_by_append [simp]: "calls_by p (acts @ acts2) = calls_by p acts @ calls_by p acts2"
  by (induction p acts rule: calls_by.induct) simp_all

lemma run_files_filter: "run_files path q (filter (\<lambda>e. on_files (fst e)) h) = run_files path q h"
  proof (induction h arbitrary: q)
  case (Cons e h)
  then show ?case by (cases e) (auto simp: file_next_other simp del: file_next.simps split: Option.bind_splits)
qed simp

lemma helper_calls_stage:
  assumes "helper_calls path h" shows "run_files path Fresh h \<noteq> None"
proof -
  obtain e sdk26 args as c r t where run: "parse_options e args cli_init = (Done (), c)"
    "opt_socket (cli_options c) \<in> {None, Some path}" "helper_main e sdk26 args as = (r, t)"
    and pre: "prefix h (filter (\<lambda>e. on_files (fst e)) (history t))"
    using assms unfolding helper_calls_def by blast
  obtain g where g: "filter (\<lambda>e. on_files (fst e)) (history t) = h @ g" using pre by (rule prefixE)
  have "run_files path Fresh (h @ g) \<noteq> None"
    using run_follows[OF run] run_files_filter[of path Fresh "history t"] by (auto simp: g)
  then show ?thesis by (cases "run_files path Fresh h") (auto simp: run_files_append)
qed

lemma helper_calls_prefix: "helper_calls path (g @ h) \<Longrightarrow> helper_calls path g"
  unfolding helper_calls_def by (meson append_prefixD)

definition world_of :: "string \<Rightarrow> act list \<Rightarrow> files \<Rightarrow> world" where
  "world_of path acts f = \<lparr>w_stage = (\<lambda>p. stage_of path p acts), w_files = f\<rparr>"

lemma together_reachable:
  assumes "together path f0 acts f" and "no_locks f0" and "\<And>p. helper_calls path (calls_by p acts)"
  shows "reachable world_start (world_step path) (world_of path acts f)"
  using assms(1,3)
proof induction
  case start
  have "world_start (world_of path [] f0)"
    using assms(2) by (simp add: world_start_def world_of_def stage_of_def no_locks_def)
  then show ?case by (rule reachable_init)
next
  case (does acts f p c a g)
  have part: "helper_calls path (calls_by r acts)" for r
    using does.prems[of r] helper_calls_prefix by auto
  obtain q where q: "run_files path Fresh (calls_by p acts) = Some q"
    using helper_calls_stage[OF part] by blast
  have "helper_calls path (calls_by p acts @ [(c, Some a)])" using does.prems[of p] by simp
  then obtain q' where q': "file_next path q (c, Some a) = Some q'"
    using helper_calls_stage[of path "calls_by p acts @ [(c, Some a)]"] q
    by (auto simp: run_files_append simp del: file_next.simps split: Option.bind_splits)
  have "world_step path (world_of path acts f)
      ((set_stage p (Some q') (world_of path acts f))\<lparr>w_files := g\<rparr>)"
    by (rule world_step.call[OF _ q']) (use does q in \<open>simp_all add: world_of_def stage_of_def\<close>)
  also have "(set_stage p (Some q') (world_of path acts f))\<lparr>w_files := g\<rparr> = world_of path (acts @ [Did p c a]) g"
  proof -
    have p: "stage_of path p (acts @ [Did p c a]) = Some q'"
      using q q' does.hyps(2) by (simp add: stage_of_def run_files_append del: file_next.simps)
    have r: "stage_of path r (acts @ [Did p c a]) = stage_of path r acts" if "r \<noteq> p" for r
      using that by (simp add: stage_of_def)
    have "(\<lambda>r. stage_of path r acts)(p := Some q') = (\<lambda>r. stage_of path r (acts @ [Did p c a]))"
    proof (rule ext)
      fix r show "((\<lambda>r. stage_of path r acts)(p := Some q')) r = stage_of path r (acts @ [Did p c a])"
        using p r[of r] by (cases "r = p") simp_all
    qed
    then show ?thesis by (simp add: world_of_def set_stage_def)
  qed
  finally show ?case by (rule reachable_step[OF does.IH[OF part]])
next
  case (ends acts f p)
  have part: "helper_calls path (calls_by r acts)" for r
    using ends.prems[of r] by simp
  obtain q where q: "run_files path Fresh (calls_by p acts) = Some q"
    using helper_calls_stage[OF part] by blast
  have "world_step path (world_of path acts f)
      ((set_stage p None (world_of path acts f))\<lparr>w_files := drop_lock p (w_files (world_of path acts f))\<rparr>)"
    by (rule world_step.ends[of _ _ q]) (use q ends.hyps(2) in \<open>simp add: world_of_def stage_of_def\<close>)
  also have "(set_stage p None (world_of path acts f))\<lparr>w_files := drop_lock p (w_files (world_of path acts f))\<rparr> =
      world_of path (acts @ [Ended p]) (drop_lock p f)"
    by (auto simp: world_of_def set_stage_def stage_of_def)
  finally show ?case by (rule reachable_step[OF ends.IH[OF part]])
qed

section \<open>Properties\<close>

text \<open>
  C8: However many helpers run on one socket path, however their calls interleave and whenever they end or
  are killed: at most one is between taking the lock and giving it up, and while one serves, the
  socket at the path is its own.
\<close>

theorem one_server:
  assumes "together path f0 acts f" and "no_locks f0" and "\<forall>p. helper_calls path (calls_by p acts)"
    and "stage_of path p acts = Some Serving"
  shows "sk_owner f = Some p \<and> (\<forall>q. holding (stage_of path q acts) \<longrightarrow> q = p)"
proof -
  have "reachable world_start (world_step path) (world_of path acts f)"
    using together_reachable[OF assms(1,2)] assms(3) by blast
  from one_server_world[OF this, of p] assms(4) show ?thesis by (simp add: world_of_def)
qed

text \<open>The calls of a helper up to its wait for a client.\<close>

definition serving_acts :: "act list" where
  "serving_acts = [Did 0 (Open_lockfile ''/tmp/s.lock'') (Returns 7), Did 0 (Atexit Remove_socket_lockfile) (Returns 0),
     Did 0 (Remove ''/tmp/s'') (Fails ENOENT), Did 0 (Bind 5 ''/tmp/s'') (Returns 0),
     Did 0 (Chmod ''/tmp/s'') (Returns 0), Did 0 (Atexit Remove_socket_silently) (Returns 0)]"

definition no_files_yet :: files where
  "no_files_yet = \<lparr>lk_name = None, lk_held = Map.empty, lk_next = 0, sk_owner = None\<rparr>"

definition serving_answers :: "hans list" where
  "serving_answers = [Version (Inr ''26.1''), Returns 501, Returns 3, Returns 0, Returns 0,
     Started True VMNET_SUCCESS [], Returns 0, Returns 501, Returns 0, Returns 7, Returns 0, Returns 5,
     Returns 0, Returns 0, Fails ENOENT, Returns 0, Returns 0, Returns 0]"

lemma serving_together: "\<exists>f. together ''/tmp/s'' no_files_yet serving_acts f"
proof -
  let ?T = "together ''/tmp/s'' no_files_yet" and ?f = "take_lock 0 no_files_yet"
  note step = together.does[where p = 0 and path = "''/tmp/s''" and ?f0.0 = no_files_yet, simplified append.simps]
  have 0: "?T [] no_files_yet" by (rule together.start)
  have lock: "lock_free no_files_yet" by (simp add: lock_free_def no_files_yet_def)
  note 1 = step[OF 0 _ file_call.open_ok[OF lock, of "Returns 7" _ _ "''/tmp/s.lock''"], simplified]
  note 2 = step[OF 1 _ file_call.other[of "Atexit Remove_socket_lockfile" _ _ "Returns 0"], simplified]
  note 3 = step[OF 2 _ file_call.remove_fails[of "Fails ENOENT" _ _ "''/tmp/s''"], simplified]
  have "sk_owner ?f = None" by (simp add: take_lock_def no_files_yet_def)
  note 4 = step[OF 3 _ file_call.bind_ok[OF this, of "Returns 0" _ _ 5], simplified]
  note 5 = step[OF 4 _ file_call.other[of "Chmod ''/tmp/s''" _ _ "Returns 0"], simplified]
  note 6 = step[OF 5 _ file_call.other[of "Atexit Remove_socket_silently" _ _ "Returns 0"], simplified]
  then show ?thesis unfolding serving_acts_def by blast
qed

lemma serving_calls:
  assumes "prefix g (calls_by 0 serving_acts)" shows "helper_calls ''/tmp/s'' g"
proof -
  let ?p = "parse_options sample_env sample_main_options cli_init"
  let ?r = "helper_main sample_env True sample_main_options serving_answers"
  have "fst ?p = Done ()" "opt_socket (cli_options (snd ?p)) = Some ''/tmp/s''"
    unfolding sample_main_options_def by code_simp+
  then have p: "?p = (Done (), snd ?p)" and o: "opt_socket (cli_options (snd ?p)) \<in> {None, Some ''/tmp/s''}"
    by (simp_all add: prod_eq_iff)
  have h: "filter (\<lambda>e. on_files (fst e)) (history (snd ?r)) = calls_by 0 serving_acts"
    by code_simp
  show ?thesis unfolding helper_calls_def using p o h assms prod.collapse[of ?r] by metis
qed

theorem one_server_witness:
  "\<exists>f. together ''/tmp/s'' no_files_yet serving_acts f \<and> sk_owner f = Some 0"
proof -
  obtain f where f: "together ''/tmp/s'' no_files_yet serving_acts f" using serving_together by blast
  have "\<forall>p. helper_calls ''/tmp/s'' (calls_by p serving_acts)"
    using serving_calls[of "[]"] serving_calls[of "calls_by 0 serving_acts"] by (auto simp: serving_acts_def)
  moreover have "stage_of ''/tmp/s'' 0 serving_acts = Some Serving" by code_simp
  moreover have "no_locks no_files_yet" by (simp add: no_locks_def no_files_yet_def)
  ultimately show ?thesis using one_server[OF f] f by blast
qed

section \<open>A successor\<close>

text \<open>
  The calls on the files of a process that comes to serve; \<open>stale\<close>: an earlier process left its socket
  at the path.
\<close>

definition removal :: "bool \<Rightarrow> hans" where
  "removal stale = (if stale then Returns 0 else Fails ENOENT)"

definition takes_over :: "string \<Rightarrow> bool \<Rightarrow> (hcall \<times> hans) list" where
  "takes_over path stale =
     [(Open_lockfile (lockfile_of path), Returns 7), (Atexit Remove_socket_lockfile, Returns 0),
      (Remove path, removal stale), (Bind 5 path, Returns 0), (Chmod path, Returns 0),
      (Atexit Remove_socket_silently, Returns 0)]"

definition acts_of :: "nat \<Rightarrow> (hcall \<times> hans) list \<Rightarrow> act list" where
  "acts_of p h = map (\<lambda>(c, a). Did p c a) h"

lemma calls_by_acts_of: "calls_by q (acts_of p h) = (if q = p then map (\<lambda>(c, a). (c, Some a)) h else [])"
  by (induction h) (auto simp: acts_of_def)

lemma not_ended_acts_of: "Ended q \<notin> set (acts_of p h)"
  by (auto simp: acts_of_def)

text \<open>The kernel allows these calls when the lock is free, for a socket of anyone at the path.\<close>

lemma together_takes_over:
  assumes "together path f0 acts f" and "Ended p \<notin> set acts" and "lock_free f"
  shows "together path f0 (acts @ acts_of p (takes_over path (sk_owner f \<noteq> None))) ((take_lock p f)\<lparr>sk_owner := Some p\<rparr>)"
proof -
  let ?L = "take_lock p f" and ?U = "(take_lock p f)\<lparr>sk_owner := None\<rparr>" and ?B = "(take_lock p f)\<lparr>sk_owner := Some p\<rparr>"
  have step: "together path f0 (acts @ acts_of p (h @ [(c, a)])) k"
    if "together path f0 (acts @ acts_of p h) g" "file_call path p c a g k" for h c a g k
    using together.does[OF that(1) _ that(2)] assms(2) not_ended_acts_of by (simp add: acts_of_def)
  have 0: "together path f0 (acts @ acts_of p []) f" using assms(1) by (simp add: acts_of_def)
  note 1 = step[OF 0 file_call.open_ok[OF assms(3), of "Returns 7" path p "lockfile_of path"]]
  note 2 = step[OF 1 file_call.other[of "Atexit Remove_socket_lockfile" path p "Returns 0" ?L]]
  have "file_call path p (Remove path) (removal (sk_owner f \<noteq> None)) ?L ?U"
  proof (cases "sk_owner f")
    case None
    then have "?U = ?L" by (simp add: take_lock_def)
    then show ?thesis using None file_call.remove_fails[of "Fails ENOENT" path p path ?L] by (simp add: removal_def)
  next
    case (Some q)
    then show ?thesis using file_call.remove_socket[of "Returns 0" path p ?L] by (simp add: removal_def)
  qed
  note 3 = step[OF 2 this]
  note 4 = step[OF 3 file_call.bind_ok[of ?U "Returns 0" path p 5]]
  note 5 = step[OF 4 file_call.other[of "Chmod path" path p "Returns 0"]]
  note 6 = step[OF 5 file_call.other[of "Atexit Remove_socket_silently" path p "Returns 0"]]
  show ?thesis using 6 by (simp add: takes_over_def)
qed

text \<open>
  The answers of a start without privileges, up to the wait for the first client; \<open>early\<close> are those
  before the socket.
\<close>

definition early_answers :: "hans list" where
  "early_answers = [Version (Inr ''26.1''), Returns 501, Returns 3, Returns 0, Returns 0,
     Started True VMNET_SUCCESS [], Returns 0, Returns 501]"

definition socket_answers :: "bool \<Rightarrow> hans list" where
  "socket_answers stale = [Returns 0, Returns 7, Returns 0, Returns 5, Returns 0, Returns 0,
     removal stale, Returns 0, Returns 0, Returns 0]"

lemma early_run:
  assumes "opt_network_name (cli_options c) = None" and "abs_network (cli_options c) \<noteq> None"
  shows "\<exists>s. before_socket sdk26 (main_start (early_answers @ as) c) = (Done (), s) \<and> answers s = as"
proof -
  obtain d where d: "interface_desc (cli_options c) = Some d" using interface_desc_valid[OF assms(2,1)] by blast
  obtain v where v: "os_product_version (Inr ''26.1'') os_version_zero = (0, v)"
    by (simp add: os_product_version_def)
  let ?s = "main_start (early_answers @ as) c"
  have o: "h_options ?s = cli_options c" "answers ?s = early_answers @ as"
    by (simp_all add: main_start_def helper_init_def)
  have 1: "\<exists>t. check_os_version s = (Done (), t) \<and> answers t = bs \<and> h_options t = h_options s"
    if "answers s = Version (Inr ''26.1'') # Returns 501 # bs" "opt_network_name (h_options s) = None" for s bs
    using that by (simp add: check_os_version_def bind_def v gets_def ret_def)
  have 2: "\<exists>t. setup_kq s = (Done (), t) \<and> answers t = bs \<and> h_options t = h_options s"
    if "answers s = Returns 3 # Returns 0 # Returns 0 # bs" for s bs
    using that by (simp add: setup_kq_def bind_def seq_def modify_def ret_def must_be_zero_def emit_def)
  have 3: "\<exists>t. start_host_interface sdk26 s = (Done (), t) \<and> answers t = bs \<and> h_options t = h_options s"
    if "answers s = Started True VMNET_SUCCESS [] # Returns 0 # bs" "h_options s = cli_options c" for s bs
    using that assms(1) d
    by (simp add: start_host_interface_def start_interface_with_options_def debug_start_run bind_def seq_def
        gets_def started_def write_interface_info_def emit_def modify_def register_exit_def must_def ret_def)
  have 4: "\<exists>t. drop_privileges s = (Done (), t) \<and> answers t = bs" if "answers s = Returns 501 # bs" for s bs
    using that by (simp add: drop_privileges_def bind_def ret_def)
  obtain s1 where 5: "check_os_version ?s = (Done (), s1)" "answers s1 = drop 2 early_answers @ as" "h_options s1 = cli_options c"
    using 1[of ?s "drop 2 early_answers @ as"] o assms(1) by (auto simp: early_answers_def)
  obtain s2 where 6: "setup_kq s1 = (Done (), s2)" "answers s2 = drop 5 early_answers @ as" "h_options s2 = cli_options c"
    using 2[of s1 "drop 5 early_answers @ as"] 5 by (auto simp: early_answers_def)
  obtain s3 where 7: "start_host_interface sdk26 s2 = (Done (), s3)" "answers s3 = drop 7 early_answers @ as"
    using 3[of s2 "drop 7 early_answers @ as"] 6 by (auto simp: early_answers_def)
  then show ?thesis
    using 4[of s3 as] 5(1) 6(1) by (auto simp: before_socket_def seq_def bind_def early_answers_def)
qed

lemma socket_run:
  assumes "answers s = socket_answers stale" and "opt_fd (h_options s) = -1"
    and "opt_socket (h_options s) = Some path" and "length path < sizeof_sun_path"
  shows "\<exists>t. setup_socket s = (Waiting, t) \<and> answers t = [] \<and>
    filter (\<lambda>e. on_files (fst e)) (history t) =
      filter (\<lambda>e. on_files (fst e)) (history s) @ map (\<lambda>(c, a). (c, Some a)) (takes_over path stale)"
proof -
  have path: "sun_path path = path" using assms(4) by (simp add: sun_path_def)
  have ok: "(if retval (removal stale) < 0 \<and> errno_of (removal stale) \<noteq> ENOENT then exit_with EXIT_FAILURE
      else ret ()) u = (Done (), u)" for u :: helper
    by (simp add: removal_def ret_def)
  show ?thesis
    using assms(1-3)
    by (simp add: setup_socket_def create_socket_lockfile_def create_socket_def place_socket_def socket_path_def
        set_socket_buffers_def register_exit_def must_def bind_def seq_def gets_def modify_def ret_def set_fd_def
        socket_answers_def path ok wait_for_client_def must_be_zero_def takes_over_def)
qed

lemma successor_run:
  assumes "parse_options e args cli_init = (Done (), c)" and "opt_socket (cli_options c) = Some path"
    and "opt_network_name (cli_options c) = None"
  shows "\<exists>t. helper_main e sdk26 args (early_answers @ socket_answers stale) = (Waiting, t) \<and> answers t = [] \<and>
    filter (\<lambda>e. on_files (fst e)) (history t) = map (\<lambda>(c, a). (c, Some a)) (takes_over path stale)"
proof -
  have p: "abs_transport (cli_options c) \<noteq> None" "abs_network (cli_options c) \<noteq> None" "fields_ok e (cli_options c)"
    using parsed_options[OF assms(1)] by simp_all
  have fd: "opt_fd (cli_options c) = -1" "length path < sizeof_sun_path"
    using p assms(2) by (auto simp: abs_transport_def fields_ok_def split: if_splits)
  let ?s = "main_start (early_answers @ socket_answers stale) c"
  obtain s where s: "before_socket sdk26 ?s = (Done (), s)" "answers s = socket_answers stale"
    using early_run[OF assms(3) p(2)] by blast
  have n: "no_files ?s s" using preservesD[OF no_files_parts(1) s(1)] .
  then have o: "h_options s = cli_options c" and h: "filter (\<lambda>e. on_files (fst e)) (history s) = []"
    by (auto simp: no_files_def main_start_def helper_init_def filter_empty_conv list_all_iff)
  obtain t where t: "setup_socket s = (Waiting, t)" "answers t = []"
    "filter (\<lambda>e. on_files (fst e)) (history t) = map (\<lambda>(c, a). (c, Some a)) (takes_over path stale)"
    using socket_run[OF s(2), of path] o fd assms(2) h by auto
  have "main_body sdk26 ?s = (Waiting, t)"
    using s(1) t(1) by (simp add: main_parts seq_def bind_def)
  then show ?thesis using assms(1) t by (simp add: helper_main_def finish_def)
qed

text \<open>
  C26: Helpers that ended, even killed while they served, do not block the path.  Whatever lock file and
  socket they left, when every process has ended, not begun or been refused the lock, the kernel can
  answer the calls of a new helper, each as the state of the files allows, so that its \<open>main\<close> comes to
  wait for its first client, with the socket at the path its own.  For a helper with a network of its
  own.
\<close>

theorem successor_serves:
  assumes "together path f0 acts f" and "no_locks f0" and "\<forall>q. helper_calls path (calls_by q acts)"
    and "\<forall>q. stage_of path q acts \<in> {None, Some Fresh, Some Refused}"
    and "calls_by p acts = []" and "Ended p \<notin> set acts"
    and "parse_options e args cli_init = (Done (), c)" and "opt_socket (cli_options c) = Some path"
    and "opt_network_name (cli_options c) = None"
  shows "\<exists>as t acts' g. helper_main e sdk26 args as = (Waiting, t) \<and> answers t = [] \<and>
    calls_by p (acts @ acts') = filter (\<lambda>e. on_files (fst e)) (history t) \<and>
    (\<forall>q. q \<noteq> p \<longrightarrow> calls_by q acts' = []) \<and> together path f0 (acts @ acts') g \<and>
    stage_of path p (acts @ acts') = Some Serving \<and> sk_owner g = Some p"
proof -
  let ?w = "world_of path acts f" and ?h = "takes_over path (sk_owner f \<noteq> None)"
  have "reachable world_start (world_step path) ?w"
    using together_reachable[OF assms(1,2)] assms(3) by blast
  then have "no_stale_lock ?w" by (rule lock_run.inv_reachable)
  then have "lk_held f q = None" for q
    using assms(4)[rule_format, of q] unfolding no_stale_lock_def world_of_def by auto
  then have "lock_free f" by (simp add: lock_free_def)
  note run = together_takes_over[OF assms(1,6) this]
  obtain t where t: "helper_main e sdk26 args (early_answers @ socket_answers (sk_owner f \<noteq> None)) = (Waiting, t)"
    "answers t = []" "filter (\<lambda>e. on_files (fst e)) (history t) = map (\<lambda>(c, a). (c, Some a)) ?h"
    using successor_run[OF assms(7-9)] by blast
  have calls: "calls_by p (acts @ acts_of p ?h) = filter (\<lambda>e. on_files (fst e)) (history t)"
    using t(3) assms(5) by (simp add: calls_by_acts_of)
  have "lockfile_of path \<noteq> path" by (simp add: lockfile_of_def)
  then have "stage_of path p (acts @ acts_of p ?h) = Some Serving"
    using assms(5,6) not_ended_acts_of by (simp add: stage_of_def calls_by_acts_of takes_over_def)
  with t(1,2) calls run show ?thesis
    by (intro exI[of _ "early_answers @ socket_answers (sk_owner f \<noteq> None)"] exI[of _ t]
        exI[of _ "acts_of p ?h"] exI[of _ "(take_lock p f)\<lparr>sk_owner := Some p\<rparr>"])
       (simp add: calls_by_acts_of)
qed

text \<open>The server of the example is killed while it serves; process 1 takes over.\<close>

theorem successor_serves_witness:
  "\<exists>as t acts' g. helper_main sample_env True sample_main_options as = (Waiting, t) \<and>
     together ''/tmp/s'' no_files_yet ((serving_acts @ [Ended 0]) @ acts') g \<and> sk_owner g = Some 1"
proof -
  let ?acts = "serving_acts @ [Ended 0]"
  obtain f where "together ''/tmp/s'' no_files_yet serving_acts f" using serving_together by blast
  moreover have "Ended 0 \<notin> set serving_acts" by (simp add: serving_acts_def)
  ultimately have f: "together ''/tmp/s'' no_files_yet ?acts (drop_lock 0 f)" by (rule together.ends)
  let ?p = "parse_options sample_env sample_main_options cli_init"
  have "fst ?p = Done ()" and o: "opt_socket (cli_options (snd ?p)) = Some ''/tmp/s''"
    "opt_network_name (cli_options (snd ?p)) = None"
    unfolding sample_main_options_def by code_simp+
  then have p: "?p = (Done (), snd ?p)" by (simp add: prod_eq_iff)
  have other: "calls_by q ?acts = []" if "q \<noteq> 0" for q using that by (simp add: serving_acts_def)
  have zero: "calls_by 0 ?acts = calls_by 0 serving_acts" by simp
  have calls: "\<forall>q. helper_calls ''/tmp/s'' (calls_by q ?acts)"
  proof
    fix q show "helper_calls ''/tmp/s'' (calls_by q ?acts)"
      using serving_calls[of "[]"] serving_calls[of "calls_by 0 serving_acts"] other[of q] zero
      by (cases "q = 0") simp_all
  qed
  have st: "\<forall>q. stage_of ''/tmp/s'' q ?acts \<in> {None, Some Fresh, Some Refused}"
  proof
    fix q show "stage_of ''/tmp/s'' q ?acts \<in> {None, Some Fresh, Some Refused}"
      using other[of q] by (cases "q = 0") (simp_all add: stage_of_def serving_acts_def)
  qed
  have n: "no_locks no_files_yet" by (simp add: no_locks_def no_files_yet_def)
  have e: "calls_by 1 ?acts = []" "Ended 1 \<notin> set ?acts" by (simp_all add: serving_acts_def)
  from successor_serves[OF f n calls st e p o] show ?thesis by blast
qed

end
