(* ===== verification/Exit_Code.thy ===== *)
theory Exit_Code
  imports Workers
begin

text \<open>
  The exit code of vmnet-helper: that of \<open>main\<close>, over all its steps, told from the last event it
  waited for.
\<close>

section \<open>Requests to stop\<close>

text \<open>
  An answer to the wait for an event that asks the helper to stop: a signal, or a shutdown event that
  does not report a failure.
\<close>

fun told_to_stop :: "hans \<Rightarrow> bool" where
  "told_to_stop (Event e) \<longleftrightarrow> ev_filter e = EVFILT_SIGNAL \<or>
     ev_filter e = EVFILT_USER \<and> (ev_fflags e = 0 \<or> ev_fflags e AND STATUS_STOPPED \<noteq> 0)"
| "told_to_stop _ \<longleftrightarrow> False"

text \<open>The last event of a run was such a request.\<close>

fun asked_to_stop :: "(hcall \<times> hans option) list \<Rightarrow> bool" where
  "asked_to_stop [] \<longleftrightarrow> False"
| "asked_to_stop ((c, a) # h) \<longleftrightarrow>
     (if list_all (\<lambda>e. fst e \<noteq> Kevent_wait) h \<and> c = Kevent_wait
      then (case a of Some b \<Rightarrow> told_to_stop b | None \<Rightarrow> False) else asked_to_stop h)"

abbreviation no_wait :: "hcall \<Rightarrow> bool" where
  "no_wait c \<equiv> c \<noteq> Kevent_wait"

lemma asked_without_wait: "list_all (\<lambda>e. no_wait (fst e)) h \<Longrightarrow> \<not> asked_to_stop h"
  by (induction h rule: asked_to_stop.induct) auto

lemma asked_append: "list_all (\<lambda>e. no_wait (fst e)) h \<Longrightarrow> asked_to_stop (g @ h) = asked_to_stop g"
  by (induction g rule: asked_to_stop.induct) (auto simp: asked_without_wait)

lemma asked_last: "asked_to_stop (g @ [(Kevent_wait, Some a)]) = told_to_stop a"
proof (induction g)
  case (Cons e g)
  then show ?case by (cases e) auto
qed simp

lemma told_event: "told_to_stop a \<Longrightarrow> \<exists>e. kevent_result a = Some (Some e)"
  by (cases a) auto

section \<open>Steps without events\<close>

definition uneventful :: "helper \<Rightarrow> helper \<Rightarrow> bool" where
  "uneventful s t \<longleftrightarrow> calls_in no_wait s t \<and> h_status t = h_status s"

interpretation uneventful: step_order uneventful
  by unfold_locales (auto simp: uneventful_def intro: calls_order.refl_step calls_order.trans_step)

lemma uneventful_asked: "uneventful s t \<Longrightarrow> asked_to_stop (history t) = asked_to_stop (history s)"
  by (auto simp: uneventful_def calls_in_def asked_append)

lemma uneventful_basic:
  "no_wait c \<Longrightarrow> preserves uneventful (sys c)" "no_wait c \<Longrightarrow> preserves uneventful (emit c)"
  "(\<And>s. history (f s) = history s \<and> h_status (f s) = h_status s) \<Longrightarrow> preserves uneventful (modify f)"
  by (auto simp: preserves_def uneventful_def calls_in_def sys_def emit_def modify_def split: list.split)

lemmas uneventful_intros = uneventful_basic uneventful.pres_bind uneventful.pres_seq uneventful.pres_whenp
  uneventful.pres_ret uneventful.pres_exit uneventful.pres_gets uneventful.pres_abort

lemma uneventful_must:
  "no_wait c \<Longrightarrow> preserves uneventful (must c)" "no_wait c \<Longrightarrow> preserves uneventful (must_be_zero c)"
  unfolding must_def must_be_zero_def by (auto intro!: uneventful_intros)

lemma uneventful_register: "preserves uneventful (register_exit h)"
  unfolding register_exit_def by (auto intro!: uneventful_intros uneventful_must)

lemma uneventful_debug: "preserves uneventful debug_start"
  by (rule preserves_debug_start) (simp_all add: uneventful_def calls_in_def)

lemma uneventful_endpoint: "preserves uneventful (init_endpoint nm mps)"
  unfolding init_endpoint_def Let_def by (auto intro!: uneventful_intros uneventful_must)

section \<open>The exit code of the steps\<close>

text \<open>
  Before \<open>main\<close> ends nobody has asked the helper to stop and the status is 0; a step that exits does it
  with the code that says whether the helper was asked to.
\<close>

definition calm :: "helper \<Rightarrow> bool" where
  "calm s \<longleftrightarrow> \<not> asked_to_stop (history s) \<and> h_status s = 0"

definition right_code :: "int \<Rightarrow> helper \<Rightarrow> bool" where
  "right_code n s \<longleftrightarrow> n = (if asked_to_stop (history s) then EXIT_SUCCESS else EXIT_FAILURE)"

definition honest :: "(helper, 'a) prog \<Rightarrow> bool" where
  "honest m \<longleftrightarrow> (\<forall>s r t. calm s \<longrightarrow> m s = (r, t) \<longrightarrow>
     (case r of Done x \<Rightarrow> calm t | Exited n \<Rightarrow> right_code n t | _ \<Rightarrow> True))"

lemma honest_bind:
  assumes "honest m" and "\<And>x. honest (f x)" shows "honest (bind m f)"
  unfolding honest_def
proof (intro allI impI)
  fix s r t assume s: "calm s" and run: "bind m f s = (r, t)"
  obtain r1 u where m: "m s = (r1, u)" by fastforce
  have "case r1 of Done x \<Rightarrow> calm u | Exited n \<Rightarrow> right_code n u | _ \<Rightarrow> True"
    using assms(1) s m unfolding honest_def by blast
  then show "case r of Done x \<Rightarrow> calm t | Exited n \<Rightarrow> right_code n t | _ \<Rightarrow> True"
    using assms(2) run m unfolding honest_def bind_def by (cases r1) auto
qed

lemma honest_seq: "honest m \<Longrightarrow> honest n \<Longrightarrow> honest (seq m n)"
  unfolding seq_def by (rule honest_bind)

lemma honest_step:
  assumes "preserves uneventful m" and "exits_in {1} m" shows "honest m"
  unfolding honest_def
proof (intro allI impI)
  fix s r t assume "calm s" and run: "m s = (r, t)"
  then have "calm t"
    using preservesD[OF assms(1) run] uneventful_asked by (auto simp: calm_def uneventful_def)
  then show "case r of Done x \<Rightarrow> calm t | Exited n \<Rightarrow> right_code n t | _ \<Rightarrow> True"
    using exits_inD[OF assms(2)] run by (cases r) (auto simp: calm_def right_code_def)
qed

lemma honest_basic:
  "honest (gets f)" "honest (ret x)" "no_wait c \<Longrightarrow> honest (must_be_zero c)"
  by (rule honest_step; auto intro!: uneventful_intros uneventful_must exit_codes)+

lemma honest_start: "honest (start_host_interface sdk26)"
proof (rule honest_step)
  have st: "preserves uneventful (started net a)" "exits_in {1} (started net a)" for net a
    unfolding started_def write_interface_info_def
    by (auto intro!: uneventful_intros exit_codes split: hans.split)
  show "preserves uneventful (start_host_interface sdk26)"
    unfolding start_host_interface_def start_interface_with_options_def acquire_network_from_broker_def
      start_interface_with_network_def network_from_ref_def
    by (auto intro!: uneventful_intros uneventful_register uneventful_debug st split: hans.split option.split)
  show "exits_in {1} (start_host_interface sdk26)"
    unfolding start_host_interface_def start_interface_with_options_def acquire_network_from_broker_def
      start_interface_with_network_def network_from_ref_def register_exit_def
    by (auto intro!: exit_codes st split: option.split hans.split)
qed

lemma honest_steps:
  "honest check_os_version" "honest setup_kq" "honest drop_privileges" "honest setup_endpoints"
  "honest start_forwarding_from_host" "honest start_forwarding_from_vm" "honest start_stats_timer"
  unfolding check_os_version_def setup_kq_def drop_privileges_def must_if_def setup_endpoints_def
    start_forwarding_from_host_def start_forwarding_from_vm_def start_stats_timer_def
  by (rule honest_step; auto intro!: uneventful_intros uneventful_must uneventful_endpoint exit_codes
      split: hans.split prod.split)+

lemma honest_client: "honest (repeat_until client_round)"
  unfolding honest_def
proof (intro allI impI)
  fix s r t assume "calm s" and run: "repeat_until client_round s = (r, t)"
  have last: "asked_to_stop (history t) = told_to_stop a \<and> h_status t = h_status s" if "left_wait s a t" for a
    using that asked_last[of "history s @ _"] by (auto simp: left_wait_def)
  show "case r of Done x \<Rightarrow> calm t | Exited n \<Rightarrow> right_code n t | _ \<Rightarrow> True"
    using client_loop_since[OF run] last \<open>calm s\<close> told_event by (fastforce simp: calm_def right_code_def)
qed

lemma honest_setup_socket: "honest setup_socket"
proof -
  have wait: "honest wait_for_client"
    unfolding wait_for_client_def
    by (intro honest_bind honest_seq honest_client honest_basic) simp_all
  have "honest create_socket_lockfile" "honest create_socket" "honest connect_socket"
    unfolding create_socket_lockfile_def create_socket_def socket_path_def set_socket_buffers_def
      place_socket_def connect_socket_def register_exit_def set_fd_def
    by (rule honest_step; auto intro!: uneventful_intros uneventful_must exit_codes split: hans.split option.split)+
  then show ?thesis
    unfolding setup_socket_def using wait by (auto intro!: honest_bind honest_seq honest_basic)
qed

section \<open>The loop and the end\<close>

lemma stops_code:
  "stops a = Some f \<Longrightarrow> exit_status f = (if told_to_stop a then EXIT_SUCCESS else EXIT_FAILURE)"
  by (cases a) (auto simp: stops.simps exit_status_def event_consts split: if_splits kfilter.splits)

lemma event_round_status:
  assumes "event_round s = (r, t)" and "h_status s = 0"
  shows "(\<forall>n. r \<noteq> Exited n) \<and> (r = Done None \<longrightarrow> h_status t = 0) \<and>
    (r = Done (Some ()) \<longrightarrow> (\<exists>a. history t = history s @ [(Kevent_wait, Some a)] \<and> stops a = Some (h_status t)))"
proof (cases "answers s")
  case Nil
  then show ?thesis using assms by (simp add: event_round_def bind_def)
next
  case (Cons a as)
  show ?thesis
  proof (cases rule: event_round_cases[OF Cons, case_names stop timer go])
    case (timer e)
    have "exits_in {} print_stats" "preserves uneventful print_stats"
      unfolding print_stats_def
      by (auto intro!: exit_codes uneventful_intros split: hans.split outcome.split)
    then have m: "exits_in {} (seq print_stats (ret (None :: unit option)))"
      "preserves uneventful (seq print_stats (ret (None :: unit option)))"
      by (auto intro!: exit_codes uneventful_intros)
    let ?w = "s\<lparr>answers := as, history := history s @ [(Kevent_wait, Some a)]\<rparr>"
    have run: "seq print_stats (ret None) ?w = (r, t)" using assms(1) timer(3) by simp
    have "h_status t = 0" using preservesD[OF m(2) run] assms(2) by (simp add: uneventful_def)
    moreover have "r \<noteq> Exited n" for n using exits_inD[OF m(1), of ?w n t] run by auto
    moreover have "r \<noteq> Done (Some ())" using run by (auto simp: seq_Done ret_def)
    ultimately show ?thesis by simp
  qed (use assms in auto)
qed

lemma honest_run: "honest (seq run_until_termination main_end)"
  unfolding honest_def
proof (intro allI impI)
  fix s r t assume "calm s" and run: "seq run_until_termination main_end s = (r, t)"
  obtain r1 u where loop: "run_until_termination s = (r1, u)" by fastforce
  then have loop': "repeat_until event_round s = (r1, u)" by (simp add: run_until_termination_def)
  have round: "h_status v = 0" if "h_status w = 0" "event_round w = (Done None, v)" for w v
    using event_round_status that by blast
  have start: "h_status s = 0" using \<open>calm s\<close> by (simp add: calm_def)
  show "case r of Done x \<Rightarrow> calm t | Exited n \<Rightarrow> right_code n t | _ \<Rightarrow> True"
  proof (cases r1)
    case (Done x)
    obtain w where "h_status w = 0" "event_round w = (Done (Some x), u)"
      by (rule event_loop.loop_Done[where I = "\<lambda>s. h_status s = 0", OF loop'[unfolded Done] start])
         (blast intro: round)+
    then obtain a where a: "history u = history w @ [(Kevent_wait, Some a)]" "stops a = Some (h_status u)"
      using event_round_status[of w] by auto
    have "r = Exited (exit_status (h_status u))" "t = u"
      using run loop Done by (auto simp: seq_def bind_def main_end_def gets_def exit_with_def)
    then show ?thesis using stops_code[OF a(2)] a(1) by (simp add: right_code_def asked_last)
  next
    case (Exited c)
    obtain w where "h_status w = 0" "event_round w = (Exited c, u)"
      by (rule event_loop.loop_Exited[where I = "\<lambda>s. h_status s = 0", OF loop'[unfolded Exited] start])
         (blast intro: round)+
    then show ?thesis using event_round_status by blast
  qed (use run loop in \<open>auto simp: seq_def bind_def\<close>)
qed

lemma honest_main: "honest (main_body sdk26)"
  unfolding main_body_def
  by (intro honest_seq honest_steps honest_start honest_setup_socket honest_run)

section \<open>Property\<close>

text \<open>
  C12: The exit code of the helper, on every path through \<open>main\<close>: with accepted options it exits with
  success exactly when the last event it waited for was a request to stop (a signal, also while it
  waits for a client, or a shutdown event that reports no failure), and with failure otherwise.
\<close>

theorem success_means_stopped:
  assumes "parse_options e args cli_init = (Done (), c)" and "helper_main e sdk26 args as = (Exited n, t)"
  shows "n = (if asked_to_stop (history t) then EXIT_SUCCESS else EXIT_FAILURE)"
proof -
  have fin: "finish (main_body sdk26) (main_start as c) = (Exited n, t)"
    using assms by (simp add: helper_main_def)
  obtain r1 u where m: "main_body sdk26 (main_start as c) = (r1, u)" by fastforce
  then obtain k where k: "r1 = Exited k" "seq exit_process (exit_with k) u = (Exited n :: unit outcome, t)"
    using fin m main_body_not_Done by (cases r1) (auto simp: finish_def)
  have "calm (main_start as c)" by (simp add: calm_def main_start_def helper_init_def)
  then have code: "right_code k u" using honest_main m k(1) unfolding honest_def by fastforce
  obtain x where x: "exit_process u = (Done x, t)" "n = k"
    using k(2) exit_process_not_Exited by (auto simp: seq_Exited)
  have "calls_in no_wait u t" by (rule preservesD[OF calls_exit_process x(1)]) simp_all
  then have "asked_to_stop (history t) = asked_to_stop (history u)"
    by (auto simp: calls_in_def asked_append)
  with code x(2) show ?thesis by (simp add: right_code_def)
qed

text \<open>A signal while the helper waits for its client.\<close>

definition sample_signal_answers :: "hans list" where
  "sample_signal_answers = [Version (Inr ''26.1''), Returns 501, Returns 3, Returns 0, Returns 0,
     Started True VMNET_SUCCESS [], Returns 0, Returns 501, Returns 0, Returns 7, Returns 0, Returns 5,
     Returns 0, Returns 0, Fails ENOENT, Returns 0, Returns 0, Returns 0, Returns 0,
     Event (an_event EVFILT_SIGNAL SIGTERM 0), Returns 0, Returns 0, Stopped VMNET_SUCCESS VMNET_SUCCESS]"

theorem success_means_stopped_witness:
  "\<exists>t. helper_main sample_env True sample_main_options sample_signal_answers = (Exited 0, t) \<and>
     asked_to_stop (history t)"
proof -
  let ?p = "parse_options sample_env sample_main_options cli_init"
  let ?r = "helper_main sample_env True sample_main_options sample_signal_answers"
  have "fst ?p = Done ()" unfolding sample_main_options_def by code_simp
  then have p: "?p = (Done (), snd ?p)" by (simp add: prod_eq_iff)
  have "fst ?r = Exited 0" by code_simp
  then have r: "?r = (Exited 0, snd ?r)" by (simp add: prod_eq_iff)
  from success_means_stopped[OF p r] have "asked_to_stop (history (snd ?r))" by (simp split: if_splits)
  with r show ?thesis by blast
qed

end
