(* ===== verification/Spec2Isabelle.thy ===== *)
theory Spec2Isabelle
  imports Options Os_Version Broker Host_Forward Vm_Forward Stats Events Shutdown Interface Helper_Main
    Workers Run_Descriptors Data_Path Servers Exit_Code
begin

text \<open>
  A model of vmnet-helper and of the programs around it, with the properties that make them correct.

  \<^bold>\<open>The programs.\<close>  vmnet-helper (\<open>src/programs/helper.c\<close>) connects a virtual machine to a network of
  the macOS vmnet framework: it starts a vmnet interface, usually as root, drops its privileges, gets a
  datagram socket to the VM (inherited, or bound at a path) and copies packets both ways until it is
  told to stop.  vmnet-run (\<open>src/programs/run.c\<close>) starts a command and a helper joined by a socket
  pair.  A network may come from the vmnet-broker service (\<open>src/broker\<close>).

  \<^bold>\<open>How C is written.\<close>  A function that calls the system is a \<open>prog\<close> on a state that extends \<open>proc\<close>: the
  answers its calls will get and the calls made so far.  It returns a value, exits with a status,
  fails an assertion (\<open>Aborted\<close>; also a use of NULL), or waits for an answer that does not come.  So
  every error path of the code is a branch, every theorem holds for all answers of the kernel, of vmnet
  and of the broker, and what a run did is its history.  Loops that may not end are \<open>repeat_until\<close>; the
  answers bound them, so no fuel is chosen: a run that has used its answers waits.  Machine integers are
  words where they wrap (sizes, statistics, ids, statuses); \<open>int\<close> counts that the code compares with
  bounds it never exceeds are \<open>int\<close>.

  \<^bold>\<open>The theories.\<close>
  \<^item> \<open>Prelude\<close>: outcomes, programs, their algebra and proof rules; the interfaces \<open>step_order\<close> (what every
    program of a kind keeps), \<open>calling_loop\<close> (loops that consume an answer each round) and
    \<open>inductive_invariant\<close> (step relations).
  \<^item> \<open>Libc\<close>, \<open>Vmnet\<close>, \<open>Getopt\<close>: the parts of the C library, of XPC and vmnet, and of \<open>getopt_long\<close> that the
    sources use.  \<open>Getopt\<close> has the interface \<open>option_table\<close>, which both programs instantiate.
  \<^item> \<open>Options\<close>: \<open>options.c\<close>, the helper's command line.  Accepted options describe one transport and one
    network; the parser equals a reference that reads the whole line first; the ids are those of sudo.
  \<^item> \<open>Os_Version\<close>: \<open>os.c\<close>.  Reading a version equals splitting it.
  \<^item> \<open>Broker\<close>: \<open>client.c\<close>.  References are balanced on every reply.
  \<^item> \<open>Helper_Calls\<close>: the calls of the helper's main thread and their answers.
  \<^item> \<open>Endpoint\<close>: \<open>struct endpoint\<close> and \<open>init_endpoint\<close>.  The iovs partition the buffer.
  \<^item> \<open>Host_Forward\<close>: \<open>read_from_host\<close>, \<open>write_to_vm\<close>, \<open>packets_available\<close>.  Exact delivery and statistics,
    the number of calls, and that bulk forwarding is only an optimisation.
  \<^item> \<open>Vm_Forward\<close>: \<open>read_from_vm\<close>, \<open>write_to_host\<close>, \<open>forward_from_vm\<close>, \<open>trigger_shutdown\<close>.  Each batch goes
    to vmnet before the next is read; the thread ends with one shutdown event; the statistics.
  \<^item> \<open>Data_Path\<close>: the same two directions with the memory of the buffers.  What reaches the VM and the network are
    datagrams that were received, byte for byte and in order; all of them towards the network as long as
    \<open>vmnet_write\<close> takes whole batches, whose count the code ignores.
  \<^item> \<open>Stats\<close>: \<open>iso_8601_timestamp\<close> and \<open>report_stats\<close>.  The timestamp fits; the report reads back.
  \<^item> \<open>Events\<close>: the globals of the helper, \<open>setup_kq\<close>, \<open>wait_for_client\<close>, \<open>start_stats_timer\<close>,
    \<open>run_until_termination\<close>.  Which event ends which loop, and the exit status.
  \<^item> \<open>Shutdown\<close>: a run of \<open>forward_from_vm\<close> and a run of \<open>run_until_termination\<close> interleaved, with signals and
    the timer, on the event queue.  No shutdown is lost, and the status of the main loop has a cause.
  \<^item> \<open>Interface\<close>: starting and stopping the interface, and the JSON line with its parameters.  The debug message
    before an own network is started is modelled too: it may print a NULL string.
  \<^item> \<open>Socket\<close>: the lock file, the socket, the client and the exit handlers, against an automaton of what a
    process does to the two files.
  \<^item> \<open>Rendezvous\<close>: any number of processes that follow the automaton on one path, killed at any moment.
    At most one is between taking the lock and giving it up.
  \<^item> \<open>Privileges\<close>: \<open>drop_privileges\<close> against the credentials a kernel keeps.
  \<^item> \<open>Helper_Main\<close>: \<open>main\<close>.  Every run follows the automaton of \<open>Socket\<close> to its end, exits with 0 or 1 or waits,
    and touches files only as the user.
  \<^item> \<open>Servers\<close>: runs of \<open>main\<close> interleaved on one path.  They are runs of \<open>Rendezvous\<close>, so at most one holds the
    lock, and the socket is that of the helper that serves; and when the others have ended, even killed, a new
    run of \<open>main\<close> can come to serve.
  \<^item> \<open>Workers\<close>: what is in place when the VM thread starts.
  \<^item> \<open>Exit_Code\<close>: the exit code of every run of \<open>main\<close> from the last event it waited for.
  \<^item> \<open>Run_Options\<close>, \<open>Run_Argv\<close>: the command line of vmnet-run and the arguments it builds.  They fit the array,
    and the parser of \<open>Options\<close> reads them back, or refuses what only it checks.
  \<^item> \<open>Run_Process\<close>: the process group, the socket pair, the children, the wait, \<open>main\<close> of vmnet-run.
  \<^item> \<open>Run_Descriptors\<close>: the descriptor tables of the three processes.  Each end reaches one child, but for what
    standard descriptors that were closed keep.

  \<^bold>\<open>Order of work.\<close>  The forwarding of packets came first, then what starts and stops it, then the options, then
  the socket and the processes on one path, then \<open>main\<close> and the runner.

  \<^bold>\<open>What the environment is trusted with.\<close>  Where a property needs it, it is a hypothesis on the answers:
  \<open>sendmsg_x\<close> sends at most what it is given, \<open>write\<close> on a datagram socket sends all or fails
  (\<open>call_ok\<close>), a call that succeeds sends something (\<open>call_live\<close>), a receive returns no more datagrams than
  it was offered buffers (\<open>fits\<close>),
  the clock gives a date with a year of four digits (\<open>clock_ok\<close>), \<open>vmnet_read\<close> sets the size and the length of each
  packet to that of the datagram it put in the buffer (\<open>answers_bytes\<close>), and a receive tells the length of each
  datagram (\<open>carries\<close>).  The kernels of \<open>Rendezvous\<close>, \<open>Privileges\<close>,
  \<open>Shutdown\<close> and \<open>Run_Descriptors\<close> are the documented behaviour of \<open>open\<close> with \<open>O_EXLOCK\<close>, \<open>setuid\<close>, \<open>kevent\<close> with
  \<open>EVFILT_USER\<close>, \<open>EVFILT_SIGNAL\<close> and \<open>EVFILT_TIMER\<close>, and \<open>socketpair\<close>/\<open>dup2\<close>/\<open>close\<close>.  \<open>uuid_parse\<close>, \<open>inet_aton\<close>, the ids, the environment and the
  generated version are fields of a parameter \<open>env\<close>.

  \<^bold>\<open>Not modelled.\<close>  Log messages and usage texts (\<open>log.h\<close>), but for the one above: they have no effect on the
  state and their strings are not NULL.  \<open>helper_main\<close> is the run of the main thread: when the VM thread cannot
  trigger the shutdown it calls \<open>exit\<close> itself (the \<open>Exited\<close> outcome of \<open>forward_from_vm\<close>), which ends the
  process at that point, and this end is not one of the runs of \<open>helper_main\<close>.  The text of
  \<open>--list-shared-interfaces\<close>.  vmnet, XPC, the kernel and the C library beyond the above: they are answers.  Data races on the statistics, which the main thread
  reads while the others write: a report gets some values.  The signal handler of vmnet-run is one assignment;
  its effect is the value read after an interrupted wait.  The tests, the scripts, the build files and the
  documents are not part of the programs.
\<close>

end
